(* ===== verification/Prelude.thy ===== *)
theory Prelude
  imports Main "HOL-Library.Word"
begin

text \<open>
  Shared vocabulary of the development: machine words, C strings, the ways a C/C++ operation can
  go wrong, and generic list lemmas. Every operation of the code that could dereference a dead or
  null pointer, write out of bounds or fail an assertion returns \<open>Inl\<close> of a \<open>ub\<close>
  value there, so that the safety theorems can say that it never does.
\<close>

unbundle bit_operations_syntax

section \<open>Words, C strings and undefined behaviour\<close>

type_synonym u8 = "8 word"
type_synonym u32 = "32 word"

text \<open>What the code must never do. \<open>DeadHandle\<close> is a call on a libwebsockets handle that
  the library has already freed, \<open>PromiseTwice\<close> a second \<open>set_value\<close> on one promise.\<close>

datatype ub = NullDeref | UseAfterFree | HeapOverflow | AssertFailed | DivByZero
  | DeadHandle | PromiseTwice | SignedOverflow | OutOfBounds | Hang

datatype switch_status = SWITCH_STATUS_SUCCESS | SWITCH_STATUS_FALSE | SWITCH_STATUS_TERM

text \<open>Sequencing of operations that may go wrong.\<close>

definition andthen :: "ub + 'a \<Rightarrow> ('a \<Rightarrow> ub + 'b) \<Rightarrow> ub + 'b" where
  "andthen r f = (case r of Inl e \<Rightarrow> Inl e | Inr x \<Rightarrow> f x)"

lemma andthen_simps [simp]:
  "andthen (Inl e) f = Inl e"
  "andthen (Inr x) f = f x"
  by (simp_all add: andthen_def)

lemma andthen_Inr_iff: "andthen r f = Inr y \<longleftrightarrow> (\<exists>x. r = Inr x \<and> f x = Inr y)"
  by (cases r) auto

definition is_ok :: "ub + 'a \<Rightarrow> bool" where
  "is_ok r \<longleftrightarrow> (case r of Inl _ \<Rightarrow> False | Inr _ \<Rightarrow> True)"

lemma is_ok_simps [simp]: "is_ok (Inr x)" "\<not> is_ok (Inl e)"
  by (simp_all add: is_ok_def)

lemma is_okE: "is_ok r \<Longrightarrow> (\<And>x. r = Inr x \<Longrightarrow> P) \<Longrightarrow> P"
  by (cases r) auto

lemma is_ok_andthen: "is_ok r \<Longrightarrow> (\<And>x. r = Inr x \<Longrightarrow> is_ok (f x)) \<Longrightarrow> is_ok (andthen r f)"
  by (cases r) auto

text \<open>A \<open>std::string\<close> seen through \<open>c_str()\<close> ends at its first NUL. A fixed-size field of
  \<open>n\<close> bytes filled by \<open>strncpy(dst, src, n - 1)\<close> and terminated holds the first
  \<open>n - 1\<close> characters.\<close>

definition c_str :: "string \<Rightarrow> string" where
  "c_str s = takeWhile (\<lambda>c. c \<noteq> CHR 0x00) s"

definition strncpy_field :: "nat \<Rightarrow> string \<Rightarrow> string" where
  "strncpy_field n s = take (n - 1) s"

lemma length_strncpy_field: "0 < n \<Longrightarrow> length (strncpy_field n s) < n"
  by (simp add: strncpy_field_def)

lemma strncpy_field_id: "length s < n \<Longrightarrow> strncpy_field n s = s"
  by (simp add: strncpy_field_def)

definition is_digit :: "char \<Rightarrow> bool" where
  "is_digit c \<longleftrightarrow> CHR ''0'' = c \<or> c \<in> set ''123456789''"

definition digit_val :: "char \<Rightarrow> nat" where
  "digit_val c = (of_char c :: nat) - 48"

definition digits_val :: "string \<Rightarrow> nat" where
  "digits_val s = foldl (\<lambda>n c. 10 * n + digit_val c) 0 s"

text \<open>\<open>atoi\<close> of the C library: leading white space, an optional sign, digits. Glibc computes
  it as \<open>strtol\<close> (64 bits, saturating) converted to a 32-bit \<open>int\<close>.\<close>

definition to_int32 :: "int \<Rightarrow> int" where
  "to_int32 v = sint (word_of_int v :: 32 word)"

definition clamp64 :: "int \<Rightarrow> int" where
  "clamp64 v = max (- (2 ^ 63)) (min (2 ^ 63 - 1) v)"

definition is_space :: "char \<Rightarrow> bool" where
  "is_space c \<longleftrightarrow> c = CHR '' '' \<or> (of_char c :: nat) \<in> {9..13}"

definition atoi :: "string \<Rightarrow> int" where
  "atoi s =
     (let t = dropWhile is_space s;
          neg = (t \<noteq> [] \<and> hd t = CHR ''-'');
          u = (if t \<noteq> [] \<and> (hd t = CHR ''-'' \<or> hd t = CHR ''+'') then tl t else t);
          v = int (digits_val (takeWhile is_digit u))
      in to_int32 (clamp64 (if neg then - v else v)))"

text \<open>ASCII case folding for \<open>strcasecmp\<close>.\<close>

definition to_lower :: "char \<Rightarrow> char" where
  "to_lower c = (let n = of_char c :: nat in if 65 \<le> n \<and> n \<le> 90 then char_of (n + 32) else c)"

definition strcaseeq :: "string \<Rightarrow> string \<Rightarrow> bool" where
  "strcaseeq s t \<longleftrightarrow> map to_lower s = map to_lower t"

text \<open>\<open>strncmp(s, p, strlen(p)) == 0\<close>\<close>

fun starts_with :: "string \<Rightarrow> string \<Rightarrow> bool" where
  "starts_with [] s = True"
| "starts_with (p # ps) [] = False"
| "starts_with (p # ps) (c # cs) = (p = c \<and> starts_with ps cs)"

lemma starts_with_iff: "starts_with p s \<longleftrightarrow> (\<exists>t. s = p @ t)"
  by (induction p s rule: starts_with.induct) auto

section \<open>Lists\<close>

text \<open>\<open>memcpy\<close> of \<open>src\<close> into a block at offset \<open>off\<close>.\<close>

definition splice :: "nat \<Rightarrow> 'a list \<Rightarrow> 'a list \<Rightarrow> 'a list" where
  "splice off src buf = take off buf @ src @ drop (off + length src) buf"

lemma length_splice [simp]:
  "off + length src \<le> length buf \<Longrightarrow> length (splice off src buf) = length buf"
  by (simp add: splice_def)

lemma take_splice: "off \<le> length buf \<Longrightarrow> take (off + length src) (splice off src buf) = take off buf @ src"
  by (simp add: splice_def)

lemma take_splice_before:
  "n \<le> off \<Longrightarrow> off \<le> length buf \<Longrightarrow> take n (splice off src buf) = take n buf"
  by (simp add: splice_def)

lemma splice_block_same:
  "off + length src \<le> length buf \<Longrightarrow> take (length src) (drop off (splice off src buf)) = src"
  by (simp add: splice_def)

lemma splice_block_other:
  assumes "off + length src \<le> length buf" and "k + n \<le> off \<or> off + length src \<le> k"
  shows "take n (drop k (splice off src buf)) = take n (drop k buf)"
proof (cases "k + n \<le> off")
  case True
  then have "take n (drop k (splice off src buf)) = drop k (take (k + n) (splice off src buf))"
    by (simp add: take_drop add.commute)
  also have "\<dots> = drop k (take (k + n) buf)"
    using True assms(1) by (simp add: take_splice_before)
  finally show ?thesis by (simp add: take_drop add.commute)
next
  case False
  then have "off + length src \<le> k" using assms by simp
  then show ?thesis using assms(1) by (simp add: splice_def)
qed

text \<open>The first success in a list of candidates, in order.\<close>

fun first_some :: "('a \<Rightarrow> 'b option) \<Rightarrow> 'a list \<Rightarrow> 'b option" where
  "first_some f [] = None"
| "first_some f (x # xs) = (case f x of None \<Rightarrow> first_some f xs | Some y \<Rightarrow> Some y)"

lemma first_some_None: "first_some f xs = None \<longleftrightarrow> (\<forall>x\<in>set xs. f x = None)"
  by (induction xs) (auto split: option.splits)

lemma first_some_Some: "first_some f xs = Some y \<Longrightarrow> \<exists>x\<in>set xs. f x = Some y"
  by (induction xs) (auto split: option.splits)

lemma first_some_append:
  "first_some f (xs @ ys) = (case first_some f xs of None \<Rightarrow> first_some f ys | Some y \<Rightarrow> Some y)"
  by (induction xs) (auto split: option.splits)

lemma first_some_skip:
  "(\<And>x. x \<in> set xs \<Longrightarrow> f x = None) \<Longrightarrow> first_some f (xs @ ys) = first_some f ys"
  by (simp add: first_some_append first_some_None [THEN iffD2])

lemma upd_eq: "m(k \<mapsto> a) = m(k \<mapsto> b) \<longleftrightarrow> a = b"
  by (auto dest: map_upd_eqD1)

end
