(* ===== verification/Base64.thy ===== *)
theory Base64
  imports Prelude
begin

text \<open>
  \<^verbatim>\<open>modules/mod_audio_fork/base64.hpp\<close>: the encoder and decoder that
  \<open>processIncomingMessage\<close> applies to the audio payload of a \<open>playAudio\<close> message. Bytes are
  \<open>8 word\<close>, so the masks and shifts are those of the source (the sums the source forms in
  \<open>int\<close> and truncates to \<open>unsigned char\<close> agree with \<open>8 word\<close> arithmetic).
\<close>

section \<open>Definitions\<close>

definition base64_chars :: string where
  "base64_chars = ''ABCDEFGHIJKLMNOPQRSTUVWXYZabcdefghijklmnopqrstuvwxyz0123456789+/''"

definition is_base64 :: "char \<Rightarrow> bool" where
  "is_base64 ch \<longleftrightarrow> (let c = of_char ch :: nat in
     c = 43 \<or> (c \<ge> 47 \<and> c \<le> 57) \<or> (c \<ge> 65 \<and> c \<le> 90) \<or> (c \<ge> 97 \<and> c \<le> 122))"

text \<open>The four sextets of a group of three bytes, as both copies of the code in
  \<open>base64_encode\<close> compute them.\<close>

definition enc_quad :: "u8 \<Rightarrow> u8 \<Rightarrow> u8 \<Rightarrow> u8 list" where
  "enc_quad a b c =
     [drop_bit 2 (a AND 0xfc),
      push_bit 4 (a AND 0x03) + drop_bit 4 (b AND 0xf0),
      push_bit 2 (b AND 0x0f) + drop_bit 6 (c AND 0xc0),
      c AND 0x3f]"

definition enc_char :: "u8 \<Rightarrow> char" where
  "enc_char w = base64_chars ! unat w"

text \<open>The \<open>while (len--)\<close> loop: \<open>buf\<close> is \<open>char_array_3[0..i)\<close> with \<open>i < 3\<close>,
  \<open>ret\<close> the output so far. The tail after the loop pads with NULs, emits \<open>i + 1\<close> of the four
  characters and \<open>3 - i\<close> equal signs.\<close>

fun base64_encode_loop :: "u8 list \<Rightarrow> u8 list \<Rightarrow> string \<Rightarrow> string" where
  "base64_encode_loop (x # xs) [a, b] ret =
     base64_encode_loop xs [] (ret @ map enc_char (enc_quad a b x))"
| "base64_encode_loop (x # xs) buf ret = base64_encode_loop xs (buf @ [x]) ret"
| "base64_encode_loop [] [] ret = ret"
| "base64_encode_loop [] buf ret =
     (let i = length buf; arr = buf @ replicate (3 - i) 0
      in ret @ take (i + 1) (map enc_char (enc_quad (arr ! 0) (arr ! 1) (arr ! 2)))
             @ replicate (3 - i) CHR ''='')"

definition base64_encode :: "u8 list \<Rightarrow> string" where
  "base64_encode input = base64_encode_loop input [] []"

text \<open>\<open>base64_chars.find(c)\<close> cast to \<open>unsigned char\<close>: \<open>npos\<close> becomes 255.\<close>

fun find_index :: "char \<Rightarrow> string \<Rightarrow> nat \<Rightarrow> nat option" where
  "find_index c [] k = None"
| "find_index c (x # xs) k = (if x = c then Some k else find_index c xs (Suc k))"

definition dec_char :: "char \<Rightarrow> u8" where
  "dec_char c = (case find_index c base64_chars 0 of Some k \<Rightarrow> of_nat k | None \<Rightarrow> 255)"

definition dec_triple :: "u8 \<Rightarrow> u8 \<Rightarrow> u8 \<Rightarrow> u8 \<Rightarrow> u8 list" where
  "dec_triple p q r s =
     [push_bit 2 p + drop_bit 4 (q AND 0x30),
      push_bit 4 (q AND 0xf) + drop_bit 2 (r AND 0x3c),
      push_bit 6 (r AND 0x3) + s]"

text \<open>The decoding loop stops at the end, at the first \<open>=\<close> or at the first character outside
  the alphabet; \<open>buf\<close> is \<open>char_array_4[0..i)\<close> with \<open>i < 4\<close>. The tail fills the group with
  NULs, looks all four up (a NUL is not in the alphabet, so it becomes 255) and emits
  \<open>i - 1\<close> bytes, on which the padding has no influence.\<close>

definition base64_decode_tail :: "string \<Rightarrow> u8 list \<Rightarrow> u8 list" where
  "base64_decode_tail buf ret =
     (let i = length buf; arr = map dec_char (buf @ replicate (4 - i) (CHR 0x00))
      in if i = 0 then ret
         else ret @ take (i - 1) (dec_triple (arr ! 0) (arr ! 1) (arr ! 2) (arr ! 3)))"

fun base64_decode_loop :: "string \<Rightarrow> string \<Rightarrow> u8 list \<Rightarrow> u8 list" where
  "base64_decode_loop [] buf ret = base64_decode_tail buf ret"
| "base64_decode_loop (c # cs) buf ret =
     (if c \<noteq> CHR ''='' \<and> is_base64 c then
        (case buf of
           [p, q, r] \<Rightarrow> base64_decode_loop cs []
             (ret @ dec_triple (dec_char p) (dec_char q) (dec_char r) (dec_char c))
         | _ \<Rightarrow> base64_decode_loop cs (buf @ [c]) ret)
      else base64_decode_tail buf ret)"

definition base64_decode :: "string \<Rightarrow> u8 list" where
  "base64_decode input = base64_decode_loop input [] []"

section \<open>The alphabet\<close>

lemma length_base64_chars: "length base64_chars = 64"
  by (simp add: base64_chars_def)

lemma distinct_base64_chars: "distinct base64_chars"
  by code_simp

lemma base64_chars_valid: "list_all (\<lambda>c. c \<noteq> CHR ''='' \<and> is_base64 c) base64_chars"
  by code_simp

lemma find_index_nth:
  "distinct xs \<Longrightarrow> n < length xs \<Longrightarrow> find_index (xs ! n) xs k = Some (k + n)"
proof (induction xs arbitrary: n k)
  case (Cons x xs)
  then show ?case by (cases n) auto
qed simp

lemma enc_char_valid:
  assumes "unat w < 64"
  shows "enc_char w \<noteq> CHR ''=''" "is_base64 (enc_char w)"
  using base64_chars_valid assms
  by (auto simp: enc_char_def list_all_length length_base64_chars)

lemma dec_enc_char: "unat w < 64 \<Longrightarrow> dec_char (enc_char w) = w"
  using find_index_nth [OF distinct_base64_chars, of "unat w" 0]
  by (simp add: dec_char_def enc_char_def length_base64_chars)

section \<open>Groups of three bytes as arithmetic\<close>

lemma unat_and_mask: "unat (a AND mask n) = unat a mod 2 ^ n" for a :: u8
  by (simp only: take_bit_eq_mask [symmetric] unsigned_take_bit_eq) (simp only: take_bit_eq_mod)

lemma unat_less_256: "unat a < 256" for a :: u8
  using unsigned_less [of a] by simp

lemma unat_drop: "unat (drop_bit n a) = unat a div 2 ^ n" for a :: u8
proof -
  have "unat (drop_bit n a) = drop_bit n (take_bit LENGTH(8) (unat a))"
    by (rule unsigned_drop_bit_eq)
  also have "take_bit LENGTH(8) (unat a) = unat a"
    using unat_less_256 [of a] by (simp add: take_bit_nat_eq_self)
  finally show ?thesis by (simp only: drop_bit_eq_div)
qed

lemma unat_push: "unat a * 2 ^ n < 256 \<Longrightarrow> unat (push_bit n a) = unat a * 2 ^ n" for a :: u8
proof -
  assume *: "unat a * 2 ^ n < 256"
  have "unat (push_bit n a) = take_bit LENGTH(8) (push_bit n (unat a))"
    by (rule unsigned_push_bit_eq)
  also have "\<dots> = unat a * 2 ^ n"
    using * by (simp only: push_bit_eq_mult) (simp add: take_bit_nat_eq_self)
  finally show ?thesis .
qed

lemma unat_add: "unat a + unat b < 256 \<Longrightarrow> unat (a + b) = unat a + unat b" for a b :: u8
  by (simp add: unat_word_ariths)

lemma unat_add_eq:
  "unat x = m \<Longrightarrow> unat y = n \<Longrightarrow> m + n < 256 \<Longrightarrow> unat (x + y) = m + n" for x y :: u8
  by (simp add: unat_add)

lemma masks: "(0x03 :: u8) = mask 2" "(0x0f :: u8) = mask 4" "(0x3f :: u8) = mask 6"
  by (simp_all add: mask_eq_exp_minus_1)

lemma unat_mask_low:
  "unat (a AND 0x03) = unat a mod 4" "unat (a AND 0x0f) = unat a mod 16"
  "unat (a AND 0x3f) = unat a mod 64" for a :: u8
  by (simp_all add: masks unat_and_mask)

lemma drop_and_high:
  "drop_bit 2 (a AND 0xfc) = drop_bit 2 a" "drop_bit 4 (a AND 0xf0) = drop_bit 4 a"
  "drop_bit 6 (a AND 0xc0) = drop_bit 6 a" for a :: u8
proof -
  have d: "drop_bit 2 (0xfc :: u8) = mask 6" "drop_bit 4 (0xf0 :: u8) = mask 4"
    "drop_bit 6 (0xc0 :: u8) = mask 2"
    by (simp_all add: mask_eq_exp_minus_1)
  have "drop_bit n a AND mask (8 - n) = drop_bit n a" if "n \<le> 8" for n
  proof -
    have "unat (drop_bit n a AND mask (8 - n)) = unat (drop_bit n a)"
    proof -
      have "unat a div 2 ^ n < 2 ^ (8 - n)"
      proof -
        have "unat a < 2 ^ 8" using unat_less_256 [of a] by simp
        also have "(2::nat) ^ 8 = 2 ^ (8 - n) * 2 ^ n" using that by (simp flip: power_add)
        finally show ?thesis by (simp add: less_mult_imp_div_less)
      qed
      then show ?thesis by (simp add: unat_and_mask unat_drop)
    qed
    then show ?thesis by (simp add: word_unat_eq_iff)
  qed
  from this [of 2] this [of 4] this [of 6]
  show "drop_bit 2 (a AND 0xfc) = drop_bit 2 a" "drop_bit 4 (a AND 0xf0) = drop_bit 4 a"
    "drop_bit 6 (a AND 0xc0) = drop_bit 6 a"
    by (simp_all only: drop_bit_and d) simp_all
qed

lemma and_dec_masks:
  "unat (drop_bit 4 (q AND 0x30)) = unat q div 16"
  "unat (drop_bit 2 (q AND 0x3c)) = unat q div 4 mod 16"
  "unat (q AND 0x3) = unat q mod 4"
  if "unat q < 64" for q :: u8
proof -
  have d: "drop_bit 4 (0x30 :: u8) = mask 2" "drop_bit 2 (0x3c :: u8) = mask 4"
    by (simp_all add: mask_eq_exp_minus_1)
  show "unat (drop_bit 4 (q AND 0x30)) = unat q div 16"
    "unat (drop_bit 2 (q AND 0x3c)) = unat q div 4 mod 16" "unat (q AND 0x3) = unat q mod 4"
    using that by (simp_all add: drop_bit_and d unat_and_mask unat_drop unat_mask_low)
qed

text \<open>Encoding is division by powers of two, decoding is multiplication; the two compose to
  the identity by arithmetic.\<close>

lemma enc_quad_nat:
  "map unat (enc_quad a b c) =
     [unat a div 4, unat a mod 4 * 16 + unat b div 16, unat b mod 16 * 4 + unat c div 64,
      unat c mod 64]"
proof -
  have lt: "unat a < 256" "unat b < 256" "unat c < 256"
    by (rule unat_less_256)+
  have p: "unat (push_bit 4 (a AND 0x03)) = unat a mod 4 * 16"
    "unat (push_bit 2 (b AND 0x0f)) = unat b mod 16 * 4"
    by (subst unat_push; simp add: unat_mask_low; arith)+
  have d: "unat b div 16 < 16" "unat c div 64 < 4" using lt by simp_all
  have u1: "unat (push_bit 4 (a AND 0x03) + drop_bit 4 (b AND 0xf0)) = unat a mod 4 * 16 + unat b div 16"
  proof (rule unat_add_eq)
    show "unat (push_bit 4 (a AND 0x03)) = unat a mod 4 * 16" by (rule p)
    show "unat (drop_bit 4 (b AND 0xf0)) = unat b div 16" by (simp only: drop_and_high unat_drop) simp
    show "unat a mod 4 * 16 + unat b div 16 < 256" using d by arith
  qed
  have u2: "unat (push_bit 2 (b AND 0x0f) + drop_bit 6 (c AND 0xc0)) = unat b mod 16 * 4 + unat c div 64"
  proof (rule unat_add_eq)
    show "unat (push_bit 2 (b AND 0x0f)) = unat b mod 16 * 4" by (rule p)
    show "unat (drop_bit 6 (c AND 0xc0)) = unat c div 64" by (simp only: drop_and_high unat_drop) simp
    show "unat b mod 16 * 4 + unat c div 64 < 256" using d by arith
  qed
  have u3: "unat (drop_bit 2 (a AND 0xfc)) = unat a div 4"
    by (simp only: drop_and_high unat_drop) simp
  show ?thesis by (simp only: enc_quad_def list.map u1 u2 u3 unat_mask_low)
qed

lemma dec_triple_nat:
  assumes "unat p < 64" "unat q < 64" "unat r < 64" "unat s < 64"
  shows "map unat (dec_triple p q r s) =
     [unat p * 4 + unat q div 16, unat q mod 16 * 16 + unat r div 4, unat r mod 4 * 64 + unat s]"
proof -
  have m: "unat (push_bit 2 p) = unat p * 4"
    "unat (push_bit 4 (q AND 0xf)) = unat q mod 16 * 16"
    "unat (push_bit 6 (r AND 0x3)) = unat r mod 4 * 64"
    using assms by (subst unat_push; simp add: unat_mask_low; arith)+
  have u: "unat (push_bit 2 p + drop_bit 4 (q AND 0x30)) = unat p * 4 + unat q div 16"
    "unat (push_bit 4 (q AND 0xf) + drop_bit 2 (r AND 0x3c)) = unat q mod 16 * 16 + unat r div 4"
    "unat (push_bit 6 (r AND 0x3) + s) = unat r mod 4 * 64 + unat s"
    using assms by (subst unat_add; simp only: m and_dec_masks; simp; arith?)+
  show ?thesis by (simp only: dec_triple_def list.map u)
qed

lemma enc_quad_bounds: "w \<in> set (enc_quad a b c) \<Longrightarrow> unat w < 64"
proof -
  have lt: "unat a < 256" "unat b < 256" "unat c < 256"
    by (rule unat_less_256)+
  then have "n \<in> set (map unat (enc_quad a b c)) \<Longrightarrow> n < 64" for n
    by (auto simp: enc_quad_nat)
  then show "w \<in> set (enc_quad a b c) \<Longrightarrow> unat w < 64" by auto
qed

lemma length_enc_quad [simp]: "length (enc_quad a b c) = 4"
  by (simp add: enc_quad_def)

lemma length_dec_triple [simp]: "length (dec_triple p q r s) = 3"
  by (simp add: dec_triple_def)

lemma dec_enc_group:
  assumes "enc_quad a b c = [p, q, r, s]"
  shows "dec_triple p q r s = [a, b, c]"
proof -
  have "unat p < 64" "unat q < 64" "unat r < 64" "unat s < 64"
    using enc_quad_bounds [of _ a b c] assms by simp_all
  moreover have "unat p = unat a div 4" "unat q = unat a mod 4 * 16 + unat b div 16"
    "unat r = unat b mod 16 * 4 + unat c div 64" "unat s = unat c mod 64"
    using enc_quad_nat [of a b c] assms by simp_all
  moreover have "unat b div 16 < 16" "unat c div 64 < 4"
    using unat_less_256 [of b] unat_less_256 [of c] by simp_all
  ultimately have "map unat (dec_triple p q r s) = map unat [a, b, c]"
    by (simp add: dec_triple_nat)
  then show ?thesis by (simp add: dec_triple_def word_unat_eq_iff)
qed

section \<open>The two loops, group by group\<close>

text \<open>The loops processed three bytes, respectively four characters, at a time.\<close>

lemma encode_loop_group:
  "base64_encode_loop (a # b # c # xs) [] ret
     = base64_encode_loop xs [] (ret @ map enc_char (enc_quad a b c))"
  by simp

lemma decode_loop_group:
  assumes "\<And>c. c \<in> {p, q, r, s} \<Longrightarrow> c \<noteq> CHR ''='' \<and> is_base64 c"
  shows "base64_decode_loop (p # q # r # s # cs) [] ret
     = base64_decode_loop cs [] (ret @ dec_triple (dec_char p) (dec_char q) (dec_char r) (dec_char s))"
  using assms by simp

lemma encode_loop_ret: "base64_encode_loop xs buf ret = ret @ base64_encode_loop xs buf []"
proof (induction xs arbitrary: buf ret)
  case Nil
  show ?case by (cases buf) (simp_all add: Let_def)
next
  case (Cons x xs)
  consider (two) a b where "buf = [a, b]"
    | (other) "\<And>r. base64_encode_loop (x # xs) buf r = base64_encode_loop xs (buf @ [x]) r"
    by (rule base64_encode_loop.cases [of "(x # xs, buf, ret)"]) auto
  then show ?case
  proof cases
    case two
    then show ?thesis
      using Cons.IH [of "[]" "ret @ map enc_char (enc_quad a b x)"]
        Cons.IH [of "[]" "map enc_char (enc_quad a b x)"] by simp
  next
    case other
    then show ?thesis using Cons.IH [of "buf @ [x]" ret] by (simp only:)
  qed
qed


lemma encode_loop_append:
  "base64_encode_loop (a # b # c # xs) [] []
     = map enc_char (enc_quad a b c) @ base64_encode_loop xs [] []"
  using encode_loop_ret [of xs "[]" "map enc_char (enc_quad a b c)"] by simp

lemma encode_tail:
  "base64_encode_loop [a] [] [] = take 2 (map enc_char (enc_quad a 0 0)) @ ''==''"
  "base64_encode_loop [a, b] [] [] = take 3 (map enc_char (enc_quad a b 0)) @ ''=''"
  by (simp_all add: numeral_2_eq_2 numeral_3_eq_3)

text \<open>Induction three bytes at a time, the rhythm of both loops.\<close>

lemma triple_induct [case_names Nil One Two Three]:
  assumes "P []" "\<And>a. P [a]" "\<And>a b. P [a, b]" "\<And>a b c xs. P xs \<Longrightarrow> P (a # b # c # xs)"
  shows "P xs"
proof (induction "length xs" arbitrary: xs rule: less_induct)
  case less
  show ?case
    by (cases xs rule: remdups_adj.cases)
       (metis assms less length_Cons lessI less_SucI list.exhaust)+
qed

lemma decode_encode_loop:
  "base64_decode_loop (base64_encode_loop xs [] []) [] ret = ret @ xs"
proof (induction xs arbitrary: ret rule: triple_induct)
  case Nil
  show ?case by (simp add: base64_decode_tail_def)
next
  case (One a)
  obtain p q r s where e: "enc_quad a 0 0 = [p, q, r, s]" by (simp add: enc_quad_def)
  have b: "unat p < 64" "unat q < 64" using enc_quad_bounds [of _ a 0 0] e by simp_all
  have "take 1 (dec_triple p q x y) = take 1 (dec_triple p q r s)" for x y
    by (simp add: dec_triple_def)
  then show ?case
    using dec_enc_group [OF e] b
    by (simp add: encode_tail e enc_char_valid dec_enc_char base64_decode_tail_def numeral_2_eq_2
        numeral_3_eq_3)
next
  case (Two a b)
  obtain p q r s where e: "enc_quad a b 0 = [p, q, r, s]" by (simp add: enc_quad_def)
  have b: "unat p < 64" "unat q < 64" "unat r < 64" using enc_quad_bounds [of _ a b 0] e by simp_all
  have "take 2 (dec_triple p q r x) = take 2 (dec_triple p q r s)" for x
    by (simp add: dec_triple_def)
  then show ?case
    using dec_enc_group [OF e] b
    by (simp add: encode_tail e enc_char_valid dec_enc_char base64_decode_tail_def numeral_2_eq_2
        numeral_3_eq_3)
next
  case (Three a b c xs)
  obtain p q r s where e: "enc_quad a b c = [p, q, r, s]" by (simp add: enc_quad_def)
  have b: "unat p < 64" "unat q < 64" "unat r < 64" "unat s < 64"
    using enc_quad_bounds [of _ a b c] e by simp_all
  have "base64_encode_loop (a # b # c # xs) [] []
      = enc_char p # enc_char q # enc_char r # enc_char s # base64_encode_loop xs [] []"
    by (simp only: encode_loop_append e list.map append.simps)
  moreover have "base64_decode_loop (enc_char p # enc_char q # enc_char r # enc_char s
        # base64_encode_loop xs [] []) [] ret
      = base64_decode_loop (base64_encode_loop xs [] []) [] (ret @ [a, b, c])"
    using decode_loop_group [of "enc_char p" "enc_char q" "enc_char r" "enc_char s"]
      b dec_enc_group [OF e] by (auto simp: enc_char_valid dec_enc_char)
  ultimately show ?case using Three.IH by simp
qed

lemma length_encode_loop: "length (base64_encode_loop xs [] []) = 4 * ((length xs + 2) div 3)"
proof (induction xs rule: triple_induct)
  case (Three a b c xs)
  have "(5 + length xs) div 3 = Suc ((length xs + 2) div 3)" by arith
  then show ?case
    by (simp only: encode_loop_append length_append length_map length_enc_quad Three.IH) simp
qed (simp_all add: encode_tail)

text \<open>Only valid characters before the first stop are ever looked at.\<close>

lemma decode_loop_stop:
  "base64_decode_loop cs buf ret
     = base64_decode_loop (takeWhile (\<lambda>c. c \<noteq> CHR ''='' \<and> is_base64 c) cs) buf ret"
  by (induction cs buf ret rule: base64_decode_loop.induct) (auto split: list.splits)

section \<open>Correctness\<close>

text \<open>C1: decoding what was encoded returns the bytes, for every byte string.\<close>

theorem base64_roundtrip: "base64_decode (base64_encode xs) = xs"
  using decode_encode_loop [of xs "[]"] by (simp add: base64_decode_def base64_encode_def)

lemma base64_encode_length: "length (base64_encode xs) = 4 * ((length xs + 2) div 3)"
  by (simp add: base64_encode_def length_encode_loop)

lemma base64_decode_stops:
  "base64_decode s = base64_decode (takeWhile (\<lambda>c. c \<noteq> CHR ''='' \<and> is_base64 c) s)"
  unfolding base64_decode_def by (rule decode_loop_stop)

lemma enc_char_not_nul: "unat w < 64 \<Longrightarrow> enc_char w \<noteq> CHR 0x00"
  using enc_char_valid(2) [of w] by (auto simp: is_base64_def)

lemma encode_loop_no_nul:
  "CHR 0x00 \<notin> set ret \<Longrightarrow> CHR 0x00 \<notin> set (base64_encode_loop xs buf ret)"
proof (induction xs buf ret rule: base64_encode_loop.induct)
  case (1 x xs a b ret)
  have "CHR 0x00 \<notin> enc_char ` set (enc_quad a b x)"
    using enc_quad_bounds enc_char_not_nul by (fastforce simp: image_iff)
  then show ?case using 1 by simp
qed (use enc_quad_bounds enc_char_not_nul in
    \<open>fastforce simp: Let_def image_iff dest!: in_set_takeD\<close>)+

lemma base64_encode_no_nul: "CHR 0x00 \<notin> set (base64_encode xs)"
  by (simp add: base64_encode_def encode_loop_no_nul)

end
