(* ===== verification/SimpleBuffer.thy ===== *)
theory SimpleBuffer
  imports Prelude
begin

text \<open>
  \<^verbatim>\<open>simple_buffer.h\<close> of the maintained transcribe modules (google, aws, azure, deepgram carry
  the same text): audio captured before the recognizer is connected is kept in a ring of
  equally sized chunks, the oldest dropped first. \<open>m_pNextWrite\<close> and \<open>m_pNextRead\<close> are kept as
  byte offsets into \<open>m_pData\<close>; a byte that was never written is \<open>None\<close>.
  The second half models the older text that the unmaintained modules still carry.
\<close>

section \<open>The ring of the maintained modules\<close>

record simple_buffer =
  pData :: "u8 option list"
  numItems :: u32
  chunkSize :: u32
  numChunks :: u32
  nextWrite :: nat
  nextRead :: nat

text \<open>The allocation size is computed in \<open>uint32_t\<close> and may wrap.\<close>

definition SimpleBuffer :: "u32 \<Rightarrow> u32 \<Rightarrow> simple_buffer" where
  "SimpleBuffer cs nc =
     \<lparr>pData = replicate (unat (cs * nc)) None, numItems = 0, chunkSize = cs, numChunks = nc,
      nextWrite = 0, nextRead = 0\<rparr>"

definition sb_advance :: "simple_buffer \<Rightarrow> nat \<Rightarrow> nat" where
  "sb_advance b p =
     (let offset = (of_nat (p div unat (chunkSize b)) :: u32)
      in if offset \<ge> numChunks b - 1 then 0 else p + unat (chunkSize b))"

definition sb_add_chunk :: "simple_buffer \<Rightarrow> u8 list \<Rightarrow> ub + simple_buffer" where
  "sb_add_chunk b chunk =
     (if nextWrite b + length chunk > length (pData b) then Inl HeapOverflow
      else
        let b1 = b\<lparr>pData := splice (nextWrite b) (map Some chunk) (pData b),
                   nextWrite := sb_advance b (nextWrite b)\<rparr>
        in Inr (if numItems b < numChunks b then b1\<lparr>numItems := numItems b + 1\<rparr>
                else b1\<lparr>nextRead := sb_advance b (nextRead b)\<rparr>))"

fun sb_add_loop :: "nat \<Rightarrow> simple_buffer \<Rightarrow> u8 list \<Rightarrow> ub + simple_buffer" where
  "sb_add_loop 0 b data = Inr b"
| "sb_add_loop (Suc n) b data =
     andthen (sb_add_chunk b (take (unat (chunkSize b)) data))
       (\<lambda>b'. sb_add_loop n b' (drop (unat (chunkSize b)) data))"

definition sb_add :: "simple_buffer \<Rightarrow> u8 list \<Rightarrow> ub + simple_buffer" where
  "sb_add b data =
     (let cs = unat (chunkSize b); datalen = length data
      in if cs = 0 then Inl DivByZero
         else if datalen mod cs \<noteq> 0 then Inr b
         else sb_add_loop (datalen div cs) b data)"

definition sb_chunk_at :: "simple_buffer \<Rightarrow> nat \<Rightarrow> u8 option list" where
  "sb_chunk_at b off = take (unat (chunkSize b)) (drop off (pData b))"

text \<open>The pointer that \<open>getNextChunk\<close> returns is represented by the chunk it points to.\<close>

definition sb_getNextChunk :: "simple_buffer \<Rightarrow> u8 option list option \<times> simple_buffer" where
  "sb_getNextChunk b =
     (if numItems b = 0 then (None, b)
      else (Some (sb_chunk_at b (nextRead b)),
            b\<lparr>numItems := numItems b - 1, nextRead := sb_advance b (nextRead b)\<rparr>))"

definition sb_getNumItems :: "simple_buffer \<Rightarrow> u32" where
  "sb_getNumItems b = numItems b"

section \<open>The contract: a bounded queue that drops its oldest element\<close>

definition bq_push :: "nat \<Rightarrow> 'c \<Rightarrow> 'c list \<Rightarrow> 'c list" where
  "bq_push n c q = (if length q < n then q @ [c] else tl q @ [c])"

definition lastn :: "nat \<Rightarrow> 'a list \<Rightarrow> 'a list" where
  "lastn n xs = drop (length xs - n) xs"

lemma bq_push_lastn: "0 < n \<Longrightarrow> bq_push n c (lastn n xs) = lastn n (xs @ [c])"
  by (auto simp: bq_push_def lastn_def Suc_diff_le drop_Suc tl_drop)

lemma lastn_idem: "length xs \<le> n \<Longrightarrow> lastn n xs = xs"
  by (simp add: lastn_def)

text \<open>\<open>n\<close> rounds of the drain loop \<open>while ((p = getNextChunk())) write(p)\<close>, and a sequence of
  additions, over any implementation of the operations.\<close>

fun pops :: "('s \<Rightarrow> 'c option \<times> 's) \<Rightarrow> nat \<Rightarrow> 's \<Rightarrow> 'c option list \<times> 's" where
  "pops pop 0 s = ([], s)"
| "pops pop (Suc n) s = (case pop s of (x, t) \<Rightarrow> (case pops pop n t of (xs, u) \<Rightarrow> (x # xs, u)))"

fun push_all :: "('s \<Rightarrow> 'd \<Rightarrow> ub + 's) \<Rightarrow> 's \<Rightarrow> 'd list \<Rightarrow> ub + 's" where
  "push_all push s [] = Inr s"
| "push_all push s (d # ds) = andthen (push s d) (\<lambda>t. push_all push t ds)"

lemma pops_snoc:
  "pops pop (Suc n) s = (case pops pop n s of (xs, u) \<Rightarrow> (case pop u of (y, v) \<Rightarrow> (xs @ [y], v)))"
proof (induction n arbitrary: s)
  case (Suc n)
  obtain x t where "pop s = (x, t)" by force
  moreover obtain xs u where "pops pop n t = (xs, u)" by force
  moreover obtain y v where "pop u = (y, v)" by force
  ultimately show ?case using Suc.IH [of t] by simp
qed (simp split: prod.splits)

text \<open>What a consumer of buffered chunks may rely on.\<close>

locale chunk_source =
  fixes pop :: "'s \<Rightarrow> 'c option \<times> 's"
    and contents :: "'s \<Rightarrow> 'c list"
    and invar :: "'s \<Rightarrow> bool"
  assumes pop_empty: "invar s \<Longrightarrow> contents s = [] \<Longrightarrow> pop s = (None, s)"
    and pop_fst: "invar s \<Longrightarrow> contents s \<noteq> [] \<Longrightarrow> fst (pop s) = Some (hd (contents s))"
    and pop_rest: "invar s \<Longrightarrow> contents s \<noteq> [] \<Longrightarrow> contents (snd (pop s)) = tl (contents s)"
    and pop_invar: "invar s \<Longrightarrow> invar (snd (pop s))"
begin

lemma pops_contents:
  "invar s \<Longrightarrow> n \<le> length (contents s) \<Longrightarrow>
   fst (pops pop n s) = map Some (take n (contents s)) \<and>
   contents (snd (pops pop n s)) = drop n (contents s) \<and> invar (snd (pops pop n s))"
proof (induction n arbitrary: s)
  case (Suc n)
  then have ne: "contents s \<noteq> []" by auto
  obtain x t where xt: "pop s = (x, t)" by force
  with Suc.prems ne have t: "contents t = tl (contents s)" "invar t" "x = Some (hd (contents s))"
    using pop_fst pop_rest pop_invar by force+
  with Suc.IH [of t] Suc.prems ne
  show ?case by (cases "contents s") (auto simp: xt split: prod.splits)
qed simp

lemma pops_all:
  assumes "invar s"
  shows "fst (pops pop (Suc (length (contents s))) s) = map Some (contents s) @ [None]"
proof -
  obtain xs u where "pops pop (length (contents s)) s = (xs, u)" by force
  with pops_contents [OF assms order.refl] pop_empty [of u]
  show ?thesis by (simp add: pops_snoc del: pops.simps)
qed

end

locale chunk_fifo = chunk_source pop contents invar
  for pop :: "'s \<Rightarrow> 'c option \<times> 's" and contents and invar +
  fixes push :: "'s \<Rightarrow> 'd \<Rightarrow> ub + 's"
    and enc :: "'d \<Rightarrow> 'c"
    and valid :: "'s \<Rightarrow> 'd \<Rightarrow> bool"
    and cap :: "'s \<Rightarrow> nat"
  assumes push_ok: "invar s \<Longrightarrow> valid s d \<Longrightarrow>
      \<exists>t. push s d = Inr t \<and> invar t \<and> cap t = cap s \<and> valid t = valid s \<and>
          contents t = bq_push (cap s) (enc d) (contents s)"
    and contents_cap: "invar s \<Longrightarrow> length (contents s) \<le> cap s"
    and cap_pos: "invar s \<Longrightarrow> 0 < cap s"
begin

lemma push_all_lastn:
  assumes "invar s" "contents s = lastn (cap s) xs" "\<forall>d\<in>set ds. valid s d"
  shows "\<exists>t. push_all push s ds = Inr t \<and> invar t \<and> cap t = cap s \<and>
    contents t = lastn (cap s) (xs @ map enc ds)"
  using assms
proof (induction ds arbitrary: s xs)
  case (Cons d ds)
  then obtain t where t: "push s d = Inr t" "invar t" "cap t = cap s" "valid t = valid s"
    "contents t = bq_push (cap s) (enc d) (contents s)"
    using push_ok [of s d] by auto
  have "contents t = lastn (cap t) (xs @ [enc d])"
    using t Cons.prems cap_pos by (simp add: bq_push_lastn)
  with Cons.IH [of t "xs @ [enc d]"] t Cons.prems show ?case by auto
qed simp

lemma push_all_contents:
  assumes "invar s" "\<forall>d\<in>set ds. valid s d"
  shows "\<exists>t. push_all push s ds = Inr t \<and> invar t \<and> cap t = cap s \<and>
    contents t = lastn (cap s) (contents s @ map enc ds)"
  using push_all_lastn [OF assms(1) _ assms(2), of "contents s"] contents_cap [OF assms(1)]
  by (simp add: lastn_idem)

end

section \<open>The ring refines the bounded queue\<close>

definition sb_inv :: "simple_buffer \<Rightarrow> bool" where
  "sb_inv b \<longleftrightarrow>
     (let C = unat (chunkSize b); N = unat (numChunks b) in
      0 < C \<and> 0 < N \<and> length (pData b) = C * N \<and>
      C dvd nextRead b \<and> C dvd nextWrite b \<and>
      nextRead b div C < N \<and> nextWrite b div C < N \<and> unat (numItems b) \<le> N \<and>
      nextWrite b div C = (nextRead b div C + unat (numItems b)) mod N)"

definition sb_abs :: "simple_buffer \<Rightarrow> u8 option list list" where
  "sb_abs b =
     (let C = unat (chunkSize b); N = unat (numChunks b) in
      map (\<lambda>i. sb_chunk_at b ((nextRead b div C + i) mod N * C)) [0..<unat (numItems b)])"

lemma length_sb_abs [simp]: "length (sb_abs b) = unat (numItems b)"
  by (simp add: sb_abs_def Let_def)

lemma u32_lt: "unat w < 4294967296" for w :: u32
  using unsigned_less [of w] by simp

lemma sb_advance_mult:
  assumes "0 < unat (chunkSize b)" "k < unat (numChunks b)"
  shows "sb_advance b (k * unat (chunkSize b)) = (k + 1) mod unat (numChunks b) * unat (chunkSize b)"
proof -
  let ?N = "unat (numChunks b)"
  have lt: "?N < 2 ^ 32" using unsigned_less [of "numChunks b"] by simp
  have k: "unat (of_nat k :: u32) = k"
    using assms(2) lt by (simp add: unat_of_nat take_bit_nat_eq_self)
  have "numChunks b \<noteq> 0" using assms(2) by auto
  then have N1: "unat (numChunks b - 1) = ?N - 1"
    using assms(2) by (simp add: unat_minus_one)
  have "(of_nat k :: u32) \<ge> numChunks b - 1 \<longleftrightarrow> ?N - 1 \<le> k"
    by (simp only: word_le_nat_alt k N1)
  then show ?thesis
    using assms by (auto simp: sb_advance_def Let_def mod_if algebra_simps)
qed

text \<open>The invariant in terms of chunk indices: read index \<open>r\<close>, item count \<open>n\<close>.\<close>

lemma sb_invE:
  assumes "sb_inv b"
  obtains r n where
    "nextRead b = r * unat (chunkSize b)" "r < unat (numChunks b)"
    "unat (numItems b) = n" "n \<le> unat (numChunks b)"
    "nextWrite b = (r + n) mod unat (numChunks b) * unat (chunkSize b)"
    "0 < unat (chunkSize b)" "0 < unat (numChunks b)"
    "length (pData b) = unat (chunkSize b) * unat (numChunks b)"
    "sb_abs b = map (\<lambda>i. sb_chunk_at b ((r + i) mod unat (numChunks b) * unat (chunkSize b))) [0..<n]"
proof -
  let ?C = "unat (chunkSize b)" and ?N = "unat (numChunks b)"
  define r where "r = nextRead b div ?C"
  from assms have wr: "nextWrite b div ?C = (r + unat (numItems b)) mod ?N"
    by (simp add: sb_inv_def Let_def r_def)
  from assms have rd: "nextRead b = r * ?C" and "nextWrite b = nextWrite b div ?C * ?C"
    by (auto simp: sb_inv_def Let_def r_def)
  then have "nextWrite b = (r + unat (numItems b)) mod ?N * ?C"
    by (simp only: wr)
  note rd this
  then show thesis
    using assms by (intro that [of r "unat (numItems b)"]) (auto simp: sb_inv_def Let_def r_def sb_abs_def)
qed

lemma sb_invI:
  assumes "nextRead b = r * unat (chunkSize b)" "r < unat (numChunks b)"
    "unat (numItems b) \<le> unat (numChunks b)"
    "nextWrite b = (r + unat (numItems b)) mod unat (numChunks b) * unat (chunkSize b)"
    "0 < unat (chunkSize b)" "length (pData b) = unat (chunkSize b) * unat (numChunks b)"
  shows "sb_inv b"
    "sb_abs b = map (\<lambda>i. sb_chunk_at b ((r + i) mod unat (numChunks b) * unat (chunkSize b)))
       [0..<unat (numItems b)]"
  using assms by (auto simp: sb_inv_def sb_abs_def Let_def)

lemma sb_chunk_at_write:
  assumes "0 < C" "i < N" "j < N" "length src = C" "length buf = C * N"
  shows "take C (drop (i * C) (splice (j * C) src buf))
    = (if i = j then src else take C (drop (i * C) buf))"
proof -
  have b: "j * C + C \<le> C * N"
    using assms by (metis Suc_leI add.commute mult.commute mult_Suc mult_le_mono2)
  show ?thesis
  proof (cases "i = j")
    case True
    then show ?thesis using b assms splice_block_same [of "j * C" src buf] by simp
  next
    case False
    then have "i * C + C \<le> j * C \<or> j * C + C \<le> i * C"
      by (metis Suc_leI add.commute linorder_neqE_nat mult_Suc mult_le_mono1)
    then show ?thesis using b assms False splice_block_other [of "j * C" src buf "i * C" C] by simp
  qed
qed

lemma ring_neq: "i < n \<Longrightarrow> n < N \<Longrightarrow> (r + i) mod N \<noteq> (r + n) mod N" for N :: nat
proof
  assume a: "i < n" "n < N" "(r + i) mod N = (r + n) mod N"
  then have "N dvd (r + n) - (r + i)" by (metis add_le_cancel_left less_imp_le_nat mod_eq_dvd_iff_nat)
  then show False using a by (auto dest: dvd_imp_le)
qed

lemma sb_add_chunk_ok:
  assumes inv: "sb_inv b" and len: "length chunk = unat (chunkSize b)"
  shows "\<exists>b'. sb_add_chunk b chunk = Inr b' \<and> sb_inv b' \<and> numChunks b' = numChunks b \<and>
    chunkSize b' = chunkSize b \<and>
    sb_abs b' = bq_push (unat (numChunks b)) (map Some chunk) (sb_abs b)"
proof -
  let ?C = "unat (chunkSize b)" and ?N = "unat (numChunks b)"
  obtain r n where r: "nextRead b = r * ?C" "r < ?N" and n: "unat (numItems b) = n" "n \<le> ?N"
    and w: "nextWrite b = (r + n) mod ?N * ?C" and pos: "0 < ?C" "0 < ?N"
    and l: "length (pData b) = ?C * ?N"
    and abs: "sb_abs b = map (\<lambda>i. sb_chunk_at b ((r + i) mod ?N * ?C)) [0..<n]"
    by (rule sb_invE [OF inv])
  let ?w = "(r + n) mod ?N"
  let ?b1 = "b\<lparr>pData := splice (nextWrite b) (map Some chunk) (pData b),
               nextWrite := sb_advance b (nextWrite b)\<rparr>"
  have wlt: "?w < ?N" using pos by simp
  have fits: "nextWrite b + length chunk \<le> length (pData b)"
    using wlt l w len by (metis Suc_leI add.commute mult.commute mult_Suc mult_le_mono2)
  have adv: "sb_advance b (nextWrite b) = (r + n + 1) mod ?N * ?C"
    using sb_advance_mult [of b ?w] wlt pos w by (simp add: mod_Suc_eq)
  have advr: "sb_advance b (nextRead b) = (r + 1) mod ?N * ?C"
    using sb_advance_mult [of b r] r pos by simp
  have chunk: "sb_chunk_at (?b1\<lparr>numItems := m, nextRead := q\<rparr>) (k mod ?N * ?C)
      = (if k mod ?N = ?w then map Some chunk else sb_chunk_at b (k mod ?N * ?C))" for m q k
    using sb_chunk_at_write [of ?C "k mod ?N" ?N ?w "map Some chunk" "pData b"] pos len l w
    by (simp add: sb_chunk_at_def)
  show ?thesis
  proof (cases "numItems b < numChunks b")
    case True
    let ?b' = "?b1\<lparr>numItems := numItems b + 1\<rparr>"
    from True have nlt: "n < ?N" using n by (simp add: word_less_nat_alt)
    have "unat (numItems b + 1) = n + 1"
      using nlt n u32_lt [of "numChunks b"] by (simp add: unat_word_ariths)
    note u = this
    have res: "sb_add_chunk b chunk = Inr ?b'"
      using True fits by (simp add: sb_add_chunk_def Let_def)
    have i: "sb_inv ?b'" "sb_abs ?b' = map (\<lambda>i. sb_chunk_at ?b' ((r + i) mod ?N * ?C)) [0..<n + 1]"
      using sb_invI [of ?b' r] r u nlt adv pos l fits by simp_all
    have "sb_abs ?b' = sb_abs b @ [map Some chunk]"
      unfolding i(2) abs using chunk [where m = "numItems b + 1" and q = "nextRead b"] ring_neq [OF _ nlt, of _ r]
      by simp
    then show ?thesis using res i(1) nlt n by (auto simp: bq_push_def)
  next
    case False
    let ?b' = "?b1\<lparr>nextRead := sb_advance b (nextRead b)\<rparr>"
    from False have nN: "n = ?N" using n by (simp add: word_less_nat_alt)
    have res: "sb_add_chunk b chunk = Inr ?b'"
      using False fits by (simp add: sb_add_chunk_def Let_def)
    have "(r + ?N + 1) mod ?N = ((r + 1) mod ?N + ?N) mod ?N"
      using mod_add_self2 [of "r + 1" ?N] by (simp add: ac_simps)
    then have i: "sb_inv ?b'"
      "sb_abs ?b' = map (\<lambda>i. sb_chunk_at ?b' (((r + 1) mod ?N + i) mod ?N * ?C)) [0..<?N]"
      using sb_invI [of ?b' "(r + 1) mod ?N"] n nN adv advr pos l fits by simp_all
    have w': "?w = r" using nN r by simp
    obtain M where M: "?N = Suc M" using pos by (cases ?N) auto
    have idx: "((r + 1) mod ?N + i) mod ?N = (r + Suc i) mod ?N" for i
      by (simp add: mod_simps)
    have neq: "(r + Suc i) mod ?N \<noteq> r" if "i < M" for i
      using ring_neq [of 0 "Suc i" ?N r] that M r by simp
    have "sb_abs ?b' = map (\<lambda>i. sb_chunk_at ?b' ((r + Suc i) mod ?N * ?C)) [0..<M]
        @ [sb_chunk_at ?b' ((r + ?N) mod ?N * ?C)]"
      unfolding i(2) idx by (simp add: M)
    also have "\<dots> = map (\<lambda>i. sb_chunk_at b ((r + Suc i) mod ?N * ?C)) [0..<M] @ [map Some chunk]"
      using chunk [where m = "numItems b" and q = "sb_advance b (nextRead b)"]
        chunk [where m = "numItems b" and q = "sb_advance b (nextRead b)" and k = r] neq w' r by simp
    also have "map (\<lambda>i. sb_chunk_at b ((r + Suc i) mod ?N * ?C)) [0..<M] = tl (sb_abs b)"
      unfolding abs nN M by (simp add: map_tl [symmetric] upt_conv_Cons map_Suc_upt [symmetric] del: upt_Suc)
    finally have "sb_abs ?b' = bq_push ?N (map Some chunk) (sb_abs b)"
      using n nN by (simp add: bq_push_def)
    then show ?thesis using res i(1) by auto
  qed
qed

lemma sb_getNextChunk_ok:
  assumes inv: "sb_inv b"
  shows "sb_abs b = [] \<Longrightarrow> sb_getNextChunk b = (None, b)"
    and "sb_abs b \<noteq> [] \<Longrightarrow> fst (sb_getNextChunk b) = Some (hd (sb_abs b))"
    and "sb_abs b \<noteq> [] \<Longrightarrow> sb_abs (snd (sb_getNextChunk b)) = tl (sb_abs b)"
    and "sb_inv (snd (sb_getNextChunk b))"
proof -
  let ?C = "unat (chunkSize b)" and ?N = "unat (numChunks b)"
  obtain r n where r: "nextRead b = r * ?C" "r < ?N" and n: "unat (numItems b) = n" "n \<le> ?N"
    and w: "nextWrite b = (r + n) mod ?N * ?C" and pos: "0 < ?C" "0 < ?N"
    and l: "length (pData b) = ?C * ?N"
    and abs: "sb_abs b = map (\<lambda>i. sb_chunk_at b ((r + i) mod ?N * ?C)) [0..<n]"
    by (rule sb_invE [OF inv])
  have empty: "sb_abs b = [] \<longleftrightarrow> numItems b = 0"
    using n by (auto simp: abs unat_eq_zero)
  then show "sb_abs b = [] \<Longrightarrow> sb_getNextChunk b = (None, b)"
    by (simp add: sb_getNextChunk_def)
  show "sb_abs b \<noteq> [] \<Longrightarrow> fst (sb_getNextChunk b) = Some (hd (sb_abs b))"
    using empty n r by (simp add: sb_getNextChunk_def abs hd_map)
  have step: "sb_inv (snd (sb_getNextChunk b)) \<and> sb_abs (snd (sb_getNextChunk b)) = tl (sb_abs b)"
    if ne: "numItems b \<noteq> 0"
  proof -
    let ?b' = "b\<lparr>numItems := numItems b - 1, nextRead := sb_advance b (nextRead b)\<rparr>"
    obtain m where m: "n = Suc m" using n ne by (cases n) (auto simp: unat_eq_zero)
    have u: "unat (numItems b - 1) = m"
      using ne n m by (simp add: unat_minus_one)
    have adv: "sb_advance b (nextRead b) = (r + 1) mod ?N * ?C"
      using sb_advance_mult [of b r] r pos by simp
    have "(r + n) mod ?N = ((r + 1) mod ?N + m) mod ?N"
      using m by (simp add: mod_simps)
    then have i: "sb_inv ?b'"
      "sb_abs ?b' = map (\<lambda>i. sb_chunk_at ?b' (((r + 1) mod ?N + i) mod ?N * ?C)) [0..<m]"
      using sb_invI [of ?b' "(r + 1) mod ?N"] u n m w adv pos l by simp_all
    have "sb_abs ?b' = map (\<lambda>i. sb_chunk_at b ((r + Suc i) mod ?N * ?C)) [0..<m]"
      unfolding i(2) by (simp add: sb_chunk_at_def mod_simps)
    also have "\<dots> = tl (sb_abs b)"
      unfolding abs m by (simp add: map_tl [symmetric] upt_conv_Cons map_Suc_upt [symmetric] del: upt_Suc)
    finally show ?thesis using i(1) ne by (simp add: sb_getNextChunk_def)
  qed
  then show "sb_abs b \<noteq> [] \<Longrightarrow> sb_abs (snd (sb_getNextChunk b)) = tl (sb_abs b)"
    using empty by blast
  show "sb_inv (snd (sb_getNextChunk b))"
    using step inv by (cases "numItems b = 0") (simp_all add: sb_getNextChunk_def)
qed

text \<open>A fresh buffer satisfies the invariant when its size does not wrap.\<close>

lemma sb_init_inv:
  assumes "0 < cs" "0 < nc" "unat cs * unat nc < 2 ^ 32"
  shows "sb_inv (SimpleBuffer cs nc)" "sb_abs (SimpleBuffer cs nc) = []"
proof -
  have "unat (cs * nc) = unat cs * unat nc"
    using assms(3) by (simp add: unat_word_ariths)
  then show "sb_inv (SimpleBuffer cs nc)"
    using assms by (simp add: sb_inv_def SimpleBuffer_def word_less_nat_alt)
  show "sb_abs (SimpleBuffer cs nc) = []"
    by (simp add: sb_abs_def SimpleBuffer_def)
qed

section \<open>The ring provides the contract\<close>

interpretation sbq: chunk_fifo sb_getNextChunk sb_abs sb_inv sb_add_chunk "map Some"
  "\<lambda>b d. length d = unat (chunkSize b)" "\<lambda>b. unat (numChunks b)"
proof unfold_locales
  fix s and d :: "u8 list"
  assume "sb_inv s" "length d = unat (chunkSize s)"
  from sb_add_chunk_ok [OF this]
  show "\<exists>t. sb_add_chunk s d = Inr t \<and> sb_inv t \<and> unat (numChunks t) = unat (numChunks s) \<and>
      (\<lambda>d. length d = unat (chunkSize t)) = (\<lambda>d. length d = unat (chunkSize s)) \<and>
      sb_abs t = bq_push (unat (numChunks s)) (map Some d) (sb_abs s)"
    by auto
next
  fix s assume "sb_inv s"
  then show "length (sb_abs s) \<le> unat (numChunks s)" "0 < unat (numChunks s)"
    by (simp_all add: sb_inv_def Let_def)
qed (simp_all add: sb_getNextChunk_ok)

lemma sb_add_chunk_sizes:
  "sb_add_chunk b d = Inr b' \<Longrightarrow> chunkSize b' = chunkSize b \<and> numChunks b' = numChunks b"
  by (auto simp: sb_add_chunk_def Let_def split: if_splits)

definition chunks_of :: "nat \<Rightarrow> nat \<Rightarrow> 'a list \<Rightarrow> 'a list list" where
  "chunks_of c n xs = map (\<lambda>i. take c (drop (i * c) xs)) [0..<n]"

lemma chunks_of_Suc: "chunks_of c (Suc n) xs = take c xs # chunks_of c n (drop c xs)"
  by (simp add: chunks_of_def upt_conv_Cons map_Suc_upt [symmetric] comp_def add.commute
      del: upt_Suc)

lemma chunks_of_length: "length xs = n * c \<Longrightarrow> d \<in> set (chunks_of c n xs) \<Longrightarrow> length d = c"
proof (induction n arbitrary: xs)
  case (Suc n)
  then show ?case using Suc.IH [of "drop c xs"] by (auto simp: chunks_of_Suc)
qed (simp add: chunks_of_def)

lemma sb_add_loop_push_all:
  "sb_add_loop n b data = push_all sb_add_chunk b (chunks_of (unat (chunkSize b)) n data)"
proof (induction n arbitrary: b data)
  case (Suc n)
  show ?case
    by (cases "sb_add_chunk b (take (unat (chunkSize b)) data)")
       (simp_all add: chunks_of_Suc Suc.IH sb_add_chunk_sizes)
qed (simp add: chunks_of_def)

section \<open>The older ring of the unmaintained modules\<close>

text \<open>
  \<^verbatim>\<open>simple_buffer.h\<close> as mod_nuance_transcribe (and cobalt, nvidia, soniox, ibm, jambonz,
  assemblyai) still carries it: there is no read cursor, retrieval continues from the write
  cursor, and \<open>if (numItems--)\<close> decrements the \<open>uint32_t\<close> count also when it is zero.
\<close>

record legacy_buffer =
  lg_data :: "u8 option list"
  lg_numItems :: u32
  lg_chunkSize :: u32
  lg_numChunks :: u32
  lg_nextWrite :: nat

definition LegacyBuffer :: "u32 \<Rightarrow> u32 \<Rightarrow> legacy_buffer" where
  "LegacyBuffer cs nc =
     \<lparr>lg_data = replicate (unat (cs * nc)) None, lg_numItems = 0, lg_chunkSize = cs,
      lg_numChunks = nc, lg_nextWrite = 0\<rparr>"

definition lg_advance :: "legacy_buffer \<Rightarrow> nat" where
  "lg_advance b =
     (let offset = (of_nat (lg_nextWrite b div unat (lg_chunkSize b)) :: u32)
      in if offset \<ge> lg_numChunks b - 1 then 0 else lg_nextWrite b + unat (lg_chunkSize b))"

definition lg_add_chunk :: "legacy_buffer \<Rightarrow> u8 list \<Rightarrow> ub + legacy_buffer" where
  "lg_add_chunk b chunk =
     (if lg_nextWrite b + length chunk > length (lg_data b) then Inl HeapOverflow
      else Inr (b\<lparr>lg_data := splice (lg_nextWrite b) (map Some chunk) (lg_data b),
             lg_numItems := (if lg_numItems b < lg_numChunks b then lg_numItems b + 1
                             else lg_numItems b),
             lg_nextWrite := lg_advance b\<rparr>))"

fun lg_add_loop :: "nat \<Rightarrow> legacy_buffer \<Rightarrow> u8 list \<Rightarrow> ub + legacy_buffer" where
  "lg_add_loop 0 b data = Inr b"
| "lg_add_loop (Suc n) b data =
     andthen (lg_add_chunk b (take (unat (lg_chunkSize b)) data))
       (\<lambda>b'. lg_add_loop n b' (drop (unat (lg_chunkSize b)) data))"

definition lg_add :: "legacy_buffer \<Rightarrow> u8 list \<Rightarrow> ub + legacy_buffer" where
  "lg_add b data =
     (let cs = unat (lg_chunkSize b); datalen = length data
      in if cs = 0 then Inl DivByZero
         else if datalen mod cs \<noteq> 0 then Inr b
         else lg_add_loop (datalen div cs) b data)"

definition lg_getNextChunk :: "legacy_buffer \<Rightarrow> u8 option list option \<times> legacy_buffer" where
  "lg_getNextChunk b =
     (let b1 = b\<lparr>lg_numItems := lg_numItems b - 1\<rparr>
      in if lg_numItems b \<noteq> 0
         then (Some (take (unat (lg_chunkSize b)) (drop (lg_nextWrite b) (lg_data b))),
               b1\<lparr>lg_nextWrite := lg_advance b\<rparr>)
         else (None, b1))"

section \<open>Properties\<close>

lemma sb_add_ok:
  assumes "sb_inv b" "length data = n * unat (chunkSize b)"
  shows "\<exists>b'. sb_add b data = Inr b' \<and> sb_inv b' \<and> chunkSize b' = chunkSize b \<and> numChunks b' = numChunks b \<and>
    sb_abs b' = lastn (unat (numChunks b))
      (sb_abs b @ map (map Some) (chunks_of (unat (chunkSize b)) n data))"
proof -
  have C: "0 < unat (chunkSize b)" using assms(1) by (simp add: sb_inv_def Let_def)
  then have e: "sb_add b data = push_all sb_add_chunk b (chunks_of (unat (chunkSize b)) n data)"
    using assms(2) by (simp add: sb_add_def Let_def sb_add_loop_push_all)
  have "\<forall>d\<in>set (chunks_of (unat (chunkSize b)) n data). length d = unat (chunkSize b)"
    using chunks_of_length [OF assms(2)] by blast
  from sbq.push_all_contents [OF assms(1) this] obtain b' where b':
    "push_all sb_add_chunk b (chunks_of (unat (chunkSize b)) n data) = Inr b'" "sb_inv b'"
    "sb_abs b' = lastn (unat (numChunks b)) (sb_abs b @ map (map Some) (chunks_of (unat (chunkSize b)) n data))"
    by auto
  have "push_all sb_add_chunk b ds = Inr b' \<Longrightarrow> chunkSize b' = chunkSize b \<and> numChunks b' = numChunks b" for ds b b'
    by (induction ds arbitrary: b) (auto simp: andthen_Inr_iff dest: sb_add_chunk_sizes)
  with e b' show ?thesis by auto
qed

text \<open>C2: adding a well-sized block to a ring that satisfies its invariant never writes out of
  bounds, keeps the invariant, and appends the block's chunks to the queue, dropping the oldest
  ones beyond the capacity.\<close>

theorem sb_add_refines:
  assumes "sb_inv b" "length data = n * unat (chunkSize b)"
  shows "\<exists>b'. sb_add b data = Inr b' \<and> sb_inv b' \<and>
    sb_abs b' = lastn (unat (numChunks b))
      (sb_abs b @ map (map Some) (chunks_of (unat (chunkSize b)) n data))"
  using sb_add_ok [OF assms] by blast

theorem sb_add_refines_witness:
  "\<exists>b'. sb_add (SimpleBuffer 2 2) [1, 2, 3, 4, 5, 6] = Inr b' \<and> sb_inv b' \<and>
     sb_abs b' = [[Some 3, Some 4], [Some 5, Some 6]]"
proof -
  have "sb_inv (SimpleBuffer 2 2)" "sb_abs (SimpleBuffer 2 2) = []"
    by (simp_all add: sb_init_inv)
  with sb_add_refines [of "SimpleBuffer 2 2" "[1, 2, 3, 4, 5, 6]" 3]
  show ?thesis
    by (simp add: SimpleBuffer_def chunks_of_def lastn_def upt_rec)
qed

text \<open>Chunks added to a fresh ring come back exactly once, oldest first, the last
  \<open>numChunks\<close> of them, followed by the null pointer.\<close>

lemma sb_fifo:
  assumes "0 < cs" "0 < nc" "unat cs * unat nc < 2 ^ 32" "\<forall>d\<in>set ds. length d = unat cs"
  shows "\<exists>b. push_all sb_add_chunk (SimpleBuffer cs nc) ds = Inr b \<and>
    fst (pops sb_getNextChunk (Suc (min (length ds) (unat nc))) b)
      = map Some (map (map Some) (lastn (unat nc) ds)) @ [None]"
proof -
  note init = sb_init_inv [OF assms(1-3)]
  have sizes: "chunkSize (SimpleBuffer cs nc) = cs" "numChunks (SimpleBuffer cs nc) = nc"
    by (simp_all add: SimpleBuffer_def)
  from assms(4) have "\<forall>d\<in>set ds. length d = unat (chunkSize (SimpleBuffer cs nc))"
    by (simp add: sizes)
  from sbq.push_all_contents [OF init(1) this] obtain b where
    b: "push_all sb_add_chunk (SimpleBuffer cs nc) ds = Inr b" "sb_inv b"
      "sb_abs b = map (map Some) (lastn (unat nc) ds)"
    by (auto simp: init(2) sizes lastn_def drop_map)
  moreover have "length (sb_abs b) = min (length ds) (unat nc)"
    by (simp add: b(3) lastn_def min_def)
  ultimately show ?thesis using sbq.pops_all [OF b(2)] by auto
qed

text \<open>In the older ring, reading back before the ring has filled up returns memory that was
  never written, and a read of an empty ring makes the item count wrap to its maximum, so that
  the next read hands out a chunk that was never added.\<close>

lemma legacy_buffer_misreads:
  assumes "0 < cs" "2 \<le> nc" "unat cs * unat nc < 2 ^ 32" "length d = unat cs"
  shows "(\<exists>b. lg_add (LegacyBuffer cs nc) d = Inr b \<and>
      fst (lg_getNextChunk b) = Some (replicate (unat cs) None)) \<and>
    (\<forall>b. lg_numItems b = 0 \<longrightarrow> fst (lg_getNextChunk b) = None \<and>
      lg_numItems (snd (lg_getNextChunk b)) = - 1 \<and>
      fst (lg_getNextChunk (snd (lg_getNextChunk b))) \<noteq> None)"
proof -
  let ?b0 = "LegacyBuffer cs nc" and ?C = "unat cs"
  have C: "0 < ?C" using assms(1) by (simp add: word_less_nat_alt)
  have N: "2 \<le> unat nc" using assms(2) by (simp add: word_le_nat_alt)
  have prod: "unat (cs * nc) = ?C * unat nc" using assms(3) by (simp add: unat_word_ariths)
  have fits: "?C + ?C \<le> ?C * unat nc"
    using mult_le_mono2 [OF N, of ?C] by (simp del: mult_le_cancel1 add: mult_2_right)
  have "nc \<noteq> 0" using N by auto
  then have "unat (nc - 1) = unat nc - 1" by (simp add: unat_minus_one)
  then have adv: "\<not> nc - 1 \<le> 0" using N by (simp add: word_le_nat_alt)
  let ?b1 = "?b0\<lparr>lg_data := splice 0 (map Some d) (lg_data ?b0), lg_numItems := 1, lg_nextWrite := ?C\<rparr>"
  have "lg_add ?b0 d = Inr ?b1"
    using C N assms(4) fits prod adv \<open>nc \<noteq> 0\<close>
    by (simp add: lg_add_def lg_add_chunk_def lg_advance_def LegacyBuffer_def Let_def word_gt_0)
  moreover have "fst (lg_getNextChunk ?b1) = Some (replicate ?C None)"
    using fits prod assms(4)
    by (simp add: lg_getNextChunk_def LegacyBuffer_def splice_def Let_def min_def)
  ultimately show ?thesis by (auto simp: lg_getNextChunk_def Let_def)
qed

end
