(* ===== verification/WsUri.thy ===== *)
theory WsUri
  imports Prelude
begin

text \<open>
  \<open>parse_ws_uri\<close> of \<^verbatim>\<open>modules/mod_audio_fork/lws_glue.cpp\<close>: scheme, the regular
  expression \<^verbatim>\<open>^(.+?):?(\d+)?(/.*)?$\<close> of the C++ library (ECMAScript grammar, so
  \<open>.\<close> does not match CR or LF, and the pattern is anchored at both ends), port and path.
  The match is the first one in backtracking order: the lazy group 1 is tried from one
  character up, the greedy optional parts longest first.
\<close>

section \<open>Definitions\<close>

definition MAX_WS_URL_LEN :: nat where "MAX_WS_URL_LEN = 512"
definition MAX_PATH_LEN :: nat where "MAX_PATH_LEN = 4096"

datatype ssl_flag = LCCSCF_USE_SSL | LCCSCF_ALLOW_SELFSIGNED
  | LCCSCF_SKIP_SERVER_CERT_HOSTNAME_CHECK | LCCSCF_ALLOW_EXPIRED

text \<open>The four out-parameters; \<open>sslFlags = {}\<close> is the value 0.\<close>

record uri_out =
  u_host :: string
  u_path :: string
  u_port :: int
  u_sslFlags :: "ssl_flag set"

definition re_dot :: "char \<Rightarrow> bool" where
  "re_dot c \<longleftrightarrow> c \<noteq> CHR 0x0A \<and> c \<noteq> CHR 0x0D"

text \<open>\<^verbatim>\<open>(/.*)?$\<close>: group 3, empty when it did not take part.\<close>

definition re_path_end :: "string \<Rightarrow> string option" where
  "re_path_end s =
     (case s of [] \<Rightarrow> Some []
      | c # cs \<Rightarrow> if c = CHR ''/'' \<and> list_all re_dot cs then Some s else None)"

text \<open>\<^verbatim>\<open>(\d+)?(/.*)?$\<close>: the digit counts in the order they are tried.\<close>

definition re_digits :: "string \<Rightarrow> (string \<times> string) option" where
  "re_digits s =
     first_some (\<lambda>k. map_option (Pair (take k s)) (re_path_end (drop k s)))
       (rev [0..<Suc (length (takeWhile is_digit s))])"

text \<open>\<^verbatim>\<open>:?(\d+)?(/.*)?$\<close>\<close>

definition re_tail :: "string \<Rightarrow> (string \<times> string) option" where
  "re_tail s =
     first_some re_digits ((if s \<noteq> [] \<and> hd s = CHR '':'' then [tl s] else []) @ [s])"

definition re_ws_uri :: "string \<Rightarrow> (string \<times> string \<times> string) option" where
  "re_ws_uri s =
     first_some (\<lambda>n. if list_all re_dot (take n s)
                     then map_option (Pair (take n s)) (re_tail (drop n s)) else None)
       [1..<Suc (length s)]"

definition ws_scheme :: "string \<Rightarrow> (nat \<times> int \<times> bool) option" where
  "ws_scheme server =
     (if starts_with ''https://'' server \<or> starts_with ''HTTPS://'' server then Some (8, 443, True)
      else if starts_with ''wss://'' server \<or> starts_with ''WSS://'' server then Some (6, 443, True)
      else if starts_with ''http://'' server \<or> starts_with ''HTTP://'' server then Some (7, 80, False)
      else if starts_with ''ws://'' server \<or> starts_with ''WS://'' server then Some (5, 80, False)
      else None)"

text \<open>The channel is seen through its variables; \<open>switch_true\<close> belongs to FreeSWITCH. The
  result is the C return value and the out-parameters, which a failing call may have
  written in part.\<close>

definition ws_flags :: "(string option \<Rightarrow> bool) \<Rightarrow> (string \<Rightarrow> string option) \<Rightarrow> ssl_flag set" where
  "ws_flags switch_true vars =
     {LCCSCF_USE_SSL}
     \<union> (if switch_true (vars ''MOD_AUDIO_FORK_ALLOW_SELFSIGNED'')
        then {LCCSCF_ALLOW_SELFSIGNED} else {})
     \<union> (if switch_true (vars ''MOD_AUDIO_FORK_SKIP_SERVER_CERT_HOSTNAME_CHECK'')
        then {LCCSCF_SKIP_SERVER_CERT_HOSTNAME_CHECK} else {})
     \<union> (if switch_true (vars ''MOD_AUDIO_FORK_ALLOW_EXPIRED'')
        then {LCCSCF_ALLOW_EXPIRED} else {})"

definition parse_ws_uri ::
  "(string option \<Rightarrow> bool) \<Rightarrow> (string \<Rightarrow> string option) \<Rightarrow> string \<Rightarrow> uri_out \<Rightarrow> bool \<times> uri_out" where
  "parse_ws_uri switch_true vars szServerUri out =
     (let flags = ws_flags switch_true vars
      in if length szServerUri \<ge> MAX_WS_URL_LEN + MAX_PATH_LEN then (False, out)
         else case ws_scheme szServerUri of
           None \<Rightarrow> (False, out)
         | Some (offset, port, ssl) \<Rightarrow>
             let out1 = out\<lparr>u_port := port, u_sslFlags := (if ssl then flags else {})\<rparr>
             in case re_ws_uri (drop offset szServerUri) of
                  None \<Rightarrow> (False, out1)
                | Some (m1, m2, m3) \<Rightarrow>
                    (True, out1\<lparr>u_host := strncpy_field MAX_WS_URL_LEN m1,
                       u_port := (if length m2 > 0 then atoi m2 else port),
                       u_path := (if length m3 > 0 then strncpy_field MAX_PATH_LEN m3
                                  else ''/'')\<rparr>))"

section \<open>The matcher\<close>

lemma digits_no_slash: "is_digit c \<Longrightarrow> c \<noteq> CHR ''/'' \<and> c \<noteq> CHR '':'' \<and> re_dot c"
  by (auto simp: is_digit_def re_dot_def)

lemma re_path_end_digit: "s \<noteq> [] \<Longrightarrow> is_digit (hd s) \<Longrightarrow> re_path_end s = None"
  using digits_no_slash [of "hd s"] by (cases s) (auto simp: re_path_end_def)

text \<open>Giving back digits never helps: what follows must be a slash or the end.\<close>

lemma re_digits_eq:
  "re_digits s = map_option (Pair (takeWhile is_digit s)) (re_path_end (dropWhile is_digit s))"
proof -
  let ?n = "length (takeWhile is_digit s)"
  have "re_path_end (drop k s) = None" if "k < ?n" for k
  proof (rule re_path_end_digit)
    have "takeWhile is_digit s ! k = s ! k" using that by (simp add: takeWhile_nth)
    then show "is_digit (hd (drop k s))"
      using that nth_mem [OF that] set_takeWhileD length_takeWhile_le [of is_digit s]
      by (metis hd_drop_conv_nth order_less_le_trans)
    show "drop k s \<noteq> []"
      using that length_takeWhile_le [of is_digit s] by simp
  qed
  then show ?thesis
    by (auto simp: re_digits_def first_some_append takeWhile_eq_take [symmetric]
        dropWhile_eq_drop [symmetric] first_some_None split: option.splits)
qed

definition port_path :: "string \<Rightarrow> bool" where
  "port_path s \<longleftrightarrow> s = [] \<or> (hd s = CHR ''/'' \<and> list_all re_dot (tl s))"

lemma re_path_end_eq: "re_path_end s = (if port_path s then Some s else None)"
  by (cases s) (auto simp: re_path_end_def port_path_def)

lemma re_tail_colon:
  "list_all is_digit ds \<Longrightarrow> port_path p \<Longrightarrow> re_tail (CHR '':'' # ds @ p) = Some (ds, p)"
  using digits_no_slash [of "CHR ''/''"]
  by (cases p)
     (auto simp: re_tail_def re_digits_eq re_path_end_eq takeWhile_append dropWhile_append
       list_all_iff port_path_def)

lemma re_tail_plain:
  assumes "list_all is_digit ds" "port_path p"
  shows "re_tail (ds @ p) = Some (ds, p)"
proof -
  have np: "p \<noteq> [] \<Longrightarrow> \<not> is_digit (hd p) \<and> hd p \<noteq> CHR '':''"
    using assms(2) digits_no_slash [of "CHR ''/''"] by (auto simp: port_path_def)
  have "takeWhile is_digit (ds @ p) = ds" "dropWhile is_digit (ds @ p) = p"
    using assms(1) np by (cases p; auto simp: list_all_iff)+
  then have d: "re_digits (ds @ p) = Some (ds, p)"
    using assms(2) by (simp add: re_digits_eq re_path_end_eq)
  have "\<not> (ds @ p \<noteq> [] \<and> hd (ds @ p) = CHR '':'')"
    using np assms(1) digits_no_slash by (cases ds) auto
  with d show ?thesis unfolding re_tail_def by (subst if_not_P) simp_all
qed

text \<open>No match can end inside a host: after its remaining characters comes neither a slash nor
  the end.\<close>

lemma re_tail_inside:
  assumes "h \<noteq> []" "CHR ''/'' \<notin> set h" "CHR '':'' \<notin> set h"
    and "rest \<noteq> [] \<and> hd rest = CHR '':'' \<or> \<not> list_all is_digit h"
  shows "re_tail (h @ rest) = None"
proof -
  let ?r = "dropWhile is_digit (h @ rest)"
  have "?r \<noteq> [] \<and> hd ?r \<noteq> CHR ''/''"
  proof (cases "list_all is_digit h")
    case True
    with assms(4) have "rest \<noteq> []" "hd rest = CHR '':''" by auto
    then show ?thesis
      using True by (cases rest) (auto simp: dropWhile_append list_all_iff is_digit_def)
  next
    case False
    then have ne: "dropWhile is_digit h \<noteq> []" by (auto simp: list_all_iff)
    then have "?r = dropWhile is_digit h @ rest"
      by (auto simp: dropWhile_append list_all_iff)
    moreover have "hd (dropWhile is_digit h) \<in> set h"
      using ne set_dropWhileD hd_in_set by fast
    ultimately show ?thesis using ne assms(2) by (auto simp: hd_append)
  qed
  then have d: "re_digits (h @ rest) = None"
    by (auto simp: re_digits_eq re_path_end_eq port_path_def)
  have "\<not> (h @ rest \<noteq> [] \<and> hd (h @ rest) = CHR '':'')"
    using assms(1,3) by (cases h) auto
  with d show ?thesis unfolding re_tail_def by (subst if_not_P) simp_all
qed

text \<open>The lazy group stops at the first length whose remainder matches.\<close>

lemma re_ws_uri_host:
  assumes h: "h \<noteq> []" "list_all re_dot h"
    and early: "\<And>n. 0 < n \<Longrightarrow> n < length h \<Longrightarrow> re_tail (drop n h @ rest) = None"
    and hit: "re_tail rest = Some m"
  shows "re_ws_uri (h @ rest) = Some (h, m)"
proof -
  have split: "[1..<Suc (length (h @ rest))]
      = [1..<length h] @ length h # [Suc (length h)..<Suc (length (h @ rest))]"
    using h(1) upt_add_eq_append [of 1 "length h" "Suc (length rest)"]
    by (simp add: Suc_le_eq upt_conv_Cons del: upt_Suc)
  have "first_some (\<lambda>n. if list_all re_dot (take n (h @ rest))
      then map_option (Pair (take n (h @ rest))) (re_tail (drop n (h @ rest))) else None)
      [1..<length h] = None"
    using early by (auto simp: first_some_None)
  then show ?thesis
    unfolding re_ws_uri_def split first_some_append using h(2) hit by simp
qed

lemma re_ws_uri_port:
  assumes "h \<noteq> []" "list_all re_dot h" "CHR ''/'' \<notin> set h" "CHR '':'' \<notin> set h"
    and "list_all is_digit ds" "port_path p"
  shows "re_ws_uri (h @ CHR '':'' # ds @ p) = Some (h, ds, p)"
proof (rule re_ws_uri_host [OF assms(1,2)])
  fix n assume "0 < n" "n < length h"
  then show "re_tail (drop n h @ CHR '':'' # ds @ p) = None"
    using assms(3,4) by (intro re_tail_inside) (auto dest: in_set_dropD)
qed (rule re_tail_colon [OF assms(5,6)])

lemma re_ws_uri_plain:
  assumes h: "h \<noteq> []" "list_all re_dot h" "CHR ''/'' \<notin> set h" "CHR '':'' \<notin> set h"
    "\<not> is_digit (last h)" and t: "list_all is_digit ds" "port_path p"
  shows "re_ws_uri (h @ ds @ p) = Some (h, ds, p)"
proof (rule re_ws_uri_host [OF h(1,2)])
  fix n assume n: "0 < n" "n < length h"
  then have "last h \<in> set (drop n h)" by (metis drop_eq_Nil last_drop last_in_set leD)
  then show "re_tail (drop n h @ ds @ p) = None"
    using n h by (intro re_tail_inside) (auto simp: list_all_iff dest: in_set_dropD)
qed (rule re_tail_plain [OF t])

text \<open>Which strings match at all.\<close>

lemma port_path_dots: "port_path p \<Longrightarrow> list_all re_dot p"
  by (cases p) (auto simp: port_path_def re_dot_def)

lemma re_tail_dots: "re_tail s = Some m \<Longrightarrow> list_all re_dot s"
proof -
  have d: "re_digits s = Some m \<Longrightarrow> list_all re_dot s" for s
  proof -
    assume "re_digits s = Some m"
    then have "port_path (dropWhile is_digit s)"
      by (auto simp: re_digits_eq re_path_end_eq split: if_splits)
    then have "list_all re_dot (dropWhile is_digit s)" by (rule port_path_dots)
    moreover have "list_all re_dot (takeWhile is_digit s)"
      using digits_no_slash by (auto simp: list_all_iff dest: set_takeWhileD)
    ultimately show "list_all re_dot s"
      by (metis list_all_append takeWhile_dropWhile_id)
  qed
  assume "re_tail s = Some m"
  then show "list_all re_dot s"
    using d [of s] d [of "tl s"]
    by (cases s) (auto simp: re_tail_def re_dot_def split: if_splits option.splits)
qed

lemma re_ws_uri_None: "re_ws_uri s = None \<longleftrightarrow> s = [] \<or> \<not> list_all re_dot s"
proof
  show "re_ws_uri s = None \<Longrightarrow> s = [] \<or> \<not> list_all re_dot s"
  proof (rule ccontr)
    assume "re_ws_uri s = None" "\<not> (s = [] \<or> \<not> list_all re_dot s)"
    moreover have "re_tail [] = Some ([], [])"
      using re_tail_plain [of "[]" "[]"] by (simp add: port_path_def)
    ultimately show False
      by (auto simp: re_ws_uri_def first_some_None Ball_def Suc_le_eq dest: spec [of _ "length s"])
  qed
next
  have dots: "list_all re_dot s" if "list_all re_dot (take n s)" "re_tail (drop n s) = Some m" for n m
    using that re_tail_dots by (metis append_take_drop_id list_all_append)
  assume s: "s = [] \<or> \<not> list_all re_dot s"
  show "re_ws_uri s = None"
  proof (cases "s = []")
    case False
    with s have nd: "\<not> list_all re_dot s" by simp
    show ?thesis unfolding re_ws_uri_def first_some_None
    proof
      fix n
      show "(if list_all re_dot (take n s)
          then map_option (Pair (take n s)) (re_tail (drop n s)) else None) = None"
        using dots [of n] nd by (cases "re_tail (drop n s)") auto
    qed
  qed (simp add: re_ws_uri_def)
qed

lemma re_ws_uri_path: "re_ws_uri s = Some (m1, m2, m3) \<Longrightarrow> m3 \<noteq> [] \<Longrightarrow> hd m3 = CHR ''/''"
proof -
  have d: "re_digits s = Some (m2, m3) \<Longrightarrow> m3 \<noteq> [] \<Longrightarrow> hd m3 = CHR ''/''" for s
    by (auto simp: re_digits_eq re_path_end_eq port_path_def split: if_splits)
  have t: "re_tail s = Some (m2, m3) \<Longrightarrow> m3 \<noteq> [] \<Longrightarrow> hd m3 = CHR ''/''" for s
    using d [of s] d [of "tl s"] by (auto simp: re_tail_def split: if_splits option.splits)
  assume "re_ws_uri s = Some (m1, m2, m3)" "m3 \<noteq> []"
  then obtain n where "re_tail (drop n s) = Some (m2, m3)"
    unfolding re_ws_uri_def by (force dest!: first_some_Some split: if_splits)
  then show ?thesis using t \<open>m3 \<noteq> []\<close> by blast
qed

section \<open>Properties\<close>

definition ws_schemes :: "(string \<times> int \<times> bool) list" where
  "ws_schemes =
     [(''https://'', 443, True), (''HTTPS://'', 443, True), (''wss://'', 443, True),
      (''WSS://'', 443, True), (''http://'', 80, False), (''HTTP://'', 80, False),
      (''ws://'', 80, False), (''WS://'', 80, False)]"

lemma ws_scheme_table:
  assumes "(pre, port, ssl) \<in> set ws_schemes"
  shows "ws_scheme (pre @ s) = Some (length pre, port, ssl)"
proof -
  have "list_all (\<lambda>(pre, port, ssl). ws_scheme (pre @ s) = Some (length pre, port, ssl)) ws_schemes"
    by (simp add: ws_schemes_def ws_scheme_def)
  then show ?thesis using assms by (auto simp: list_all_iff)
qed

lemma if_chain:
  "(if a \<or> b then Some x else if c \<or> d then Some y else if e \<or> f then Some z
    else if g \<or> h then Some w else None) = Some r \<Longrightarrow>
   (a \<and> r = x) \<or> (b \<and> r = x) \<or> (c \<and> r = y) \<or> (d \<and> r = y) \<or> (e \<and> r = z) \<or> (f \<and> r = z)
   \<or> (g \<and> r = w) \<or> (h \<and> r = w)"
  by (auto split: if_splits)

lemma disj8:
  "A \<or> B \<or> C \<or> D \<or> E \<or> F \<or> G \<or> H \<Longrightarrow> (A \<Longrightarrow> P) \<Longrightarrow> (B \<Longrightarrow> P) \<Longrightarrow> (C \<Longrightarrow> P) \<Longrightarrow> (D \<Longrightarrow> P) \<Longrightarrow>
   (E \<Longrightarrow> P) \<Longrightarrow> (F \<Longrightarrow> P) \<Longrightarrow> (G \<Longrightarrow> P) \<Longrightarrow> (H \<Longrightarrow> P) \<Longrightarrow> P"
  by blast

lemma ws_scheme_prefix:
  assumes "ws_scheme s = Some (n, port, ssl)"
  shows "\<exists>pre. (pre, port, ssl) \<in> set ws_schemes \<and> length pre = n \<and> s = pre @ drop n s"
proof -
  have *: "\<exists>pre. (pre, port, ssl) \<in> set ws_schemes \<and> length pre = n \<and> s = pre @ drop n s"
    if "starts_with pre s" "length pre = n \<and> (pre, port, ssl) \<in> set ws_schemes" for pre
    using that by (auto simp: starts_with_iff)
  show ?thesis
    by (rule if_chain [OF assms [unfolded ws_scheme_def], THEN disj8]; elim conjE; erule *;
        simp add: ws_schemes_def)
qed

abbreviation no_out :: uri_out where
  "no_out \<equiv> \<lparr>u_host = [], u_path = [], u_port = 0, u_sslFlags = {}\<rparr>"

lemma parse_ws_uri_with_port:
  assumes "(pre, dport, ssl) \<in> set ws_schemes"
    and "h \<noteq> []" "list_all re_dot h" "CHR ''/'' \<notin> set h" "CHR '':'' \<notin> set h"
    and "ds \<noteq> []" "list_all is_digit ds" "port_path p"
    and "length (pre @ h @ CHR '':'' # ds @ p) < MAX_WS_URL_LEN + MAX_PATH_LEN"
  shows "parse_ws_uri st vars (pre @ h @ CHR '':'' # ds @ p) out =
    (True, out\<lparr>u_host := strncpy_field MAX_WS_URL_LEN h,
       u_path := (if p = [] then ''/'' else strncpy_field MAX_PATH_LEN p),
       u_port := atoi ds, u_sslFlags := (if ssl then ws_flags st vars else {})\<rparr>)"
  using assms(6,9) re_ws_uri_port [OF assms(2-5,7,8)] ws_scheme_table [OF assms(1)]
  by (simp add: parse_ws_uri_def Let_def)

lemma parse_ws_uri_no_port:
  assumes "(pre, dport, ssl) \<in> set ws_schemes"
    and "h \<noteq> []" "list_all re_dot h" "CHR ''/'' \<notin> set h" "CHR '':'' \<notin> set h"
    and "\<not> is_digit (last h)" "list_all is_digit ds" "port_path p"
    and "length (pre @ h @ ds @ p) < MAX_WS_URL_LEN + MAX_PATH_LEN"
  shows "parse_ws_uri st vars (pre @ h @ ds @ p) out =
    (True, out\<lparr>u_host := strncpy_field MAX_WS_URL_LEN h,
       u_path := (if p = [] then ''/'' else strncpy_field MAX_PATH_LEN p),
       u_port := (if ds = [] then dport else atoi ds),
       u_sslFlags := (if ssl then ws_flags st vars else {})\<rparr>)"
  using assms(9) re_ws_uri_plain [OF assms(2-8)] ws_scheme_table [OF assms(1)]
  by (simp add: parse_ws_uri_def Let_def)



text \<open>The URL is accepted exactly when it fits the buffer, starts with a known scheme and the
  rest is not empty and free of line breaks; an accepted URL fits host and path buffers with
  room for the terminator, and the path starts with a slash.\<close>

lemma parse_ws_uri_accepts:
  "(fst (parse_ws_uri st vars uri out) \<longleftrightarrow>
      length uri < MAX_WS_URL_LEN + MAX_PATH_LEN \<and>
      (\<exists>(pre, port, ssl) \<in> set ws_schemes. \<exists>s. uri = pre @ s \<and> s \<noteq> [] \<and> list_all re_dot s)) \<and>
   (fst (parse_ws_uri st vars uri out) \<longrightarrow>
      length (u_host (snd (parse_ws_uri st vars uri out))) < MAX_WS_URL_LEN \<and>
      length (u_path (snd (parse_ws_uri st vars uri out))) < MAX_PATH_LEN \<and>
      hd (u_path (snd (parse_ws_uri st vars uri out))) = CHR ''/'')"
proof (cases "length uri < MAX_WS_URL_LEN + MAX_PATH_LEN")
  case len: True
  show ?thesis
  proof (cases "ws_scheme uri")
    case None
    have "uri \<noteq> pre @ s" if "(pre, port, ssl) \<in> set ws_schemes" for pre port ssl s
      using ws_scheme_table [OF that, of s] None by auto
    then have no: "\<not> (\<exists>(pre, port, ssl) \<in> set ws_schemes. \<exists>s. uri = pre @ s \<and> s \<noteq> [] \<and> list_all re_dot s)"
      by blast
    have "parse_ws_uri st vars uri out = (False, out)"
      using None len by (simp add: parse_ws_uri_def Let_def)
    with no show ?thesis by (simp only: fst_conv) simp
  next
    case (Some r)
    obtain n port ssl where r: "r = (n, port, ssl)" by (cases r)
    from ws_scheme_prefix Some r obtain pre where pre: "(pre, port, ssl) \<in> set ws_schemes"
      "length pre = n" "uri = pre @ drop n uri" by blast
    have only: "s = drop n uri" if "(pre', port', ssl') \<in> set ws_schemes" "uri = pre' @ s"
      for pre' port' ssl' s
      using ws_scheme_table [OF that(1), of s] that(2) Some r by simp
    have ex: "(\<exists>(pre, port, ssl) \<in> set ws_schemes. \<exists>s. uri = pre @ s \<and> s \<noteq> [] \<and> list_all re_dot s)
        \<longleftrightarrow> re_ws_uri (drop n uri) \<noteq> None"
    proof
      assume "\<exists>(pre, port, ssl) \<in> set ws_schemes. \<exists>s. uri = pre @ s \<and> s \<noteq> [] \<and> list_all re_dot s"
      then obtain pre' port' ssl' s' where s': "(pre', port', ssl') \<in> set ws_schemes"
        "uri = pre' @ s'" "s' \<noteq> []" "list_all re_dot s'" by blast
      have "s' = drop n uri" using only [OF s'(1,2)] .
      with s'(3,4) show "re_ws_uri (drop n uri) \<noteq> None" unfolding re_ws_uri_None by simp
    next
      assume "re_ws_uri (drop n uri) \<noteq> None"
      with pre(1,3) show "\<exists>(pre, port, ssl) \<in> set ws_schemes.
          \<exists>s. uri = pre @ s \<and> s \<noteq> [] \<and> list_all re_dot s"
        unfolding re_ws_uri_None by blast
    qed
    show ?thesis
    proof (cases "re_ws_uri (drop n uri)")
      case None
      then show ?thesis using ex Some r len by (simp add: parse_ws_uri_def Let_def)
    next
      case (Some m)
      obtain m1 m2 m3 where m: "m = (m1, m2, m3)" by (cases m)
      have "hd m3 = CHR ''/''" if "m3 \<noteq> []"
        using Some m that re_ws_uri_path by blast
      then show ?thesis
        using Some ex \<open>ws_scheme uri = Some r\<close> r m len
        by (auto simp: parse_ws_uri_def Let_def strncpy_field_def MAX_WS_URL_LEN_def
            MAX_PATH_LEN_def hd_take)
    qed
  qed
next
  case False
  then show ?thesis by (auto simp: parse_ws_uri_def Let_def)
qed

end
