(* ===== verification/AudioPipe.thy ===== *)
theory AudioPipe
  imports Prelude
begin

text \<open>
  The object that streams a call's audio over a websocket: class \<open>AudioPipe\<close> of
  \<^verbatim>\<open>modules/mod_audio_fork/audio_pipe.cpp\<close> and its descendant in
  \<^verbatim>\<open>modules/mod_deepgram_transcribe\<close>. The two copies share the fields of the record
  \<open>pipe\<close> and the operations of this theory (the text of those members is the same in both);
  each copy extends the record by its own fields. Operations are functions on the record.
  \<open>LWS_PRE\<close>, the headroom libwebsockets wants in front of a buffer, is a parameter.
\<close>

section \<open>Data\<close>

datatype lws_state = LWS_CLIENT_IDLE | LWS_CLIENT_CONNECTING | LWS_CLIENT_CONNECTED
  | LWS_CLIENT_FAILED | LWS_CLIENT_DISCONNECTING | LWS_CLIENT_DISCONNECTED

datatype notify_event = CONNECT_SUCCESS | CONNECT_FAIL | CONNECTION_DROPPED
  | CONNECTION_CLOSED_GRACEFULLY | MESSAGE

type_synonym wsi = nat
type_synonym ctx = nat
type_synonym ptr = nat

text \<open>The heap blocks are represented by their contents: \<open>m_recv_buf\<close> is \<open>None\<close> for the null
  pointer and otherwise the bytes before \<open>m_recv_buf_ptr\<close>; the block has \<open>m_recv_buf_len\<close>
  bytes. A vhost's private data is known by its context. \<open>m_promise\<close> says whether the close
  promise has its value.\<close>

record pipe =
  m_state :: lws_state
  m_uuid :: string
  m_host :: string
  m_port :: nat
  m_path :: string
  m_metadata :: string
  m_wsi :: "wsi option"
  m_audio_buffer :: "u8 list"
  m_audio_buffer_max_len :: nat
  m_audio_buffer_write_offset :: nat
  m_audio_buffer_min_freespace :: nat
  m_recv_buf :: "string option"
  m_recv_buf_len :: nat
  m_recv_buf_discarding :: bool
  m_vhd :: "ctx option"
  m_gracefulShutdown :: bool
  m_closeSignaled :: bool
  m_promise :: bool

text \<open>The members both constructors initialise the same way. \<open>block\<close> is what \<open>new\<close> returns for
  the audio buffer and \<open>junk\<close> the value of the one member no constructor initialises.\<close>

definition pipe_init ::
  "nat \<Rightarrow> string \<Rightarrow> string \<Rightarrow> nat \<Rightarrow> string \<Rightarrow> nat \<Rightarrow> nat \<Rightarrow> u8 list \<Rightarrow> nat \<Rightarrow> pipe" where
  "pipe_init LWS_PRE uuid host port path bufLen minFreespace block junk =
     \<lparr>m_state = LWS_CLIENT_IDLE, m_uuid = uuid, m_host = host, m_port = port, m_path = path,
      m_metadata = [], m_wsi = None, m_audio_buffer = block, m_audio_buffer_max_len = bufLen,
      m_audio_buffer_write_offset = LWS_PRE, m_audio_buffer_min_freespace = minFreespace,
      m_recv_buf = None, m_recv_buf_len = junk, m_recv_buf_discarding = False, m_vhd = None,
      m_gracefulShutdown = False, m_closeSignaled = False, m_promise = False\<rparr>"

section \<open>The audio buffer\<close>

definition binarySpaceAvailable :: "'a pipe_scheme \<Rightarrow> nat" where
  "binarySpaceAvailable p = m_audio_buffer_max_len p - m_audio_buffer_write_offset p"

definition binaryMinSpace :: "'a pipe_scheme \<Rightarrow> nat" where
  "binaryMinSpace p = m_audio_buffer_min_freespace p"

definition binaryWritePtrAdd :: "nat \<Rightarrow> 'a pipe_scheme \<Rightarrow> 'a pipe_scheme" where
  "binaryWritePtrAdd len p = p\<lparr>m_audio_buffer_write_offset := m_audio_buffer_write_offset p + len\<rparr>"

definition binaryWritePtrResetToZero :: "nat \<Rightarrow> 'a pipe_scheme \<Rightarrow> 'a pipe_scheme" where
  "binaryWritePtrResetToZero LWS_PRE p = p\<lparr>m_audio_buffer_write_offset := LWS_PRE\<rparr>"

text \<open>A write of \<open>bytes\<close> through \<open>binaryWritePtr()\<close> by the media bug or the resampler.\<close>

definition write_at_ptr :: "u8 list \<Rightarrow> 'a pipe_scheme \<Rightarrow> ub + 'a pipe_scheme" where
  "write_at_ptr bytes p =
     (if m_audio_buffer_write_offset p + length bytes > length (m_audio_buffer p)
      then Inl HeapOverflow
      else Inr (p\<lparr>m_audio_buffer :=
             splice (m_audio_buffer_write_offset p) bytes (m_audio_buffer p)\<rparr>))"

text \<open>The bytes waiting to be sent, and the invariant of the buffer.\<close>

definition audio_payload :: "nat \<Rightarrow> 'a pipe_scheme \<Rightarrow> u8 list" where
  "audio_payload LWS_PRE p =
     drop LWS_PRE (take (m_audio_buffer_write_offset p) (m_audio_buffer p))"

definition audio_ok :: "nat \<Rightarrow> 'a pipe_scheme \<Rightarrow> bool" where
  "audio_ok LWS_PRE p \<longleftrightarrow>
     length (m_audio_buffer p) = m_audio_buffer_max_len p \<and>
     LWS_PRE \<le> m_audio_buffer_write_offset p \<and>
     m_audio_buffer_write_offset p \<le> m_audio_buffer_max_len p"

lemma write_add_ok:
  assumes "audio_ok pre p" "length bytes \<le> binarySpaceAvailable p"
  shows "\<exists>q. write_at_ptr bytes p = Inr q \<and> audio_ok pre (binaryWritePtrAdd (length bytes) q) \<and>
    audio_payload pre (binaryWritePtrAdd (length bytes) q) = audio_payload pre p @ bytes \<and>
    binarySpaceAvailable (binaryWritePtrAdd (length bytes) q)
      = binarySpaceAvailable p - length bytes \<and>
    q = p\<lparr>m_audio_buffer := m_audio_buffer q\<rparr>"
  using assms
  by (auto simp: write_at_ptr_def audio_ok_def audio_payload_def binarySpaceAvailable_def
      binaryWritePtrAdd_def take_splice)

lemma reset_ok:
  assumes "audio_ok pre p"
  shows "audio_ok pre (binaryWritePtrResetToZero pre p)"
    and "audio_payload pre (binaryWritePtrResetToZero pre p) = []"
    and "binarySpaceAvailable (binaryWritePtrResetToZero pre p) = m_audio_buffer_max_len p - pre"
  using assms
  by (auto simp: audio_ok_def audio_payload_def binarySpaceAvailable_def binaryWritePtrResetToZero_def)

section \<open>The close promise\<close>

text \<open>\<open>setClosed\<close> sets the promise at most once; a second \<open>set_value\<close> would throw.\<close>

definition setClosed :: "'a pipe_scheme \<Rightarrow> ub + 'a pipe_scheme" where
  "setClosed p =
     (if \<not> m_closeSignaled p then
        (if m_promise p then Inl PromiseTwice
         else Inr (p\<lparr>m_closeSignaled := True, m_promise := True\<rparr>))
      else Inr p)"

text \<open>\<open>waitForClose\<close> returns once the promise is set.\<close>

definition waitForClose_returns :: "'a pipe_scheme \<Rightarrow> bool" where
  "waitForClose_returns p \<longleftrightarrow> m_promise p"

definition terminal :: "lws_state \<Rightarrow> bool" where
  "terminal s \<longleftrightarrow> s \<in> {LWS_CLIENT_FAILED, LWS_CLIENT_DISCONNECTED}"

definition promise_ok :: "'a pipe_scheme \<Rightarrow> bool" where
  "promise_ok p \<longleftrightarrow> (m_closeSignaled p \<longleftrightarrow> m_promise p)"

lemma setClosed_ok:
  "promise_ok p \<Longrightarrow> setClosed p = Inr (p\<lparr>m_closeSignaled := True, m_promise := True\<rparr>)"
  by (cases p) (auto simp: setClosed_def promise_ok_def)

end
