(* ===== verification/PipeRecv.thy ===== *)
theory PipeRecv
  imports AudioPipe
begin

text \<open>
  The \<open>LWS_CALLBACK_CLIENT_RECEIVE\<close> branch of \<open>AudioPipe::lws_callback\<close>: libwebsockets hands a
  message over in pieces; the branch reassembles text messages in \<open>m_recv_buf\<close>, bounds them by
  \<open>MAX_RECV_BUF_SIZE\<close> and delivers them whole. The specification is the concatenation of the
  pieces. Results of \<open>malloc\<close> and \<open>realloc\<close> are part of the event, so every allocation failure
  is covered.
\<close>

section \<open>Definitions\<close>

definition MAX_RECV_BUF_SIZE :: nat where "MAX_RECV_BUF_SIZE = 65 * 1024 * 10"
definition RECV_BUF_REALLOC_SIZE :: nat where "RECV_BUF_REALLOC_SIZE = 8 * 1024"

text \<open>One call of the branch: the answers of \<open>lws_frame_is_binary\<close>, \<open>lws_is_first_fragment\<close>,
  \<open>lws_is_final_fragment\<close> and \<open>lws_remaining_packet_payload\<close>, the piece itself, and whether
  the allocations of this call succeed.\<close>

record rx_event =
  rx_binary :: bool
  rx_first :: bool
  rx_final :: bool
  rx_remaining :: nat
  rx_in :: string
  rx_malloc_ok :: bool
  rx_realloc_ok :: bool

definition recv_drop :: "rx_event \<Rightarrow> 'a pipe_scheme \<Rightarrow> 'a pipe_scheme" where
  "recv_drop e p =
     p\<lparr>m_recv_buf := None, m_recv_buf_len := 0, m_recv_buf_discarding := \<not> rx_final e\<rparr>"

text \<open>The block for a first fragment. The first component says whether the call continues.\<close>

definition recv_first :: "rx_event \<Rightarrow> 'a pipe_scheme \<Rightarrow> ub + bool \<times> 'a pipe_scheme" where
  "recv_first e p =
     (if m_recv_buf p \<noteq> None then Inl AssertFailed
      else
        let n = length (rx_in e) + rx_remaining e;
            p1 = p\<lparr>m_recv_buf_discarding := False, m_recv_buf_len := n\<rparr>
        in if n > MAX_RECV_BUF_SIZE then Inr (False, recv_drop e p1)
           else if \<not> rx_malloc_ok e then Inr (False, recv_drop e p1)
           else Inr (True, p1\<lparr>m_recv_buf := Some []\<rparr>))"

text \<open>Growing the block when the piece does not fit; growth is by a fixed amount.\<close>

definition recv_grow :: "rx_event \<Rightarrow> 'a pipe_scheme \<Rightarrow> 'a pipe_scheme" where
  "recv_grow e p =
     (let write_offset = (case m_recv_buf p of None \<Rightarrow> 0 | Some d \<Rightarrow> length d);
          remaining_space = m_recv_buf_len p - write_offset
      in if remaining_space < length (rx_in e) then
           (let newlen = m_recv_buf_len p + RECV_BUF_REALLOC_SIZE
            in if newlen > MAX_RECV_BUF_SIZE then recv_drop e p
               else if rx_realloc_ok e
                 then p\<lparr>m_recv_buf := Some (case m_recv_buf p of None \<Rightarrow> [] | Some d \<Rightarrow> d),
                        m_recv_buf_len := newlen\<rparr>
               else recv_drop e p)
         else p)"

text \<open>Copying the piece and delivering the message at its final fragment. A piece longer than the
  room left is written past the block.\<close>

definition recv_store :: "rx_event \<Rightarrow> 'a pipe_scheme \<Rightarrow> ub + string option \<times> 'a pipe_scheme" where
  "recv_store e p =
     (case m_recv_buf p of
        None \<Rightarrow> Inr (None, p)
      | Some d \<Rightarrow>
          if length d + length (rx_in e) > m_recv_buf_len p then Inl HeapOverflow
          else if rx_final e
            then Inr (Some (d @ rx_in e), p\<lparr>m_recv_buf := None, m_recv_buf_len := 0\<rparr>)
          else Inr (None, p\<lparr>m_recv_buf := Some (d @ rx_in e)\<rparr>))"

definition receive :: "rx_event \<Rightarrow> 'a pipe_scheme \<Rightarrow> ub + string option \<times> 'a pipe_scheme" where
  "receive e p =
     (if rx_binary e then Inr (None, p)
      else andthen (if rx_first e then recv_first e p else Inr (True, p))
        (\<lambda>(go_on, p1).
          if \<not> go_on then Inr (None, p1)
          else if m_recv_buf_discarding p1
            then Inr (None, if rx_final e then p1\<lparr>m_recv_buf_discarding := False\<rparr> else p1)
          else recv_store e (recv_grow e p1)))"

text \<open>A sequence of calls; the messages delivered, in order.\<close>

fun receives :: "rx_event list \<Rightarrow> 'a pipe_scheme \<Rightarrow> ub + string list \<times> 'a pipe_scheme" where
  "receives [] p = Inr ([], p)"
| "receives (e # es) p =
     andthen (receive e p) (\<lambda>(m, p1).
       andthen (receives es p1) (\<lambda>(ms, p2).
         Inr ((case m of None \<Rightarrow> ms | Some x \<Rightarrow> x # ms), p2)))"

section \<open>Specification\<close>

text \<open>What libwebsockets promises of the calls for one text message: the first, and only the
  first, is marked as first fragment, the last, and only the last, as final. The protocol entry
  asks for pieces of at most 1024 bytes.\<close>

definition text_message :: "rx_event list \<Rightarrow> bool" where
  "text_message es \<longleftrightarrow>
     es \<noteq> [] \<and> list_all (\<lambda>e. \<not> rx_binary e \<and> length (rx_in e) \<le> RECV_BUF_REALLOC_SIZE) es \<and>
     rx_first (hd es) \<and> list_all (\<lambda>e. \<not> rx_first e) (tl es) \<and>
     rx_final (last es) \<and> list_all (\<lambda>e. \<not> rx_final e) (butlast es)"

definition payload :: "rx_event list \<Rightarrow> string" where
  "payload es = concat (map rx_in es)"

definition recv_idle :: "'a pipe_scheme \<Rightarrow> bool" where
  "recv_idle p \<longleftrightarrow> m_recv_buf p = None \<and> \<not> m_recv_buf_discarding p"

text \<open>In the middle of a message: either its bytes so far, within the block, or discarding.\<close>

definition recv_mid :: "string \<Rightarrow> 'a pipe_scheme \<Rightarrow> bool" where
  "recv_mid d p \<longleftrightarrow>
     (m_recv_buf p = Some d \<and> length d \<le> m_recv_buf_len p \<and> \<not> m_recv_buf_discarding p
        \<and> m_recv_buf_len p \<le> MAX_RECV_BUF_SIZE) \<or>
     (m_recv_buf p = None \<and> m_recv_buf_len p = 0 \<and> m_recv_buf_discarding p)"

definition recv_frame :: "'a pipe_scheme \<Rightarrow> 'a pipe_scheme \<Rightarrow> bool" where
  "recv_frame p q \<longleftrightarrow>
     q = p\<lparr>m_recv_buf := m_recv_buf q, m_recv_buf_len := m_recv_buf_len q,
           m_recv_buf_discarding := m_recv_buf_discarding q\<rparr>"

lemmas recv_defs = receive_def recv_first_def recv_grow_def recv_store_def recv_drop_def Let_def

text \<open>One call inside a message.\<close>

lemma receive_mid:
  assumes "recv_mid d p" "\<not> rx_binary e" "\<not> rx_first e"
    "length (rx_in e) \<le> RECV_BUF_REALLOC_SIZE"
  shows "\<exists>m q. receive e p = Inr (m, q) \<and> recv_frame p q \<and>
    (if rx_final e then recv_idle q \<and> (m = None \<or> m = Some (d @ rx_in e))
     else m = None \<and> recv_mid (d @ rx_in e) q)"
  using assms
  by (auto simp: recv_defs recv_mid_def recv_idle_def recv_frame_def split: option.splits)

lemma receive_first:
  assumes "recv_idle p" "\<not> rx_binary e" "rx_first e"
  shows "\<exists>m q. receive e p = Inr (m, q) \<and> recv_frame p q \<and>
    (if rx_final e then recv_idle q \<and> (m = None \<or> m = Some (rx_in e))
     else m = None \<and> recv_mid (rx_in e) q)"
  using assms
  by (auto simp: recv_defs recv_mid_def recv_idle_def recv_frame_def split: option.splits)

lemma recv_frame_iff:
  "recv_frame p q \<longleftrightarrow>
     (\<exists>b n d. q = p\<lparr>m_recv_buf := b, m_recv_buf_len := n, m_recv_buf_discarding := d\<rparr>)"
  unfolding recv_frame_def by (rule iffI, blast, elim exE, hypsubst, simp)

lemma recv_frame_trans: "recv_frame p q \<Longrightarrow> recv_frame q r \<Longrightarrow> recv_frame p r"
  by (auto simp: recv_frame_iff) ((rule exI)+, rule refl)

text \<open>The remaining calls of a message.\<close>

lemma receives_rest:
  assumes "recv_mid d p" "es \<noteq> []"
    "list_all (\<lambda>e. \<not> rx_binary e \<and> length (rx_in e) \<le> RECV_BUF_REALLOC_SIZE) es"
    "list_all (\<lambda>e. \<not> rx_first e) es" "rx_final (last es)" "list_all (\<lambda>e. \<not> rx_final e) (butlast es)"
  shows "\<exists>ms q. receives es p = Inr (ms, q) \<and> recv_idle q \<and> recv_frame p q \<and>
    (ms = [] \<or> ms = [d @ payload es])"
  using assms
proof (induction es arbitrary: d p)
  case (Cons e es)
  obtain m q where q: "receive e p = Inr (m, q)" "recv_frame p q"
    "if rx_final e then recv_idle q \<and> (m = None \<or> m = Some (d @ rx_in e))
     else m = None \<and> recv_mid (d @ rx_in e) q"
    using receive_mid [OF Cons.prems(1)] Cons.prems(3,4) by fastforce
  show ?case
  proof (cases "es = []")
    case True
    then show ?thesis using q Cons.prems by (auto simp: payload_def)
  next
    case False
    then have nf: "\<not> rx_final e" using Cons.prems(6) by simp
    with q have mid: "m = None" "recv_mid (d @ rx_in e) q" by simp_all
    obtain ms r where r: "receives es q = Inr (ms, r)" "recv_idle r" "recv_frame q r"
      "ms = [] \<or> ms = [(d @ rx_in e) @ payload es]"
      using Cons.IH [OF mid(2) False] Cons.prems False by auto
    with q mid show ?thesis by (auto simp: payload_def intro: recv_frame_trans)
  qed
qed simp

text \<open>The same when nothing is refused: the block never shrinks below the announced size.\<close>

lemma receive_mid_ok:
  assumes "m_recv_buf p = Some d" "length d \<le> m_recv_buf_len p" "\<not> m_recv_buf_discarding p"
    "\<not> rx_binary e" "\<not> rx_first e" "rx_realloc_ok e"
    "length (rx_in e) \<le> RECV_BUF_REALLOC_SIZE"
    "length d + length (rx_in e) \<le> m_recv_buf_len p \<or>
       m_recv_buf_len p + RECV_BUF_REALLOC_SIZE \<le> MAX_RECV_BUF_SIZE"
  shows "\<exists>q. receive e p = Inr (if rx_final e then Some (d @ rx_in e) else None, q) \<and>
    (\<not> rx_final e \<longrightarrow> m_recv_buf q = Some (d @ rx_in e) \<and> length (d @ rx_in e) \<le> m_recv_buf_len q \<and>
      \<not> m_recv_buf_discarding q \<and> m_recv_buf_len p \<le> m_recv_buf_len q)"
  using assms by (auto simp: recv_defs split: option.splits)

lemma receives_rest_ok:
  assumes "m_recv_buf p = Some d" "length d \<le> m_recv_buf_len p" "\<not> m_recv_buf_discarding p"
    "es \<noteq> []" "list_all rx_realloc_ok es"
    "list_all (\<lambda>e. \<not> rx_binary e \<and> length (rx_in e) \<le> RECV_BUF_REALLOC_SIZE) es"
    "list_all (\<lambda>e. \<not> rx_first e) es" "rx_final (last es)" "list_all (\<lambda>e. \<not> rx_final e) (butlast es)"
    "length (d @ payload es) \<le> m_recv_buf_len p \<or>
       length (d @ payload es) + RECV_BUF_REALLOC_SIZE \<le> MAX_RECV_BUF_SIZE"
  shows "\<exists>q. receives es p = Inr ([d @ payload es], q)"
  using assms
proof (induction es arbitrary: d p)
  case (Cons e es)
  have fit: "length d + length (rx_in e) \<le> m_recv_buf_len p \<or>
       m_recv_buf_len p + RECV_BUF_REALLOC_SIZE \<le> MAX_RECV_BUF_SIZE"
    using Cons.prems(10) by (auto simp: payload_def)
  obtain q where q: "receive e p = Inr (if rx_final e then Some (d @ rx_in e) else None, q)"
    "\<not> rx_final e \<Longrightarrow> m_recv_buf q = Some (d @ rx_in e) \<and> length (d @ rx_in e) \<le> m_recv_buf_len q \<and>
      \<not> m_recv_buf_discarding q \<and> m_recv_buf_len p \<le> m_recv_buf_len q"
    using receive_mid_ok [OF Cons.prems(1-3) _ _ _ _ fit] Cons.prems(5-7) by auto
  show ?case
  proof (cases "es = []")
    case True
    then show ?thesis using q(1) Cons.prems(8) by (simp add: payload_def)
  next
    case False
    then have "\<not> rx_final e" using Cons.prems(9) by simp
    with q have q': "receive e p = Inr (None, q)" "m_recv_buf q = Some (d @ rx_in e)"
      "length (d @ rx_in e) \<le> m_recv_buf_len q" "\<not> m_recv_buf_discarding q"
      "m_recv_buf_len p \<le> m_recv_buf_len q" by simp_all
    have "\<exists>r. receives es q = Inr ([(d @ rx_in e) @ payload es], r)"
      using Cons.prems False q' by (intro Cons.IH) (auto simp: payload_def)
    with q' show ?thesis by (auto simp: payload_def)
  qed
qed simp

section \<open>Properties\<close>

lemma receive_whole:
  assumes "text_message es" "recv_idle p"
  shows "\<exists>ms q. receives es p = Inr (ms, q) \<and> (ms = [] \<or> ms = [payload es]) \<and>
    recv_idle q \<and> recv_frame p q"
proof -
  obtain e es' where es: "es = e # es'" using assms(1) by (cases es) (auto simp: text_message_def)
  from assms have e: "\<not> rx_binary e" "rx_first e" by (auto simp: es text_message_def)
  obtain m q where q: "receive e p = Inr (m, q)" "recv_frame p q"
    "if rx_final e then recv_idle q \<and> (m = None \<or> m = Some (rx_in e))
     else m = None \<and> recv_mid (rx_in e) q"
    using receive_first [OF assms(2) e] by blast
  show ?thesis
  proof (cases "es' = []")
    case True
    then show ?thesis using q assms(1) by (auto simp: es text_message_def payload_def)
  next
    case False
    then have "\<not> rx_final e" using assms(1) by (auto simp: es text_message_def)
    with q have mid: "m = None" "recv_mid (rx_in e) q" by simp_all
    from receives_rest [OF mid(2) False] assms(1) False
    obtain ms r where "receives es' q = Inr (ms, r)" "recv_idle r" "recv_frame q r"
      "ms = [] \<or> ms = [rx_in e @ payload es']"
      by (auto simp: es text_message_def)
    with q mid show ?thesis by (auto simp: es payload_def intro: recv_frame_trans)
  qed
qed

text \<open>When the allocations succeed and the announced size is within the cap, the message is
  delivered, provided it is no longer than announced or leaves one growth step of room below
  the cap.\<close>

lemma receive_delivers:
  assumes "text_message es" "recv_idle p" "rx_malloc_ok (hd es)" "list_all rx_realloc_ok es"
    and "length (rx_in (hd es)) + rx_remaining (hd es) \<le> MAX_RECV_BUF_SIZE"
    and "length (payload es) \<le> length (rx_in (hd es)) + rx_remaining (hd es) \<or>
         length (payload es) + RECV_BUF_REALLOC_SIZE \<le> MAX_RECV_BUF_SIZE"
  shows "\<exists>q. receives es p = Inr ([payload es], q)"
proof -
  obtain e es' where es: "es = e # es'" using assms(1) by (cases es) (auto simp: text_message_def)
  let ?n = "length (rx_in e) + rx_remaining e"
  have e: "\<not> rx_binary e" "rx_first e" "rx_malloc_ok e" "?n \<le> MAX_RECV_BUF_SIZE"
    using assms by (auto simp: es text_message_def)
  show ?thesis
  proof (cases "es' = []")
    case True
    then show ?thesis using assms e
      by (auto simp: es text_message_def payload_def recv_defs recv_idle_def)
  next
    case False
    then have nf: "\<not> rx_final e" using assms(1) by (auto simp: es text_message_def)
    let ?q = "p\<lparr>m_recv_buf_discarding := False, m_recv_buf_len := ?n, m_recv_buf := Some (rx_in e)\<rparr>"
    have "receive e p = Inr (None, ?q)"
      using e nf assms(2) by (auto simp: recv_defs recv_idle_def)
    moreover have "\<exists>r. receives es' ?q = Inr ([rx_in e @ payload es'], r)"
      using assms False e by (intro receives_rest_ok) (auto simp: es text_message_def payload_def)
    ultimately show ?thesis by (auto simp: es payload_def)
  qed
qed

text \<open>C4: whatever the allocator does, the pieces of one text message never make the code write
  out of bounds or fail its assertion; the message is delivered whole, once, or not at all, and
  afterwards the pipe is ready for the next message, nothing else in it changed. It is delivered when
  the allocations succeed, the announced size is within the cap, and the message is no longer than
  announced or leaves one growth step of room below the cap.\<close>

theorem receive_whole_or_nothing:
  assumes "text_message es" "recv_idle p"
  shows "\<exists>ms q. receives es p = Inr (ms, q) \<and> (ms = [] \<or> ms = [payload es]) \<and>
    recv_idle q \<and> recv_frame p q \<and>
    (rx_malloc_ok (hd es) \<and> list_all rx_realloc_ok es \<and>
      length (rx_in (hd es)) + rx_remaining (hd es) \<le> MAX_RECV_BUF_SIZE \<and>
      (length (payload es) \<le> length (rx_in (hd es)) + rx_remaining (hd es) \<or>
       length (payload es) + RECV_BUF_REALLOC_SIZE \<le> MAX_RECV_BUF_SIZE)
      \<longrightarrow> ms = [payload es])"
proof -
  obtain ms q where "receives es p = Inr (ms, q)" "ms = [] \<or> ms = [payload es]" "recv_idle q" "recv_frame p q"
    using receive_whole [OF assms] by blast
  with receive_delivers [OF assms] show ?thesis by auto
qed

text \<open>The fixed growth step is what bounds a piece: a continuation piece that exceeds the room
  left by more than \<open>RECV_BUF_REALLOC_SIZE\<close> is copied past the end of the grown block.\<close>

lemma receive_overflows:
  assumes "m_recv_buf p = Some d" "\<not> m_recv_buf_discarding p" "\<not> rx_binary e" "\<not> rx_first e"
    and "rx_realloc_ok e" "m_recv_buf_len p + RECV_BUF_REALLOC_SIZE \<le> MAX_RECV_BUF_SIZE"
    and "m_recv_buf_len p + RECV_BUF_REALLOC_SIZE < length d + length (rx_in e)"
  shows "receive e p = Inl HeapOverflow"
  using assms by (auto simp: recv_defs)

section \<open>The properties on a concrete message\<close>

definition rx_pipe :: pipe where
  "rx_pipe = pipe_init 2 ''u'' ''h'' 443 ''/'' 4 2 [0, 0, 0, 0] 7"

definition rx_pieces :: "rx_event list" where
  "rx_pieces =
     [\<lparr>rx_binary = False, rx_first = True, rx_final = False, rx_remaining = 2, rx_in = ''he'',
       rx_malloc_ok = True, rx_realloc_ok = True\<rparr>,
      \<lparr>rx_binary = False, rx_first = False, rx_final = True, rx_remaining = 0, rx_in = ''y!'',
       rx_malloc_ok = True, rx_realloc_ok = True\<rparr>]"

lemma rx_pieces_message: "text_message rx_pieces" "payload rx_pieces = ''hey!''" "recv_idle rx_pipe"
  by (simp_all add: text_message_def rx_pieces_def payload_def RECV_BUF_REALLOC_SIZE_def recv_idle_def
      rx_pipe_def pipe_init_def)

lemma receive_whole_or_nothing_witness:
  "\<exists>q. receives rx_pieces rx_pipe = Inr ([''hey!''], q) \<and> recv_idle q \<and> recv_frame rx_pipe q"
proof -
  have "rx_malloc_ok (hd rx_pieces)" "list_all rx_realloc_ok rx_pieces"
    "length (rx_in (hd rx_pieces)) + rx_remaining (hd rx_pieces) = 4"
    by (simp_all add: rx_pieces_def)
  with receive_whole_or_nothing [OF rx_pieces_message(1,3)] show ?thesis
    by (auto simp: rx_pieces_message(2) MAX_RECV_BUF_SIZE_def)
qed

end
