(* ===== verification/ForkFrame.thy ===== *)
theory ForkFrame
  imports AudioPipe
begin

text \<open>
  The media-bug callback of \<^verbatim>\<open>modules/mod_audio_fork/lws_glue.cpp\<close> (\<open>fork_frame\<close>), from the moment
  it holds the audio lock: it moves what the media bug has into the pipe's audio buffer, directly
  or through a resampler. \<open>dg_transcribe_frame\<close> has the same text. The frames the successful reads
  deliver are an argument, and so is the resampler, a function of its state, the frame and the room
  it is given (in samples per channel).
\<close>

section \<open>Definitions\<close>

text \<open>The state of the loops: the pipe, \<open>buffer_overrun_notified\<close>, and the number of
  \<open>EVENT_BUFFER_OVERRUN\<close> events sent.\<close>

record 'p frame_state =
  fs_pipe :: 'p
  fs_notified :: bool
  fs_events :: nat

definition overrun_notify :: "'p frame_state \<Rightarrow> 'p frame_state" where
  "overrun_notify s =
     (if fs_notified s then s else s\<lparr>fs_notified := True, fs_events := fs_events s + 1\<rparr>)"

text \<open>At the native rate: dump the buffer when too little room is left, then read into it.\<close>

definition native_check :: "nat \<Rightarrow> nat \<Rightarrow> 'a pipe_scheme frame_state \<Rightarrow> 'a pipe_scheme frame_state" where
  "native_check LWS_PRE minSpace s =
     (if binarySpaceAvailable (fs_pipe s) < minSpace
      then (overrun_notify s)\<lparr>fs_pipe := binaryWritePtrResetToZero LWS_PRE (fs_pipe s)\<rparr>
      else s)"

fun native_loop ::
  "nat \<Rightarrow> nat \<Rightarrow> u8 list list \<Rightarrow> 'a pipe_scheme frame_state \<Rightarrow> ub + 'a pipe_scheme frame_state" where
  "native_loop LWS_PRE minSpace [] s = Inr (native_check LWS_PRE minSpace s)"
| "native_loop LWS_PRE minSpace (d # ds) s =
     (let s1 = native_check LWS_PRE minSpace s
      in andthen (write_at_ptr d (fs_pipe s1)) (\<lambda>q.
           native_loop LWS_PRE minSpace ds
             (s1\<lparr>fs_pipe := (if d \<noteq> [] then binaryWritePtrAdd (length d) q else q)\<rparr>)))"

text \<open>Through the resampler: convert a frame into the room that is left; stop at an overrun.\<close>

fun resample_loop ::
  "nat \<Rightarrow> ('s \<Rightarrow> u8 list \<Rightarrow> nat \<Rightarrow> u8 list \<times> 's) \<Rightarrow> 's \<Rightarrow> u8 list list \<Rightarrow> 'a pipe_scheme frame_state
     \<Rightarrow> ub + 'a pipe_scheme frame_state \<times> 's" where
  "resample_loop channels resampler rs [] s = Inr (s, rs)"
| "resample_loop channels resampler rs (d # ds) s =
     (if d = [] then resample_loop channels resampler rs ds s
      else if channels = 0 then Inl DivByZero
      else
        let (samples, rs1) = resampler rs d (binarySpaceAvailable (fs_pipe s) div (2 * channels))
        in andthen (write_at_ptr samples (fs_pipe s)) (\<lambda>q.
             let out_len = length samples div (2 * channels);
                 q1 = (if out_len > 0 then binaryWritePtrAdd (out_len * 2 * channels) q else q);
                 s1 = s\<lparr>fs_pipe := q1\<rparr>
             in if binarySpaceAvailable q1 < binaryMinSpace q1
                then Inr (overrun_notify s1, rs1)
                else resample_loop channels resampler rs1 ds s1))"

definition fork_frame_ring ::
  "nat \<Rightarrow> nat \<Rightarrow> ('s \<Rightarrow> u8 list \<Rightarrow> nat \<Rightarrow> u8 list \<times> 's) option \<Rightarrow> 's \<Rightarrow> u8 list list
     \<Rightarrow> 'a pipe_scheme frame_state \<Rightarrow> ub + 'a pipe_scheme frame_state \<times> 's" where
  "fork_frame_ring LWS_PRE channels resampler rs frames s =
     (case resampler of
        None \<Rightarrow> andthen (native_loop LWS_PRE (binaryMinSpace (fs_pipe s) * channels) frames s)
                  (\<lambda>s1. Inr (s1, rs))
      | Some f \<Rightarrow> resample_loop channels f rs frames s)"

section \<open>Specification\<close>

text \<open>A bounded queue of bytes: before each read, and before giving up, it is emptied when less
  than \<open>minSpace\<close> is left.\<close>

definition ring_room :: "nat \<Rightarrow> nat \<Rightarrow> u8 list \<Rightarrow> u8 list" where
  "ring_room cap minSpace pl = (if cap - length pl < minSpace then [] else pl)"

fun ring_spec :: "nat \<Rightarrow> nat \<Rightarrow> u8 list \<Rightarrow> u8 list list \<Rightarrow> u8 list" where
  "ring_spec cap minSpace pl [] = ring_room cap minSpace pl"
| "ring_spec cap minSpace pl (d # ds) = ring_spec cap minSpace (ring_room cap minSpace pl @ d) ds"

definition capacity :: "nat \<Rightarrow> 'a pipe_scheme \<Rightarrow> nat" where
  "capacity LWS_PRE p = m_audio_buffer_max_len p - LWS_PRE"

text \<open>Only the buffer changes.\<close>

definition audio_frame :: "'a pipe_scheme \<Rightarrow> 'a pipe_scheme \<Rightarrow> bool" where
  "audio_frame p q \<longleftrightarrow> q = p\<lparr>m_audio_buffer := m_audio_buffer q,
     m_audio_buffer_write_offset := m_audio_buffer_write_offset q\<rparr>"

text \<open>What is documented of the resampler: it produces whole samples of all channels, at most as
  many as it was given room for.\<close>

definition resampler_ok :: "nat \<Rightarrow> ('s \<Rightarrow> u8 list \<Rightarrow> nat \<Rightarrow> u8 list \<times> 's) \<Rightarrow> bool" where
  "resampler_ok channels f \<longleftrightarrow>
     (\<forall>rs d n. \<exists>k\<le>n. length (fst (f rs d n)) = k * (2 * channels))"

text \<open>The bytes the resampler produces for the frames it is given, until the room left falls below
  \<open>minSpace\<close>.\<close>

fun resample_spec ::
  "nat \<Rightarrow> nat \<Rightarrow> nat \<Rightarrow> ('s \<Rightarrow> u8 list \<Rightarrow> nat \<Rightarrow> u8 list \<times> 's) \<Rightarrow> 's \<Rightarrow> u8 list \<Rightarrow> u8 list list \<Rightarrow> u8 list" where
  "resample_spec channels cap minSpace f rs pl [] = pl"
| "resample_spec channels cap minSpace f rs pl (d # ds) =
     (if d = [] then resample_spec channels cap minSpace f rs pl ds
      else let (samples, rs1) = f rs d ((cap - length pl) div (2 * channels)); pl1 = pl @ samples
           in if cap - length pl1 < minSpace then pl1
              else resample_spec channels cap minSpace f rs1 pl1 ds)"

section \<open>Lemmas\<close>

lemma audio_frame_refl [simp]: "audio_frame p p"
  by (simp add: audio_frame_def)

lemma audio_frame_iff:
  "audio_frame p q \<longleftrightarrow> (\<exists>b n. q = p\<lparr>m_audio_buffer := b, m_audio_buffer_write_offset := n\<rparr>)"
  unfolding audio_frame_def by (rule iffI, blast, elim exE, hypsubst, simp)

lemma audio_frame_trans: "audio_frame p q \<Longrightarrow> audio_frame q r \<Longrightarrow> audio_frame p r"
  by (auto simp: audio_frame_iff) ((rule exI)+, rule refl)

lemma audio_frame_sel:
  assumes "audio_frame p q"
  shows "capacity pre q = capacity pre p" "binaryMinSpace q = binaryMinSpace p"
    "m_audio_buffer_max_len q = m_audio_buffer_max_len p"
  using assms by (auto simp: audio_frame_iff capacity_def binaryMinSpace_def)

lemma space_payload:
  "audio_ok pre p \<Longrightarrow> binarySpaceAvailable p = capacity pre p - length (audio_payload pre p)"
  "audio_ok pre p \<Longrightarrow> length (audio_payload pre p) \<le> capacity pre p"
  by (auto simp: audio_ok_def binarySpaceAvailable_def capacity_def audio_payload_def)

lemma audio_frame_reset [simp]: "audio_frame p (binaryWritePtrResetToZero pre p)"
  by (cases p) (simp add: audio_frame_def binaryWritePtrResetToZero_def)

text \<open>Appending through the write pointer.\<close>

lemma append_ok:
  assumes "audio_ok pre p" "length d \<le> binarySpaceAvailable p"
  obtains q where "write_at_ptr d p = Inr q" "audio_ok pre (binaryWritePtrAdd (length d) q)"
    "audio_payload pre (binaryWritePtrAdd (length d) q) = audio_payload pre p @ d"
    "audio_frame p (binaryWritePtrAdd (length d) q)" "d = [] \<longrightarrow> q = p"
proof -
  obtain q where q: "write_at_ptr d p = Inr q" "audio_ok pre (binaryWritePtrAdd (length d) q)"
    "audio_payload pre (binaryWritePtrAdd (length d) q) = audio_payload pre p @ d"
    "q = p\<lparr>m_audio_buffer := m_audio_buffer q\<rparr>"
    using write_add_ok [OF assms] by blast
  have "audio_frame p (binaryWritePtrAdd (length d) q)"
    unfolding audio_frame_iff binaryWritePtrAdd_def by (subst q(4)) (intro exI, simp)
  moreover have "q = p" if "d = []"
    using q(1) that assms(1) by (auto simp: write_at_ptr_def splice_def split: if_splits)
  ultimately show ?thesis using that q(1-3) by blast
qed

lemma native_check_ok:
  assumes "audio_ok pre (fs_pipe s)"
  shows "audio_ok pre (fs_pipe (native_check pre minSpace s))"
    and "audio_payload pre (fs_pipe (native_check pre minSpace s))
      = ring_room (capacity pre (fs_pipe s)) minSpace (audio_payload pre (fs_pipe s))"
    and "audio_frame (fs_pipe s) (fs_pipe (native_check pre minSpace s))"
    and "minSpace \<le> capacity pre (fs_pipe s) \<Longrightarrow>
      minSpace \<le> binarySpaceAvailable (fs_pipe (native_check pre minSpace s))"
  using assms reset_ok [OF assms] space_payload [OF assms]
  by (auto simp: native_check_def ring_room_def overrun_notify_def capacity_def)

lemma native_loop_ok:
  assumes "audio_ok pre (fs_pipe s)" "minSpace \<le> capacity pre (fs_pipe s)"
    "list_all (\<lambda>d. length d \<le> minSpace) frames"
  shows "\<exists>s'. native_loop pre minSpace frames s = Inr s' \<and> audio_ok pre (fs_pipe s') \<and>
    audio_payload pre (fs_pipe s')
      = ring_spec (capacity pre (fs_pipe s)) minSpace (audio_payload pre (fs_pipe s)) frames \<and>
    audio_frame (fs_pipe s) (fs_pipe s')"
  using assms
proof (induction frames arbitrary: s)
  case (Cons d ds)
  let ?s = "native_check pre minSpace s"
  note c = native_check_ok [OF Cons.prems(1), of minSpace]
  have "length d \<le> binarySpaceAvailable (fs_pipe ?s)" using Cons.prems c(4) by simp
  with c(1) obtain q where q: "write_at_ptr d (fs_pipe ?s) = Inr q"
    "audio_ok pre (binaryWritePtrAdd (length d) q)"
    "audio_payload pre (binaryWritePtrAdd (length d) q) = audio_payload pre (fs_pipe ?s) @ d"
    "audio_frame (fs_pipe ?s) (binaryWritePtrAdd (length d) q)" "d = [] \<longrightarrow> q = fs_pipe ?s"
    by (rule append_ok)
  let ?q = "if d \<noteq> [] then binaryWritePtrAdd (length d) q else q"
  have e: "?q = binaryWritePtrAdd (length d) q"
    by (cases "d = []") (simp_all add: binaryWritePtrAdd_def)
  have f: "audio_frame (fs_pipe s) ?q" using audio_frame_trans [OF c(3) q(4)] by (simp only: e)
  obtain s' where "native_loop pre minSpace ds (?s\<lparr>fs_pipe := ?q\<rparr>) = Inr s'"
    "audio_ok pre (fs_pipe s')"
    "audio_payload pre (fs_pipe s') = ring_spec (capacity pre ?q) minSpace (audio_payload pre ?q) ds"
    "audio_frame ?q (fs_pipe s')"
    using Cons.IH [of "?s\<lparr>fs_pipe := ?q\<rparr>"] Cons.prems q(2) audio_frame_sel [OF f]
    by (auto simp: e simp del: if_split)
  then show ?case
    using q(1,3) c(2) audio_frame_sel(1) [OF f, of pre] audio_frame_trans [OF f]
    by (auto simp: Let_def e simp del: if_split)
qed (use native_check_ok in auto)

lemma ring_spec_fits:
  "length pl + length (concat frames) + minSpace \<le> cap \<Longrightarrow>
     ring_spec cap minSpace pl frames = pl @ concat frames"
  by (induction frames arbitrary: pl) (auto simp: ring_room_def)

text \<open>What the buffer holds is always a suffix of what was to be sent, cut at a frame boundary.\<close>

lemma ring_spec_suffix:
  "\<exists>k\<le>length frames. ring_spec cap minSpace pl frames = pl @ concat frames \<or>
     ring_spec cap minSpace pl frames = concat (drop k frames)"
proof (induction frames arbitrary: pl)
  case (Cons d ds)
  obtain k where "k \<le> length ds" and k: "ring_spec cap minSpace (ring_room cap minSpace pl @ d) ds
      = (ring_room cap minSpace pl @ d) @ concat ds \<or>
      ring_spec cap minSpace (ring_room cap minSpace pl @ d) ds = concat (drop k ds)"
    using Cons.IH by blast
  then show ?case
    by (cases "cap - length pl < minSpace")
      (auto simp: ring_room_def intro: exI [of _ 0] exI [of _ "Suc k"])
qed (auto simp: ring_room_def)

lemma resample_loop_ok:
  assumes "audio_ok pre (fs_pipe s)" "resampler_ok channels f" "0 < channels"
  shows "\<exists>s' rs'. resample_loop channels f rs frames s = Inr (s', rs') \<and> audio_ok pre (fs_pipe s') \<and>
    audio_payload pre (fs_pipe s')
      = resample_spec channels (capacity pre (fs_pipe s)) (binaryMinSpace (fs_pipe s)) f rs
          (audio_payload pre (fs_pipe s)) frames \<and>
    audio_frame (fs_pipe s) (fs_pipe s')"
  using assms(1)
proof (induction frames arbitrary: s rs)
  case (Cons d ds)
  show ?case
  proof (cases "d = []")
    case True
    then show ?thesis using Cons by simp
  next
    case False
    let ?n = "binarySpaceAvailable (fs_pipe s) div (2 * channels)"
    obtain out rs1 where out: "f rs d ?n = (out, rs1)" by force
    then obtain k where k: "k \<le> ?n" "length out = k * (2 * channels)"
      using assms(2) unfolding resampler_ok_def by (metis fst_conv)
    have len: "length out \<le> binarySpaceAvailable (fs_pipe s)"
      using k by (metis div_times_less_eq_dividend le_trans mult_le_mono1)
    with Cons.prems obtain q where q: "write_at_ptr out (fs_pipe s) = Inr q"
      "audio_ok pre (binaryWritePtrAdd (length out) q)"
      "audio_payload pre (binaryWritePtrAdd (length out) q) = audio_payload pre (fs_pipe s) @ out"
      "audio_frame (fs_pipe s) (binaryWritePtrAdd (length out) q)" "out = [] \<longrightarrow> q = fs_pipe s"
      by (rule append_ok)
    let ?q = "binaryWritePtrAdd (length out) q"
    let ?s = "s\<lparr>fs_pipe := ?q\<rparr>"
    have e: "(if 0 < length out div (2 * channels)
        then binaryWritePtrAdd (length out div (2 * channels) * 2 * channels) q else q) = ?q"
      using k(2) assms(3) by (auto simp: binaryWritePtrAdd_def)
    have n: "?n = (capacity pre (fs_pipe s) - length (audio_payload pre (fs_pipe s))) div (2 * channels)"
      by (simp add: space_payload(1) [OF Cons.prems])
    have over: "binarySpaceAvailable ?q < binaryMinSpace ?q \<longleftrightarrow>
        capacity pre (fs_pipe s) - length (audio_payload pre (fs_pipe s) @ out) < binaryMinSpace (fs_pipe s)"
      using space_payload(1) [OF q(2)] q(3) audio_frame_sel [OF q(4)] by simp
    show ?thesis
    proof (cases "binarySpaceAvailable ?q < binaryMinSpace ?q")
      case True
      then have "resample_loop channels f rs (d # ds) s = Inr (overrun_notify ?s, rs1)"
        using False assms(3) out q(1) e by (simp add: Let_def)
      moreover have "resample_spec channels (capacity pre (fs_pipe s)) (binaryMinSpace (fs_pipe s)) f rs
          (audio_payload pre (fs_pipe s)) (d # ds) = audio_payload pre (fs_pipe s) @ out"
        using False out over True n by (simp add: Let_def)
      ultimately show ?thesis using q by (simp add: overrun_notify_def)
    next
      case no: False
      have "resample_loop channels f rs (d # ds) s = resample_loop channels f rs1 ds ?s"
        using False no assms(3) out q(1) e by (simp add: Let_def)
      moreover have "resample_spec channels (capacity pre (fs_pipe s)) (binaryMinSpace (fs_pipe s)) f rs
          (audio_payload pre (fs_pipe s)) (d # ds)
          = resample_spec channels (capacity pre (fs_pipe s)) (binaryMinSpace (fs_pipe s)) f rs1
              (audio_payload pre (fs_pipe s) @ out) ds"
        using False out over no n by (simp add: Let_def)
      moreover obtain s' rs' where "resample_loop channels f rs1 ds ?s = Inr (s', rs')"
        "audio_ok pre (fs_pipe s')"
        "audio_payload pre (fs_pipe s') = resample_spec channels (capacity pre ?q) (binaryMinSpace ?q) f rs1
          (audio_payload pre ?q) ds" "audio_frame ?q (fs_pipe s')"
        using Cons.IH [of ?s rs1] q(2) by auto
      ultimately show ?thesis
        using q(3) audio_frame_sel [OF q(4)] audio_frame_trans [OF q(4)] by auto
    qed
  qed
qed simp

text \<open>Room for everything: no overrun at all.\<close>

lemma native_loop_fits:
  assumes "audio_ok pre (fs_pipe s)" "minSpace \<le> capacity pre (fs_pipe s)"
    "list_all (\<lambda>d. length d \<le> minSpace) frames"
    "length (audio_payload pre (fs_pipe s)) + length (concat frames) + minSpace \<le> capacity pre (fs_pipe s)"
  shows "\<exists>q. native_loop pre minSpace frames s = Inr (s\<lparr>fs_pipe := q\<rparr>) \<and>
    audio_payload pre q = audio_payload pre (fs_pipe s) @ concat frames"
  using assms
proof (induction frames arbitrary: s)
  case Nil
  then have "native_check pre minSpace s = s" by (simp add: native_check_def space_payload(1))
  then show ?case by (simp add: exI [of _ "fs_pipe s"])
next
  case (Cons d ds)
  have room: "minSpace \<le> binarySpaceAvailable (fs_pipe s)"
    using Cons.prems by (simp add: space_payload(1))
  then have c: "native_check pre minSpace s = s" by (simp add: native_check_def)
  have "length d \<le> binarySpaceAvailable (fs_pipe s)" using Cons.prems(3) room by simp
  with Cons.prems(1) obtain q where q: "write_at_ptr d (fs_pipe s) = Inr q"
    "audio_ok pre (binaryWritePtrAdd (length d) q)"
    "audio_payload pre (binaryWritePtrAdd (length d) q) = audio_payload pre (fs_pipe s) @ d"
    "audio_frame (fs_pipe s) (binaryWritePtrAdd (length d) q)" "d = [] \<longrightarrow> q = fs_pipe s"
    by (rule append_ok)
  let ?s = "s\<lparr>fs_pipe := binaryWritePtrAdd (length d) q\<rparr>"
  have e: "(if d \<noteq> [] then binaryWritePtrAdd (length d) q else q) = binaryWritePtrAdd (length d) q"
    by (cases "d = []") (simp_all add: binaryWritePtrAdd_def)
  obtain r where "native_loop pre minSpace ds ?s = Inr (?s\<lparr>fs_pipe := r\<rparr>)"
    "audio_payload pre r = audio_payload pre (fs_pipe ?s) @ concat ds"
    using Cons.IH [of ?s] Cons.prems q(2,3) audio_frame_sel [OF q(4)] by auto
  then show ?case using q(1,3) c e by (simp add: Let_def del: if_split) blast
qed

section \<open>Properties\<close>

text \<open>C5: at the native rate, whatever frames the media bug delivers (each within what it
  announced, all channels counted), \<open>fork_frame\<close> never writes past the audio buffer, whose
  content is afterwards what the bounded queue of the specification holds; nothing else in the
  pipe changes. What is queued is everything, or whole frames from some point on.\<close>

theorem fork_frame_native_refines:
  assumes "audio_ok pre (fs_pipe s)"
    and "binaryMinSpace (fs_pipe s) * channels \<le> capacity pre (fs_pipe s)"
    and "list_all (\<lambda>d. length d \<le> binaryMinSpace (fs_pipe s) * channels) frames"
  shows "\<exists>s' k. fork_frame_ring pre channels None rs frames s = Inr (s', rs) \<and>
    audio_ok pre (fs_pipe s') \<and> audio_frame (fs_pipe s) (fs_pipe s') \<and>
    audio_payload pre (fs_pipe s')
      = ring_spec (capacity pre (fs_pipe s)) (binaryMinSpace (fs_pipe s) * channels)
          (audio_payload pre (fs_pipe s)) frames \<and>
    (audio_payload pre (fs_pipe s') = audio_payload pre (fs_pipe s) @ concat frames \<or>
     audio_payload pre (fs_pipe s') = concat (drop k frames))"
  using native_loop_ok [OF assms]
    ring_spec_suffix [of frames "capacity pre (fs_pipe s)" "binaryMinSpace (fs_pipe s) * channels"
      "audio_payload pre (fs_pipe s)"]
  by (auto simp: fork_frame_ring_def)

text \<open>When the frames fit and leave the minimum room, no byte is dropped and no overrun is
  reported.\<close>

lemma fork_frame_no_loss:
  assumes "audio_ok pre (fs_pipe s)"
    and "list_all (\<lambda>d. length d \<le> binaryMinSpace (fs_pipe s) * channels) frames"
    and "length (audio_payload pre (fs_pipe s)) + length (concat frames)
      + binaryMinSpace (fs_pipe s) * channels \<le> capacity pre (fs_pipe s)"
  shows "\<exists>q. fork_frame_ring pre channels None rs frames s = Inr (s\<lparr>fs_pipe := q\<rparr>, rs) \<and>
    audio_payload pre q = audio_payload pre (fs_pipe s) @ concat frames"
proof -
  have "binaryMinSpace (fs_pipe s) * channels \<le> capacity pre (fs_pipe s)" using assms(3) by simp
  from native_loop_fits [OF assms(1) this assms(2,3)] show ?thesis
    by (auto simp: fork_frame_ring_def)
qed

text \<open>Through the resampler, whatever it produces within the room it is given, no write leaves
  the audio buffer, and the buffer gets the produced samples in order, up to the frame that left
  less than the minimum room.\<close>

lemma fork_frame_resampled:
  assumes "audio_ok pre (fs_pipe s)" "resampler_ok channels f" "0 < channels"
  shows "\<exists>s' rs'. fork_frame_ring pre channels (Some f) rs frames s = Inr (s', rs') \<and>
    audio_ok pre (fs_pipe s') \<and> audio_frame (fs_pipe s) (fs_pipe s') \<and>
    audio_payload pre (fs_pipe s')
      = resample_spec channels (capacity pre (fs_pipe s)) (binaryMinSpace (fs_pipe s)) f rs
          (audio_payload pre (fs_pipe s)) frames"
proof -
  obtain s' rs' where "resample_loop channels f rs frames s = Inr (s', rs')"
    "audio_ok pre (fs_pipe s')" "audio_frame (fs_pipe s) (fs_pipe s')"
    "audio_payload pre (fs_pipe s') = resample_spec channels (capacity pre (fs_pipe s))
      (binaryMinSpace (fs_pipe s)) f rs (audio_payload pre (fs_pipe s)) frames"
    using resample_loop_ok [OF assms, of rs frames] by blast
  then show ?thesis by (simp add: fork_frame_ring_def)
qed

section \<open>The properties on a concrete buffer\<close>

definition small_state :: "pipe frame_state" where
  "small_state = \<lparr>fs_pipe = pipe_init 2 ''id'' ''h'' 443 ''/'' 10 4 (replicate 10 0) 0,
     fs_notified = False, fs_events = 0\<rparr>"

definition halve :: "unit \<Rightarrow> u8 list \<Rightarrow> nat \<Rightarrow> u8 list \<times> unit" where
  "halve u d n = (take (min n (length d div 4) * 2) d, u)"

lemma small_state_ok:
  "audio_ok 2 (fs_pipe small_state)" "binaryMinSpace (fs_pipe small_state) = 4"
  "capacity 2 (fs_pipe small_state) = 8" "audio_payload 2 (fs_pipe small_state) = []"
  by (simp_all add: small_state_def pipe_init_def audio_ok_def binaryMinSpace_def capacity_def
      audio_payload_def)

lemma fork_frame_native_refines_witness:
  "\<exists>s' k. fork_frame_ring 2 1 None () [[1, 2], [3, 4, 5], [6, 7]] small_state = Inr (s', ()) \<and>
    audio_ok 2 (fs_pipe s') \<and> audio_frame (fs_pipe small_state) (fs_pipe s') \<and>
    audio_payload 2 (fs_pipe s') = ring_spec 8 4 [] [[1, 2], [3, 4, 5], [6, 7]] \<and>
    (audio_payload 2 (fs_pipe s') = [] @ concat [[1, 2], [3, 4, 5], [6, 7]] \<or>
     audio_payload 2 (fs_pipe s') = concat (drop k [[1, 2], [3, 4, 5], [6, 7]]))"
  using fork_frame_native_refines [of 2 small_state 1 "[[1, 2], [3, 4, 5], [6, 7]]" "()"]
  by (simp add: small_state_ok)

lemma halve_ok: "resampler_ok 1 halve"
  unfolding resampler_ok_def
proof (intro allI)
  fix rs d n
  show "\<exists>k\<le>n. length (fst (halve rs d n)) = k * (2 * 1)"
  proof (intro exI conjI)
    have "min n (length d div 4) * 2 \<le> length d" by linarith
    then show "length (fst (halve rs d n)) = min n (length d div 4) * (2 * 1)"
      by (simp add: halve_def)
  qed simp
qed

end
