(* ===== verification/PipeWorld.thy ===== *)
theory PipeWorld
  imports AudioPipe
begin

text \<open>
  The static side of \<open>AudioPipe\<close>: the pending lists the media threads hand to the service
  thread, and the operations on them. A \<open>world\<close> holds the live pipes (\<open>heap\<close>, where a deleted
  object is \<open>None\<close>), the static members, and the library's side: the user pointer and life
  cycle of every connection handle, the wake-ups and write requests made, and the notifications
  sent to the module, in order. Operations dereference pipes through \<open>deref\<close>, so a dangling
  pointer shows up as \<open>UseAfterFree\<close>. The shared text of both copies is parameterised by
  \<open>note\<close>, the arguments each copy passes to its callback.
\<close>

section \<open>State\<close>

text \<open>Life cycle of a handle as libwebsockets manages it: \<open>WOpening\<close> from
  \<open>lws_client_connect_via_info\<close>, \<open>WOpen\<close> from ESTABLISHED, \<open>WClosed\<close> (freed) from
  CONNECTION_ERROR or CLOSED on.\<close>

datatype wsi_phase = WNone | WOpening | WOpen | WClosed

datatype lws_frame = LWS_WRITE_TEXT string | LWS_WRITE_BINARY "u8 list"

record ('p, 'n) world =
  heap :: "ptr \<Rightarrow> 'p option"
  pendingConnects :: "ptr list"
  pendingDisconnects :: "ptr list"
  pendingWrites :: "ptr list"
  contexts :: "ctx option list"
  numContexts :: nat
  nchild :: u32
  stopRequested :: bool
  serviceThreads :: "nat list"
  wsi_user :: "wsi \<Rightarrow> ptr option"
  wsi_ph :: "wsi \<Rightarrow> wsi_phase"
  wakeups :: "ctx list"
  writable :: "wsi list"
  sent :: "(wsi \<times> lws_frame) list"
  notifications :: "(ptr \<times> 'n) list"

type_synonym ('p, 'n) note_fn = "'p \<Rightarrow> notify_event \<Rightarrow> string option \<Rightarrow> 'n"

definition deref :: "('p, 'n) world \<Rightarrow> ptr \<Rightarrow> ub + 'p" where
  "deref w ap = (case heap w ap of None \<Rightarrow> Inl UseAfterFree | Some p \<Rightarrow> Inr p)"

definition set_pipe :: "ptr \<Rightarrow> 'p \<Rightarrow> ('p, 'n) world \<Rightarrow> ('p, 'n) world" where
  "set_pipe ap p w = w\<lparr>heap := (heap w)(ap := Some p)\<rparr>"

text \<open>Updating the pipe \<open>ap\<close> points to.\<close>

definition modify :: "ptr \<Rightarrow> ('p \<Rightarrow> ub + 'p) \<Rightarrow> ('p, 'n) world \<Rightarrow> ub + ('p, 'n) world" where
  "modify ap f w = andthen (deref w ap) (\<lambda>p. andthen (f p) (\<lambda>q. Inr (set_pipe ap q w)))"

definition set_state :: "ptr \<Rightarrow> lws_state \<Rightarrow> ('a pipe_scheme, 'n) world \<Rightarrow> ub + ('a pipe_scheme, 'n) world" where
  "set_state ap s w = modify ap (\<lambda>p. Inr (p\<lparr>m_state := s\<rparr>)) w"

definition notify :: "('p, 'n) note_fn \<Rightarrow> ptr \<Rightarrow> notify_event \<Rightarrow> string option \<Rightarrow> ('p, 'n) world \<Rightarrow> ub + ('p, 'n) world" where
  "notify note ap ev msg w =
     andthen (deref w ap) (\<lambda>p. Inr (w\<lparr>notifications := notifications w @ [(ap, note p ev msg)]\<rparr>))"

section \<open>Calls into libwebsockets\<close>

definition lws_cancel_service :: "ctx \<Rightarrow> ('p, 'n) world \<Rightarrow> ('p, 'n) world" where
  "lws_cancel_service c w = w\<lparr>wakeups := wakeups w @ [c]\<rparr>"

text \<open>Requesting a writable callback needs an open handle.\<close>

definition lws_callback_on_writable :: "wsi option \<Rightarrow> ('p, 'n) world \<Rightarrow> ub + ('p, 'n) world" where
  "lws_callback_on_writable x w =
     (case x of None \<Rightarrow> Inl NullDeref
      | Some h \<Rightarrow> if wsi_ph w h = WOpen then Inr (w\<lparr>writable := writable w @ [h]\<rparr>)
                  else Inl DeadHandle)"

text \<open>Writing needs an open handle; the value it returns is chosen by the environment.\<close>

definition lws_write :: "wsi \<Rightarrow> lws_frame \<Rightarrow> ('p, 'n) world \<Rightarrow> ub + ('p, 'n) world" where
  "lws_write x f w =
     (if wsi_ph w x = WOpen then Inr (w\<lparr>sent := sent w @ [(x, f)]\<rparr>) else Inl DeadHandle)"

text \<open>The outcome of a connection attempt is chosen by the environment: a new handle or null.\<close>

definition lws_client_connect_via_info :: "wsi option \<Rightarrow> ('p, 'n) world \<Rightarrow> ('p, 'n) world" where
  "lws_client_connect_via_info r w =
     (case r of None \<Rightarrow> w | Some x \<Rightarrow> w\<lparr>wsi_ph := (wsi_ph w)(x := WOpening)\<rparr>)"

text \<open>\<open>ap->m_vhd->context\<close>\<close>

definition vhd_context :: "'a pipe_scheme \<Rightarrow> ub + ctx" where
  "vhd_context p = (case m_vhd p of None \<Rightarrow> Inl NullDeref | Some c \<Rightarrow> Inr c)"

section \<open>The pending lists\<close>

text \<open>Round-robin over the live contexts.\<close>

fun pick_context :: "nat \<Rightarrow> ('p, 'n) world \<Rightarrow> ctx option \<times> ('p, 'n) world" where
  "pick_context 0 w = (None, w)"
| "pick_context (Suc k) w =
     (let c = contexts w ! (unat (nchild w) mod numContexts w);
          w1 = w\<lparr>nchild := nchild w + 1\<rparr>
      in case c of Some x \<Rightarrow> (Some x, w1) | None \<Rightarrow> pick_context k w1)"

definition setClosed_at :: "ptr \<Rightarrow> ('a pipe_scheme, 'n) world \<Rightarrow> ub + ('a pipe_scheme, 'n) world" where
  "setClosed_at ap w = modify ap setClosed w"

definition fail_connect ::
  "('a pipe_scheme, 'n) note_fn \<Rightarrow> ptr \<Rightarrow> string option \<Rightarrow> ('a pipe_scheme, 'n) world
     \<Rightarrow> ub + ('a pipe_scheme, 'n) world" where
  "fail_connect note ap msg w =
     andthen (set_state ap LWS_CLIENT_FAILED w) (\<lambda>w1.
     andthen (notify note ap CONNECT_FAIL msg w1) (\<lambda>w2.
       setClosed_at ap w2))"

definition addPendingConnect ::
  "('a pipe_scheme, 'n) note_fn \<Rightarrow> ptr \<Rightarrow> ('a pipe_scheme, 'n) world \<Rightarrow> ub + ('a pipe_scheme, 'n) world" where
  "addPendingConnect note ap w =
     (case pick_context (numContexts w) w of
        (None, w1) \<Rightarrow> fail_connect note ap (Some ''no lws context available'') w1
      | (Some c, w1) \<Rightarrow>
          Inr (lws_cancel_service c (w1\<lparr>pendingConnects := pendingConnects w1 @ [ap]\<rparr>)))"

text \<open>Only the transition from CONNECTED wins the compare-and-swap.\<close>

definition addPendingDisconnect :: "ptr \<Rightarrow> ('a pipe_scheme, 'n) world \<Rightarrow> ub + ('a pipe_scheme, 'n) world" where
  "addPendingDisconnect ap w =
     andthen (deref w ap) (\<lambda>p.
       if m_state p \<noteq> LWS_CLIENT_CONNECTED then Inr w
       else andthen (vhd_context p) (\<lambda>c.
         let w1 = set_pipe ap (p\<lparr>m_state := LWS_CLIENT_DISCONNECTING\<rparr>) w
         in Inr (lws_cancel_service c (w1\<lparr>pendingDisconnects := pendingDisconnects w1 @ [ap]\<rparr>))))"

definition addPendingWrite :: "ptr \<Rightarrow> ('a pipe_scheme, 'n) world \<Rightarrow> ub + ('a pipe_scheme, 'n) world" where
  "addPendingWrite ap w =
     andthen (deref w ap) (\<lambda>p.
     andthen (vhd_context p) (\<lambda>c.
       Inr (lws_cancel_service c (w\<lparr>pendingWrites := pendingWrites w @ [ap]\<rparr>))))"

definition removeFromPending :: "ptr \<Rightarrow> ('p, 'n) world \<Rightarrow> ('p, 'n) world" where
  "removeFromPending ap w =
     w\<lparr>pendingConnects := removeAll ap (pendingConnects w),
       pendingDisconnects := removeAll ap (pendingDisconnects w),
       pendingWrites := removeAll ap (pendingWrites w)\<rparr>"

text \<open>The destructor.\<close>

definition destroy_pipe :: "ptr \<Rightarrow> ('p, 'n) world \<Rightarrow> ub + ('p, 'n) world" where
  "destroy_pipe ap w =
     andthen (deref w ap) (\<lambda>_.
       let w1 = removeFromPending ap w in Inr (w1\<lparr>heap := (heap w1)(ap := None)\<rparr>))"

section \<open>What the service thread does with them\<close>

text \<open>\<open>processPendingConnects\<close>: adopt the idle entries, then connect them one by one.\<close>

fun adopt_idle :: "ptr list \<Rightarrow> ('a pipe_scheme, 'n) world \<Rightarrow> ub + ptr list \<times> ('a pipe_scheme, 'n) world" where
  "adopt_idle [] w = Inr ([], w)"
| "adopt_idle (ap # aps) w =
     andthen (deref w ap) (\<lambda>p.
       if m_state p = LWS_CLIENT_IDLE
       then andthen (adopt_idle aps (set_pipe ap (p\<lparr>m_state := LWS_CLIENT_CONNECTING\<rparr>) w))
              (\<lambda>(cs, w1). Inr (ap # cs, w1))
       else adopt_idle aps w)"

definition connect_client ::
  "ctx \<Rightarrow> (ptr \<Rightarrow> wsi option) \<Rightarrow> ptr \<Rightarrow> ('a pipe_scheme, 'n) world \<Rightarrow> ub + bool \<times> ('a pipe_scheme, 'n) world" where
  "connect_client vhd conn ap w =
     andthen (deref w ap) (\<lambda>p.
       if m_vhd p \<noteq> None then Inl AssertFailed
       else let q = p\<lparr>m_state := LWS_CLIENT_CONNECTING, m_vhd := Some vhd, m_wsi := conn ap\<rparr>
            in Inr (conn ap \<noteq> None, lws_client_connect_via_info (conn ap) (set_pipe ap q w)))"

fun connect_all ::
  "('a pipe_scheme, 'n) note_fn \<Rightarrow> ctx \<Rightarrow> (ptr \<Rightarrow> wsi option) \<Rightarrow> ptr list \<Rightarrow> ('a pipe_scheme, 'n) world
     \<Rightarrow> ub + ('a pipe_scheme, 'n) world" where
  "connect_all note vhd conn [] w = Inr w"
| "connect_all note vhd conn (ap # aps) w =
     andthen (connect_client vhd conn ap w) (\<lambda>(ok, w1).
     andthen (if ok then Inr w1 else fail_connect note ap (Some ''connect_client failed'') w1)
       (connect_all note vhd conn aps))"

definition processPendingConnects ::
  "('a pipe_scheme, 'n) note_fn \<Rightarrow> ctx \<Rightarrow> (ptr \<Rightarrow> wsi option) \<Rightarrow> ('a pipe_scheme, 'n) world
     \<Rightarrow> ub + ('a pipe_scheme, 'n) world" where
  "processPendingConnects note vhd conn w =
     andthen (adopt_idle (pendingConnects w) w) (\<lambda>(cs, w1). connect_all note vhd conn cs w1)"

text \<open>The common loop of \<open>processPendingDisconnects\<close> and \<open>processPendingWrites\<close>: entries of this
  context leave the list, those in the wanted state are selected.\<close>

fun drain_pending ::
  "lws_state \<Rightarrow> ctx \<Rightarrow> ptr list \<Rightarrow> ('a pipe_scheme, 'n) world \<Rightarrow> ub + ptr list \<times> ptr list" where
  "drain_pending s vhd [] w = Inr ([], [])"
| "drain_pending s vhd (ap # aps) w =
     andthen (deref w ap) (\<lambda>p.
     andthen (drain_pending s vhd aps w) (\<lambda>(keep, sel).
       if m_vhd p = Some vhd then Inr (keep, if m_state p = s then ap # sel else sel)
       else Inr (ap # keep, sel)))"

fun request_all :: "ptr list \<Rightarrow> ('a pipe_scheme, 'n) world \<Rightarrow> ub + ('a pipe_scheme, 'n) world" where
  "request_all [] w = Inr w"
| "request_all (ap # aps) w =
     andthen (deref w ap) (\<lambda>p.
     andthen (lws_callback_on_writable (m_wsi p) w) (request_all aps))"

definition processPendingDisconnects :: "ctx \<Rightarrow> ('a pipe_scheme, 'n) world \<Rightarrow> ub + ('a pipe_scheme, 'n) world" where
  "processPendingDisconnects vhd w =
     andthen (drain_pending LWS_CLIENT_DISCONNECTING vhd (pendingDisconnects w) w)
       (\<lambda>(keep, sel). request_all sel (w\<lparr>pendingDisconnects := keep\<rparr>))"

definition processPendingWrites :: "ctx \<Rightarrow> ('a pipe_scheme, 'n) world \<Rightarrow> ub + ('a pipe_scheme, 'n) world" where
  "processPendingWrites vhd w =
     andthen (drain_pending LWS_CLIENT_CONNECTED vhd (pendingWrites w) w)
       (\<lambda>(keep, sel). request_all sel (w\<lparr>pendingWrites := keep\<rparr>))"

text \<open>The scan for the pipe of a handle stops when it is found; the sync-failed entries seen on
  the way are purged.\<close>

fun scan_connects :: "wsi \<Rightarrow> ptr list \<Rightarrow> ('a pipe_scheme, 'n) world \<Rightarrow> ub + ptr list \<times> ptr option" where
  "scan_connects x [] w = Inr ([], None)"
| "scan_connects x (ap # aps) w =
     andthen (deref w ap) (\<lambda>p.
       let purge = (if m_wsi p = None \<and> m_state p = LWS_CLIENT_FAILED then [ap] else [])
       in if m_state p = LWS_CLIENT_CONNECTING \<and> m_wsi p = Some x then Inr (purge, Some ap)
          else andthen (scan_connects x aps w) (\<lambda>(rm, r). Inr (purge @ rm, r)))"

definition findAndRemovePendingConnect ::
  "wsi \<Rightarrow> ('a pipe_scheme, 'n) world \<Rightarrow> ub + ptr option \<times> ('a pipe_scheme, 'n) world" where
  "findAndRemovePendingConnect x w =
     andthen (scan_connects x (pendingConnects w) w) (\<lambda>(rm, r).
       let l1 = filter (\<lambda>a. a \<notin> set rm) (pendingConnects w);
           l2 = (case r of None \<Rightarrow> l1 | Some ap \<Rightarrow> removeAll ap l1)
       in Inr (r, w\<lparr>pendingConnects := l2\<rparr>))"

fun findPendingConnect_in :: "wsi \<Rightarrow> ptr list \<Rightarrow> ('a pipe_scheme, 'n) world \<Rightarrow> ub + ptr option" where
  "findPendingConnect_in x [] w = Inr None"
| "findPendingConnect_in x (ap # aps) w =
     andthen (deref w ap) (\<lambda>p.
       if m_state p = LWS_CLIENT_CONNECTING \<and> m_wsi p = Some x then Inr (Some ap)
       else findPendingConnect_in x aps w)"

definition findPendingConnect :: "wsi \<Rightarrow> ('a pipe_scheme, 'n) world \<Rightarrow> ub + ptr option" where
  "findPendingConnect x w = findPendingConnect_in x (pendingConnects w) w"

section \<open>Handlers that are the same in both copies\<close>

definition on_wait_cancelled ::
  "('a pipe_scheme, 'n) note_fn \<Rightarrow> ctx \<Rightarrow> (ptr \<Rightarrow> wsi option) \<Rightarrow> ('a pipe_scheme, 'n) world
     \<Rightarrow> ub + ('a pipe_scheme, 'n) world" where
  "on_wait_cancelled note vhd conn w =
     andthen (processPendingConnects note vhd conn w) (\<lambda>w1.
     andthen (processPendingDisconnects vhd w1) (processPendingWrites vhd))"

definition on_connection_error ::
  "('a pipe_scheme, 'n) note_fn \<Rightarrow> wsi \<Rightarrow> string option \<Rightarrow> ('a pipe_scheme, 'n) world
     \<Rightarrow> ub + ('a pipe_scheme, 'n) world" where
  "on_connection_error note x in_msg w =
     andthen (findAndRemovePendingConnect x w) (\<lambda>(r, w1).
       case r of None \<Rightarrow> Inr w1 | Some ap \<Rightarrow> fail_connect note ap in_msg w1)"

definition on_closed ::
  "('a pipe_scheme, 'n) note_fn \<Rightarrow> wsi \<Rightarrow> ('a pipe_scheme, 'n) world \<Rightarrow> ub + ('a pipe_scheme, 'n) world" where
  "on_closed note x w =
     (case wsi_user w x of
        None \<Rightarrow> Inr w
      | Some ap \<Rightarrow>
          andthen (deref w ap) (\<lambda>p.
          andthen (if m_state p = LWS_CLIENT_DISCONNECTING
                     then notify note ap CONNECTION_CLOSED_GRACEFULLY None w
                   else if m_state p = LWS_CLIENT_CONNECTED
                     then notify note ap CONNECTION_DROPPED None w
                   else Inr w) (\<lambda>w1.
          andthen (set_state ap LWS_CLIENT_DISCONNECTED w1) (\<lambda>w2.
          andthen (setClosed_at ap w2) (\<lambda>w3.
            Inr (w3\<lparr>wsi_user := (wsi_user w3)(x := None)\<rparr>))))))"

text \<open>The operations the media threads call.\<close>

definition bufferForSending :: "string \<Rightarrow> ptr \<Rightarrow> ('a pipe_scheme, 'n) world \<Rightarrow> ub + ('a pipe_scheme, 'n) world" where
  "bufferForSending text ap w =
     andthen (deref w ap) (\<lambda>p.
       if m_state p \<noteq> LWS_CLIENT_CONNECTED then Inr w
       else addPendingWrite ap (set_pipe ap (p\<lparr>m_metadata := m_metadata p @ text\<rparr>) w))"

definition unlockAudioBuffer :: "nat \<Rightarrow> ptr \<Rightarrow> ('a pipe_scheme, 'n) world \<Rightarrow> ub + ('a pipe_scheme, 'n) world" where
  "unlockAudioBuffer LWS_PRE ap w =
     andthen (deref w ap) (\<lambda>p.
       if m_audio_buffer_write_offset p > LWS_PRE then addPendingWrite ap w else Inr w)"

end
