(* ===== verification/PipeInv.thy ===== *)
theory PipeInv
  imports PipeWorld PipeRecv
begin

text \<open>
  The invariant of the shared world of pipes and its preservation by every operation both copies
  share. What a copy adds of its own is a predicate \<open>extra\<close> on its pipes; the locale
  \<open>pipe_extra\<close> states the one law it has to satisfy, and the lemmas are proved once inside it.
\<close>

section \<open>The invariant\<close>

definition in_message :: "'a pipe_scheme \<Rightarrow> bool" where
  "in_message p \<longleftrightarrow> m_recv_buf p \<noteq> None \<or> m_recv_buf_discarding p"

definition recv_ok :: "'a pipe_scheme \<Rightarrow> bool" where
  "recv_ok p \<longleftrightarrow> (if in_message p then \<exists>d. recv_mid d p else recv_idle p)"

definition attached :: "lws_state \<Rightarrow> bool" where
  "attached s \<longleftrightarrow> s \<in> {LWS_CLIENT_CONNECTED, LWS_CLIENT_DISCONNECTING}"

text \<open>Facts about one pipe alone, and about a pipe in its world. \<open>S\<close> holds the pipes that
  \<open>processPendingConnects\<close> has adopted and not yet connected.\<close>

definition pipe_ok :: "nat \<Rightarrow> 'a pipe_scheme \<Rightarrow> bool" where
  "pipe_ok pre p \<longleftrightarrow>
     promise_ok p \<and> (m_promise p \<longleftrightarrow> terminal (m_state p)) \<and> audio_ok pre p \<and> recv_ok p \<and>
     (m_state p = LWS_CLIENT_IDLE \<longrightarrow> m_vhd p = None \<and> m_wsi p = None) \<and>
     (attached (m_state p) \<longrightarrow> m_vhd p \<noteq> None)"

definition linked :: "ptr set \<Rightarrow> ('a pipe_scheme, 'n) world \<Rightarrow> ptr \<Rightarrow> 'a pipe_scheme \<Rightarrow> bool" where
  "linked S w ap p \<longleftrightarrow>
     (ap \<in> S \<longrightarrow> m_state p = LWS_CLIENT_CONNECTING \<and> m_vhd p = None \<and> m_wsi p = None \<and>
        ap \<in> set (pendingConnects w)) \<and>
     (ap \<notin> S \<and> m_state p = LWS_CLIENT_CONNECTING \<longrightarrow>
        ap \<in> set (pendingConnects w) \<and> (\<exists>x. m_wsi p = Some x \<and> wsi_ph w x = WOpening)) \<and>
     (attached (m_state p) \<longrightarrow>
        (\<exists>x. m_wsi p = Some x \<and> wsi_ph w x = WOpen \<and> wsi_user w x = Some ap)) \<and>
     (m_state p = LWS_CLIENT_DISCONNECTING \<and> \<not> m_gracefulShutdown p \<longrightarrow>
        ap \<in> set (pendingDisconnects w) \<or> the (m_wsi p) \<in> set (writable w)) \<and>
     (\<forall>x. m_wsi p = Some x \<longrightarrow> wsi_ph w x \<noteq> WNone)"

definition pending :: "('p, 'n) world \<Rightarrow> ptr set" where
  "pending w = set (pendingConnects w) \<union> set (pendingDisconnects w) \<union> set (pendingWrites w)"

definition world_ok ::
  "nat \<Rightarrow> ('a pipe_scheme \<Rightarrow> bool) \<Rightarrow> ptr set \<Rightarrow> ('a pipe_scheme, 'n) world \<Rightarrow> bool" where
  "world_ok pre extra S w \<longleftrightarrow>
     (\<forall>ap p. heap w ap = Some p \<longrightarrow> pipe_ok pre p \<and> extra p \<and> linked S w ap p) \<and>
     (\<forall>ap \<in> pending w \<union> S. heap w ap \<noteq> None) \<and>
     (\<forall>x ap. wsi_user w x = Some ap \<longrightarrow>
        (\<exists>p. heap w ap = Some p \<and> m_wsi p = Some x \<and> attached (m_state p))) \<and>
     (\<forall>ap aq p q x. heap w ap = Some p \<longrightarrow> heap w aq = Some q \<longrightarrow>
        m_wsi p = Some x \<longrightarrow> m_wsi q = Some x \<longrightarrow> ap = aq)"

lemma recv_ok_update [simp]:
  "recv_ok (p\<lparr>m_state := s\<rparr>) = recv_ok p" "recv_ok (p\<lparr>m_wsi := x\<rparr>) = recv_ok p"
  "recv_ok (p\<lparr>m_vhd := v\<rparr>) = recv_ok p" "recv_ok (p\<lparr>m_metadata := t\<rparr>) = recv_ok p"
  "recv_ok (p\<lparr>m_gracefulShutdown := g\<rparr>) = recv_ok p" "recv_ok (p\<lparr>m_promise := b\<rparr>) = recv_ok p"
  "recv_ok (p\<lparr>m_closeSignaled := b\<rparr>) = recv_ok p" "recv_ok (p\<lparr>m_audio_buffer := a\<rparr>) = recv_ok p"
  "recv_ok (p\<lparr>m_audio_buffer_write_offset := n\<rparr>) = recv_ok p"
  by (simp_all add: recv_ok_def in_message_def recv_mid_def recv_idle_def)

lemma audio_ok_update [simp]:
  "audio_ok pre (p\<lparr>m_state := s\<rparr>) = audio_ok pre p" "audio_ok pre (p\<lparr>m_wsi := x\<rparr>) = audio_ok pre p"
  "audio_ok pre (p\<lparr>m_vhd := v\<rparr>) = audio_ok pre p" "audio_ok pre (p\<lparr>m_metadata := t\<rparr>) = audio_ok pre p"
  "audio_ok pre (p\<lparr>m_gracefulShutdown := g\<rparr>) = audio_ok pre p"
  "audio_ok pre (p\<lparr>m_promise := b\<rparr>) = audio_ok pre p"
  "audio_ok pre (p\<lparr>m_closeSignaled := b\<rparr>) = audio_ok pre p"
  "audio_ok pre (p\<lparr>m_recv_buf := r\<rparr>) = audio_ok pre p"
  "audio_ok pre (p\<lparr>m_recv_buf_len := n\<rparr>) = audio_ok pre p"
  "audio_ok pre (p\<lparr>m_recv_buf_discarding := b\<rparr>) = audio_ok pre p"
  by (simp_all add: audio_ok_def)

lemma promise_ok_update [simp]:
  "promise_ok (p\<lparr>m_state := s\<rparr>) = promise_ok p" "promise_ok (p\<lparr>m_wsi := x\<rparr>) = promise_ok p"
  "promise_ok (p\<lparr>m_vhd := v\<rparr>) = promise_ok p" "promise_ok (p\<lparr>m_metadata := t\<rparr>) = promise_ok p"
  "promise_ok (p\<lparr>m_gracefulShutdown := g\<rparr>) = promise_ok p"
  "promise_ok (p\<lparr>m_audio_buffer := a\<rparr>) = promise_ok p"
  "promise_ok (p\<lparr>m_audio_buffer_write_offset := n\<rparr>) = promise_ok p"
  "promise_ok (p\<lparr>m_recv_buf := r\<rparr>) = promise_ok p"
  "promise_ok (p\<lparr>m_recv_buf_len := n\<rparr>) = promise_ok p"
  "promise_ok (p\<lparr>m_recv_buf_discarding := b\<rparr>) = promise_ok p"
  "promise_ok (p\<lparr>m_closeSignaled := b, m_promise := b\<rparr>)"
  by (simp_all add: promise_ok_def)

named_theorems world_simps

lemmas [world_simps] = deref_def set_pipe_def modify_def set_state_def notify_def
  lws_cancel_service_def setClosed_at_def fail_connect_def pending_def

lemma set_pipe_lists:
  "set_pipe ap q (w\<lparr>pendingConnects := l\<rparr>) = (set_pipe ap q w)\<lparr>pendingConnects := l\<rparr>"
  "set_pipe ap q (w\<lparr>pendingDisconnects := l\<rparr>) = (set_pipe ap q w)\<lparr>pendingDisconnects := l\<rparr>"
  "set_pipe ap q (w\<lparr>pendingWrites := l\<rparr>) = (set_pipe ap q w)\<lparr>pendingWrites := l\<rparr>"
  by (simp_all add: set_pipe_def world.equality)

lemma attached_simps [simp]:
  "attached LWS_CLIENT_CONNECTED" "attached LWS_CLIENT_DISCONNECTING"
  "\<not> attached LWS_CLIENT_IDLE" "\<not> attached LWS_CLIENT_CONNECTING" "\<not> attached LWS_CLIENT_FAILED"
  "\<not> attached LWS_CLIENT_DISCONNECTED"
  by (simp_all add: attached_def)

lemma terminal_simps [simp]:
  "terminal LWS_CLIENT_FAILED" "terminal LWS_CLIENT_DISCONNECTED"
  "\<not> terminal LWS_CLIENT_IDLE" "\<not> terminal LWS_CLIENT_CONNECTING"
  "\<not> terminal LWS_CLIENT_CONNECTED" "\<not> terminal LWS_CLIENT_DISCONNECTING"
  by (simp_all add: terminal_def)

lemma world_okD:
  assumes "world_ok pre extra S w" "heap w ap = Some p"
  shows "pipe_ok pre p" "extra p" "linked S w ap p"
  using assms by (simp_all add: world_ok_def)

lemma world_ok_pending:
  "world_ok pre extra S w \<Longrightarrow> ap \<in> pending w \<Longrightarrow> \<exists>p. heap w ap = Some p"
  unfolding world_ok_def by blast

lemma world_ok_adopted:
  "world_ok pre extra S w \<Longrightarrow> ap \<in> S \<Longrightarrow> \<exists>p. heap w ap = Some p"
  unfolding world_ok_def by blast

lemma world_ok_user:
  "world_ok pre extra S w \<Longrightarrow> wsi_user w x = Some ap \<Longrightarrow>
     \<exists>p. heap w ap = Some p \<and> m_wsi p = Some x \<and> attached (m_state p)"
  unfolding world_ok_def by blast

lemma world_ok_inj:
  "world_ok pre extra S w \<Longrightarrow> heap w ap = Some p \<Longrightarrow> heap w aq = Some q \<Longrightarrow>
     m_wsi p = Some x \<Longrightarrow> m_wsi q = Some x \<Longrightarrow> ap = aq"
  unfolding world_ok_def by blast

lemma world_okI:
  assumes "\<And>ap p. heap w ap = Some p \<Longrightarrow> pipe_ok pre p \<and> extra p \<and> linked S w ap p"
    and "\<And>ap. ap \<in> pending w \<or> ap \<in> S \<Longrightarrow> heap w ap \<noteq> None"
    and "\<And>x ap. wsi_user w x = Some ap \<Longrightarrow>
        \<exists>p. heap w ap = Some p \<and> m_wsi p = Some x \<and> attached (m_state p)"
    and "\<And>ap aq p q x. heap w ap = Some p \<Longrightarrow> heap w aq = Some q \<Longrightarrow>
        m_wsi p = Some x \<Longrightarrow> m_wsi q = Some x \<Longrightarrow> ap = aq"
  shows "world_ok pre extra S w"
  using assms unfolding world_ok_def by blast

text \<open>A pipe stays linked when the library's side is unchanged and it leaves no list it needs.\<close>

lemma linked_mono:
  assumes "linked S w ap p" "wsi_user w' = wsi_user w" "wsi_ph w' = wsi_ph w"
    and "ap \<in> set (pendingConnects w) \<Longrightarrow> m_state p = LWS_CLIENT_CONNECTING \<Longrightarrow>
      ap \<in> set (pendingConnects w')"
    and "m_state p = LWS_CLIENT_DISCONNECTING \<Longrightarrow> \<not> m_gracefulShutdown p \<Longrightarrow>
      ap \<in> set (pendingDisconnects w) \<or> the (m_wsi p) \<in> set (writable w) \<Longrightarrow>
      ap \<in> set (pendingDisconnects w') \<or> the (m_wsi p) \<in> set (writable w')"
  shows "linked S w' ap p"
  using assms unfolding linked_def by auto

text \<open>Fields outside the pending lists, the heap and the handles do not matter; live pipes may be
  added to the lists, and pipes that no longer need them may leave.\<close>

lemma world_ok_lists:
  assumes w: "world_ok pre extra S w"
    and eq: "heap w' = heap w" "wsi_user w' = wsi_user w" "wsi_ph w' = wsi_ph w"
    and live: "\<And>ap. ap \<in> pending w' \<Longrightarrow> ap \<in> pending w \<or> heap w ap \<noteq> None"
    and pc: "\<And>ap p. heap w ap = Some p \<Longrightarrow> ap \<in> set (pendingConnects w) \<Longrightarrow>
      m_state p = LWS_CLIENT_CONNECTING \<Longrightarrow> ap \<in> set (pendingConnects w')"
    and pd: "\<And>ap p. heap w ap = Some p \<Longrightarrow> m_state p = LWS_CLIENT_DISCONNECTING \<Longrightarrow>
      \<not> m_gracefulShutdown p \<Longrightarrow>
      ap \<in> set (pendingDisconnects w) \<or> the (m_wsi p) \<in> set (writable w) \<Longrightarrow>
      ap \<in> set (pendingDisconnects w') \<or> the (m_wsi p) \<in> set (writable w')"
  shows "world_ok pre extra S w'"
proof (rule world_okI)
  fix ap p assume "heap w' ap = Some p"
  then have h: "heap w ap = Some p" by (simp add: eq)
  show "pipe_ok pre p \<and> extra p \<and> linked S w' ap p"
    using world_okD [OF w h] linked_mono [OF world_okD(3) [OF w h] eq(2,3)] pc [OF h] pd [OF h]
    by blast
next
  fix ap assume "ap \<in> pending w' \<or> ap \<in> S"
  then show "heap w' ap \<noteq> None" using live w unfolding world_ok_def eq(1) by blast
qed (use w eq in \<open>auto simp: world_ok_def\<close>)

text \<open>Replacing one pipe, keeping its handle.\<close>

lemma world_ok_set_pipe:
  assumes w: "world_ok pre extra S w" and h: "heap w ap = Some p"
    and q: "pipe_ok pre q" "extra q" "linked S w ap q" "m_wsi q = m_wsi p"
      "attached (m_state p) \<Longrightarrow> attached (m_state q)"
  shows "world_ok pre extra S (set_pipe ap q w)"
proof (rule world_okI)
  fix a p' assume "heap (set_pipe ap q w) a = Some p'"
  then show "pipe_ok pre p' \<and> extra p' \<and> linked S (set_pipe ap q w) a p'"
    using q world_okD [OF w, of a p']
    by (auto simp: set_pipe_def linked_def split: if_splits)
next
  fix a assume "a \<in> pending (set_pipe ap q w) \<or> a \<in> S"
  then show "heap (set_pipe ap q w) a \<noteq> None"
    using w by (auto simp: set_pipe_def world_ok_def pending_def)
next
  fix x a assume "wsi_user (set_pipe ap q w) x = Some a"
  then have "wsi_user w x = Some a" by (simp add: set_pipe_def)
  from world_ok_user [OF w this] show "\<exists>p. heap (set_pipe ap q w) a = Some p \<and>
      m_wsi p = Some x \<and> attached (m_state p)"
    using h q(4,5) by (auto simp: set_pipe_def)
next
  fix a b p1 p2 x
  assume "heap (set_pipe ap q w) a = Some p1" "heap (set_pipe ap q w) b = Some p2"
    "m_wsi p1 = Some x" "m_wsi p2 = Some x"
  then show "a = b"
    using h q(4) world_ok_inj [OF w] by (fastforce simp: set_pipe_def split: if_splits)
qed

text \<open>Everything but the pipe \<open>ap\<close> is in order, and no handle points to it.\<close>

definition world_ok_but ::
  "nat \<Rightarrow> ('a pipe_scheme \<Rightarrow> bool) \<Rightarrow> ptr \<Rightarrow> ptr set \<Rightarrow> ('a pipe_scheme, 'n) world \<Rightarrow> bool" where
  "world_ok_but pre extra ap S w \<longleftrightarrow>
     (\<forall>a p. heap w a = Some p \<longrightarrow> a \<noteq> ap \<longrightarrow> pipe_ok pre p \<and> extra p \<and> linked S w a p) \<and>
     (\<forall>a \<in> pending w \<union> S. heap w a \<noteq> None) \<and> ap \<notin> S \<and>
     (\<forall>x a. wsi_user w x = Some a \<longrightarrow> a \<noteq> ap \<and>
        (\<exists>p. heap w a = Some p \<and> m_wsi p = Some x \<and> attached (m_state p))) \<and>
     (\<forall>a b p q x. heap w a = Some p \<longrightarrow> heap w b = Some q \<longrightarrow>
        m_wsi p = Some x \<longrightarrow> m_wsi q = Some x \<longrightarrow> a = b)"

lemma world_ok_but_drop:
  assumes w: "world_ok pre extra (insert ap S) w \<or> world_ok pre extra S w" and s: "ap \<notin> S"
    and h: "heap w ap = Some p" "\<not> attached (m_state p)"
  shows "world_ok_but pre extra ap S w"
proof -
  obtain T where T: "T = S \<or> T = insert ap S" and w: "world_ok pre extra T w" using w by blast
  have "pipe_ok pre q \<and> extra q \<and> linked S w a q" if "heap w a = Some q" "a \<noteq> ap" for a q
    using world_okD [OF w that(1)] T that(2) by (auto simp: linked_def)
  moreover have "a \<noteq> ap \<and> (\<exists>p. heap w a = Some p \<and> m_wsi p = Some x \<and> attached (m_state p))"
    if "wsi_user w x = Some a" for x a
    using world_ok_user [OF w that] h by auto
  moreover have "\<forall>a \<in> pending w \<union> S. heap w a \<noteq> None" using w T unfolding world_ok_def by blast
  moreover have "\<forall>a b p q x. heap w a = Some p \<longrightarrow> heap w b = Some q \<longrightarrow>
      m_wsi p = Some x \<longrightarrow> m_wsi q = Some x \<longrightarrow> a = b"
    using world_ok_inj [OF w] by blast
  ultimately show ?thesis using s unfolding world_ok_but_def by blast
qed

lemma world_ok_butD:
  assumes "world_ok_but pre extra ap S w"
  shows "heap w a = Some p \<Longrightarrow> a \<noteq> ap \<Longrightarrow> pipe_ok pre p \<and> extra p \<and> linked S w a p"
    and "a \<in> pending w \<or> a \<in> S \<Longrightarrow> heap w a \<noteq> None" and "ap \<notin> S"
    and "wsi_user w x = Some a \<Longrightarrow> a \<noteq> ap"
    and "wsi_user w x = Some a \<Longrightarrow> \<exists>p. heap w a = Some p \<and> m_wsi p = Some x \<and> attached (m_state p)"
    and "heap w a = Some p \<Longrightarrow> heap w b = Some q \<Longrightarrow> m_wsi p = Some x \<Longrightarrow> m_wsi q = Some x \<Longrightarrow> a = b"
  using assms unfolding world_ok_but_def by blast+

lemma world_ok_but_set:
  assumes w: "world_ok_but pre extra ap S w" and h: "heap w ap = Some p"
    and q: "pipe_ok pre q" "extra q" "linked S w ap q" "\<not> attached (m_state q)"
      "m_wsi q = None \<or> m_wsi q = m_wsi p"
  shows "world_ok pre extra S (set_pipe ap q w)"
proof (rule world_okI)
  fix a p' assume "heap (set_pipe ap q w) a = Some p'"
  then show "pipe_ok pre p' \<and> extra p' \<and> linked S (set_pipe ap q w) a p'"
    using q world_ok_butD(1) [OF w, of a p'] by (auto simp: set_pipe_def linked_def split: if_splits)
next
  fix a assume "a \<in> pending (set_pipe ap q w) \<or> a \<in> S"
  then show "heap (set_pipe ap q w) a \<noteq> None"
    using world_ok_butD(2) [OF w, of a] by (auto simp: set_pipe_def pending_def)
next
  fix x a assume "wsi_user (set_pipe ap q w) x = Some a"
  then have "wsi_user w x = Some a" by (simp add: set_pipe_def)
  then show "\<exists>p. heap (set_pipe ap q w) a = Some p \<and> m_wsi p = Some x \<and> attached (m_state p)"
    using world_ok_butD(4,5) [OF w] by (simp add: set_pipe_def)
next
  fix a b p1 p2 x
  assume "heap (set_pipe ap q w) a = Some p1" "heap (set_pipe ap q w) b = Some p2"
    "m_wsi p1 = Some x" "m_wsi p2 = Some x"
  then show "a = b"
    using h q(5) world_ok_butD(6) [OF w] by (fastforce simp: set_pipe_def split: if_splits)
qed

text \<open>A pipe that \<open>processPendingConnects\<close> adopts is taken into \<open>S\<close>.\<close>

lemma world_ok_adopt:
  assumes w: "world_ok pre extra S w" and h: "heap w ap = Some p" "\<not> attached (m_state p)"
    and q: "pipe_ok pre q" "extra q" "linked (insert ap S) w ap q" "m_wsi q = None"
  shows "world_ok pre extra (insert ap S) (set_pipe ap q w)"
proof (rule world_okI)
  fix a p' assume "heap (set_pipe ap q w) a = Some p'"
  then show "pipe_ok pre p' \<and> extra p' \<and> linked (insert ap S) (set_pipe ap q w) a p'"
    using q world_okD [OF w, of a p'] by (auto simp: set_pipe_def linked_def split: if_splits)
next
  fix a assume "a \<in> pending (set_pipe ap q w) \<or> a \<in> insert ap S"
  then show "heap (set_pipe ap q w) a \<noteq> None"
    using w by (auto simp: set_pipe_def pending_def world_ok_def)
next
  fix x a assume "wsi_user (set_pipe ap q w) x = Some a"
  then have "wsi_user w x = Some a" by (simp add: set_pipe_def)
  from world_ok_user [OF w this]
  show "\<exists>p. heap (set_pipe ap q w) a = Some p \<and> m_wsi p = Some x \<and> attached (m_state p)"
    using h by (auto simp: set_pipe_def)
next
  fix a b p1 p2 x
  assume "heap (set_pipe ap q w) a = Some p1" "heap (set_pipe ap q w) b = Some p2"
    "m_wsi p1 = Some x" "m_wsi p2 = Some x"
  then show "a = b"
    using q(4) world_ok_inj [OF w] by (fastforce simp: set_pipe_def split: if_splits)
qed

text \<open>Handles handed out by the library are new and distinct.\<close>

definition fresh_conn :: "(ptr \<Rightarrow> wsi option) \<Rightarrow> ptr list \<Rightarrow> ('p, 'n) world \<Rightarrow> bool" where
  "fresh_conn conn aps w \<longleftrightarrow>
     (\<forall>ap\<in>set aps. \<forall>x. conn ap = Some x \<longrightarrow> wsi_ph w x = WNone) \<and>
     (\<forall>ap\<in>set aps. \<forall>aq\<in>set aps. \<forall>x. conn ap = Some x \<longrightarrow> conn aq = Some x \<longrightarrow> ap = aq)"

section \<open>Operations of one pipe\<close>

text \<open>The law an extra predicate has to satisfy: it does not look at the shared fields beyond the
  state and the shutdown flag, and only the state CONNECTED can break it.\<close>

locale pipe_extra =
  fixes extra :: "'a pipe_scheme \<Rightarrow> bool"
  assumes extra_keep: "extra p \<Longrightarrow> pipe.more q = pipe.more p \<Longrightarrow>
    m_gracefulShutdown q = m_gracefulShutdown p \<Longrightarrow>
    m_state q = m_state p \<or> m_state q \<noteq> LWS_CLIENT_CONNECTED \<Longrightarrow> extra q"
begin

lemma addPendingWrite_ok:
  assumes "world_ok pre extra S w" "heap w ap = Some p" "m_vhd p \<noteq> None"
  shows "\<exists>w'. addPendingWrite ap w = Inr w' \<and> world_ok pre extra S w' \<and> heap w' = heap w \<and>
    wsi_user w' = wsi_user w \<and> wsi_ph w' = wsi_ph w"
proof -
  obtain c where c: "m_vhd p = Some c" using assms(3) by auto
  let ?w = "lws_cancel_service c (w\<lparr>pendingWrites := pendingWrites w @ [ap]\<rparr>)"
  have "addPendingWrite ap w = Inr ?w"
    using assms(2) c by (simp add: addPendingWrite_def deref_def vhd_context_def)
  moreover have "world_ok pre extra S ?w"
    by (rule world_ok_lists [OF assms(1)]) (auto simp: world_simps assms(2))
  ultimately show ?thesis by (simp add: lws_cancel_service_def)
qed

lemma addPendingDisconnect_ok:
  assumes w: "world_ok pre extra {} w" and h: "heap w ap = Some p"
  shows "\<exists>w'. addPendingDisconnect ap w = Inr w' \<and> world_ok pre extra {} w' \<and>
    wsi_user w' = wsi_user w \<and> wsi_ph w' = wsi_ph w \<and> notifications w' = notifications w \<and>
    heap w' = (if m_state p = LWS_CLIENT_CONNECTED
      then (heap w)(ap := Some (p\<lparr>m_state := LWS_CLIENT_DISCONNECTING\<rparr>)) else heap w)"
proof (cases "m_state p = LWS_CLIENT_CONNECTED")
  case True
  then obtain c where c: "m_vhd p = Some c"
    using world_okD(1) [OF w h] by (auto simp: pipe_ok_def)
  let ?q = "p\<lparr>m_state := LWS_CLIENT_DISCONNECTING\<rparr>"
  let ?w1 = "w\<lparr>pendingDisconnects := pendingDisconnects w @ [ap]\<rparr>"
  have 1: "world_ok pre extra {} ?w1"
    by (rule world_ok_lists [OF w]) (auto simp: world_simps h)
  have "extra ?q" by (rule extra_keep [OF world_okD(2) [OF w h]]) simp_all
  moreover have "pipe_ok pre ?q"
    using world_okD(1) [OF w h] True by (simp add: pipe_ok_def)
  moreover have "linked {} ?w1 ap ?q"
    using world_okD(3) [OF w h] True by (simp add: linked_def)
  ultimately have "world_ok pre extra {} (set_pipe ap ?q ?w1)"
    using 1 h True by (intro world_ok_set_pipe [of _ _ _ _ _ p]) simp_all
  then have "world_ok pre extra {} (lws_cancel_service c (set_pipe ap ?q ?w1))"
    by (rule world_ok_lists) (simp_all add: world_simps)
  moreover have "addPendingDisconnect ap w = Inr (lws_cancel_service c (set_pipe ap ?q ?w1))"
    using h True c by (simp add: addPendingDisconnect_def deref_def vhd_context_def Let_def set_pipe_lists)
      (simp add: set_pipe_def)
  ultimately show ?thesis using True by (simp add: world_simps)
next
  case False
  then show ?thesis using w h by (simp add: addPendingDisconnect_def deref_def)
qed

lemma bufferForSending_ok:
  assumes w: "world_ok pre extra {} w" and h: "heap w ap = Some p"
  shows "\<exists>w'. bufferForSending text ap w = Inr w' \<and> world_ok pre extra {} w' \<and>
    wsi_user w' = wsi_user w \<and> wsi_ph w' = wsi_ph w \<and>
    heap w' = (if m_state p = LWS_CLIENT_CONNECTED
      then (heap w)(ap := Some (p\<lparr>m_metadata := m_metadata p @ text\<rparr>)) else heap w)"
proof (cases "m_state p = LWS_CLIENT_CONNECTED")
  case True
  let ?q = "p\<lparr>m_metadata := m_metadata p @ text\<rparr>"
  have "extra ?q" by (rule extra_keep [OF world_okD(2) [OF w h]]) simp_all
  moreover have "pipe_ok pre ?q" "m_vhd p \<noteq> None"
    using world_okD(1) [OF w h] True by (simp_all add: pipe_ok_def)
  moreover have "linked {} w ap ?q" using world_okD(3) [OF w h] by (simp add: linked_def)
  ultimately have w1: "world_ok pre extra {} (set_pipe ap ?q w)" and v: "m_vhd ?q \<noteq> None"
    using w h by (auto intro: world_ok_set_pipe)
  have "heap (set_pipe ap ?q w) ap = Some ?q" by (simp add: set_pipe_def)
  from addPendingWrite_ok [OF w1 this v] show ?thesis
    using h True by (auto simp: bufferForSending_def deref_def set_pipe_def)
next
  case False
  then show ?thesis using w h by (simp add: bufferForSending_def deref_def)
qed

lemma unlockAudioBuffer_ok:
  assumes "world_ok pre extra {} w" "heap w ap = Some p" "m_vhd p \<noteq> None"
  shows "\<exists>w'. unlockAudioBuffer pre ap w = Inr w' \<and> world_ok pre extra {} w'"
  using addPendingWrite_ok [OF assms] assms(1,2) by (auto simp: unlockAudioBuffer_def deref_def)

text \<open>Failing a connection that was never attached to a handle's user pointer.\<close>

lemma fail_connect_eq:
  assumes "heap w ap = Some p" "promise_ok p"
  shows "fail_connect note ap msg w = Inr (set_pipe ap (p\<lparr>m_state := LWS_CLIENT_FAILED,
      m_closeSignaled := True, m_promise := True\<rparr>)
    (w\<lparr>notifications := notifications w @ [(ap, note (p\<lparr>m_state := LWS_CLIENT_FAILED\<rparr>) CONNECT_FAIL msg)]\<rparr>))"
  using assms setClosed_ok [of "p\<lparr>m_state := LWS_CLIENT_FAILED\<rparr>"]
  by (simp add: world_simps)

lemma fail_connect_ok:
  assumes w: "world_ok_but pre extra ap S w" and h: "heap w ap = Some p"
    and p: "pipe_ok pre p \<or> pipe_ok pre (p\<lparr>m_vhd := None\<rparr>)" "extra p"
    and x: "\<And>x. m_wsi p = Some x \<Longrightarrow> wsi_ph w x \<noteq> WNone"
  shows "\<exists>w'. fail_connect note ap msg w = Inr w' \<and> world_ok pre extra S w' \<and>
    wsi_user w' = wsi_user w \<and> wsi_ph w' = wsi_ph w \<and> pendingConnects w' = pendingConnects w \<and>
    heap w' = (heap w)(ap := Some (p\<lparr>m_state := LWS_CLIENT_FAILED, m_closeSignaled := True,
      m_promise := True\<rparr>))"
proof -
  let ?q = "p\<lparr>m_state := LWS_CLIENT_FAILED, m_closeSignaled := True, m_promise := True\<rparr>"
  let ?n = "w\<lparr>notifications := notifications w
    @ [(ap, note (p\<lparr>m_state := LWS_CLIENT_FAILED\<rparr>) CONNECT_FAIL msg)]\<rparr>"
  have "extra ?q" by (rule extra_keep [OF p(2)]) simp_all
  moreover have "pipe_ok pre ?q" using p(1) by (auto simp: pipe_ok_def)
  moreover have "linked S w ap ?q"
    using x w by (simp add: linked_def world_ok_but_def)
  ultimately have "world_ok pre extra S (set_pipe ap ?q w)"
    using w h by (intro world_ok_but_set [of _ _ _ _ _ p]) simp_all
  then have "world_ok pre extra S (set_pipe ap ?q ?n)"
    by (rule world_ok_lists) (auto simp: world_simps)
  moreover have "promise_ok p" using p(1) by (auto simp: pipe_ok_def)
  ultimately show ?thesis using fail_connect_eq [OF h, of "note" msg] by (auto simp: set_pipe_def)
qed

lemma adopt_idle_ok:
  assumes "world_ok pre extra S w" "set aps \<subseteq> set (pendingConnects w)"
  shows "\<exists>cs w'. adopt_idle aps w = Inr (cs, w') \<and> world_ok pre extra (S \<union> set cs) w' \<and>
    distinct cs \<and> set cs \<inter> S = {} \<and> wsi_ph w' = wsi_ph w"
  using assms
proof (induction aps arbitrary: S w)
  case (Cons ap aps)
  obtain p where h: "heap w ap = Some p"
    using world_ok_pending [OF Cons.prems(1), of ap] Cons.prems(2) by (auto simp: pending_def)
  show ?case
  proof (cases "m_state p = LWS_CLIENT_IDLE")
    case True
    let ?q = "p\<lparr>m_state := LWS_CLIENT_CONNECTING\<rparr>"
    let ?w = "set_pipe ap ?q w"
    note p = world_okD [OF Cons.prems(1) h]
    have "ap \<notin> S" using p(3) True by (auto simp: linked_def)
    have "extra ?q" by (rule extra_keep [OF p(2)]) simp_all
    moreover have "pipe_ok pre ?q" using p(1) True by (simp add: pipe_ok_def)
    moreover have "linked (insert ap S) w ap ?q" "m_wsi ?q = None"
      using p True Cons.prems(2) by (simp_all add: linked_def pipe_ok_def)
    ultimately have "world_ok pre extra (insert ap S) ?w"
      using Cons.prems(1) h True by (intro world_ok_adopt [of _ _ _ _ _ p]) simp_all
    from Cons.IH [OF this] Cons.prems(2) obtain cs w' where
      "adopt_idle aps ?w = Inr (cs, w')" "world_ok pre extra (insert ap S \<union> set cs) w'"
      "distinct cs" "set cs \<inter> insert ap S = {}" "wsi_ph w' = wsi_ph w"
      by (auto simp: set_pipe_def)
    then show ?thesis using h True \<open>ap \<notin> S\<close> by (auto simp: deref_def)
  next
    case False
    then show ?thesis using Cons.IH [OF Cons.prems(1)] Cons.prems(2) h by (simp add: deref_def)
  qed
qed simp

lemma connect_all_ok:
  assumes "world_ok pre extra (S \<union> set aps) w" "distinct aps" "set aps \<inter> S = {}" "fresh_conn conn aps w"
  shows "\<exists>w'. connect_all note vhd conn aps w = Inr w' \<and> world_ok pre extra S w'"
  using assms
proof (induction aps arbitrary: w)
  case (Cons ap aps)
  let ?S = "S \<union> set aps"
  have notin: "ap \<notin> ?S" using Cons.prems(2,3) by auto
  have ok: "world_ok pre extra (insert ap ?S) w" using Cons.prems(1) by simp
  then obtain p where h: "heap w ap = Some p" by (auto simp: world_ok_def)
  note p = world_okD [OF ok h]
  have conn: "m_state p = LWS_CLIENT_CONNECTING" "m_vhd p = None" "m_wsi p = None"
    "ap \<in> set (pendingConnects w)"
    using p(3) by (auto simp: linked_def)
  have but: "world_ok_but pre extra ap ?S w"
    using world_ok_but_drop [OF _ notin h] ok conn(1) by simp
  let ?q = "p\<lparr>m_state := LWS_CLIENT_CONNECTING, m_vhd := Some vhd, m_wsi := conn ap\<rparr>"
  have q: "extra ?q" "pipe_ok pre ?q"
    using p conn extra_keep [of p ?q] by (simp_all add: pipe_ok_def)
  show ?case
  proof (cases "conn ap")
    case None
    let ?w = "set_pipe ap ?q w"
    have "world_ok_but pre extra ap ?S ?w"
      using but h conn None unfolding world_ok_but_def linked_def set_pipe_def pending_def
      by (auto split: if_splits)
    from fail_connect_ok [OF this, of ?q "note" "Some ''connect_client failed''"] q None
    obtain w' where w': "fail_connect note ap (Some ''connect_client failed'') ?w = Inr w'"
      "world_ok pre extra ?S w'" "wsi_ph w' = wsi_ph w"
      by (auto simp: set_pipe_def)
    have "fresh_conn conn aps w'" using Cons.prems(4) w'(3) by (auto simp: fresh_conn_def)
    with Cons.IH [OF w'(2)] Cons.prems(2,3) obtain w'' where
      "connect_all note vhd conn aps w' = Inr w''" "world_ok pre extra S w''" by auto
    then show ?thesis
      using h conn None w'(1) by (simp add: connect_client_def deref_def lws_client_connect_via_info_def)
  next
    case (Some x)
    let ?w = "(set_pipe ap ?q w)\<lparr>wsi_ph := (wsi_ph w)(x := WOpening)\<rparr>"
    have xN: "wsi_ph w x = WNone" using Cons.prems(4) Some by (auto simp: fresh_conn_def)
    have other: "m_wsi p' \<noteq> Some x" if "heap w a = Some p'" for a p'
      using world_okD(3) [OF ok that] xN by (auto simp: linked_def)
    have "world_ok pre extra ?S ?w"
    proof (rule world_okI)
      fix a p' assume a: "heap ?w a = Some p'"
      show "pipe_ok pre p' \<and> extra p' \<and> linked ?S ?w a p'"
      proof (cases "a = ap")
        case True
        then show ?thesis using a q conn notin Some by (auto simp: set_pipe_def linked_def)
      next
        case False
        then have "heap w a = Some p'" using a by (simp add: set_pipe_def)
        with False world_okD [OF ok this] other [OF this] show ?thesis
          by (auto simp: linked_def set_pipe_def)
      qed
    next
      fix a assume "a \<in> pending ?w \<or> a \<in> ?S"
      then show "heap ?w a \<noteq> None" using ok by (auto simp: set_pipe_def world_ok_def pending_def)
    next
      fix y a assume "wsi_user ?w y = Some a"
      then show "\<exists>p. heap ?w a = Some p \<and> m_wsi p = Some y \<and> attached (m_state p)"
        using world_ok_user [OF ok, of y a] h conn(1) by (auto simp: set_pipe_def)
    next
      fix a b p1 p2 y
      assume "heap ?w a = Some p1" "heap ?w b = Some p2" "m_wsi p1 = Some y" "m_wsi p2 = Some y"
      then show "a = b"
        using world_ok_inj [OF ok] other Some by (fastforce simp: set_pipe_def split: if_splits)
    qed
    moreover have "fresh_conn conn aps ?w"
      using Cons.prems(2,4) Some by (auto simp: fresh_conn_def)
    ultimately obtain w'' where
      "connect_all note vhd conn aps ?w = Inr w''" "world_ok pre extra S w''"
      using Cons.IH [of ?w] Cons.prems(2,3) by auto
    then show ?thesis
      using h conn Some by (simp add: connect_client_def deref_def lws_client_connect_via_info_def
          set_pipe_def)
  qed
qed simp

end

end
