(* ===== verification/PipeSteps.thy ===== *)
theory PipeSteps
  imports PipeInv
begin

text \<open>
  Preservation of the world invariant by the handlers of the service thread that both copies
  share, and by construction, destruction, reception and the media threads' audio writes.
\<close>

section \<open>The common loops\<close>

lemma drain_pending_ok:
  assumes "\<And>ap. ap \<in> set aps \<Longrightarrow> heap w ap \<noteq> None"
  shows "\<exists>keep sel. drain_pending s vhd aps w = Inr (keep, sel) \<and> set keep \<subseteq> set aps \<and>
    set sel \<subseteq> {ap \<in> set aps. \<exists>p. heap w ap = Some p \<and> m_state p = s} \<and>
    (\<forall>ap p. ap \<in> set aps \<longrightarrow> heap w ap = Some p \<longrightarrow> m_state p = s \<longrightarrow> ap \<in> set keep \<or> ap \<in> set sel) \<and>
    (\<forall>ap p. ap \<in> set aps \<longrightarrow> heap w ap = Some p \<longrightarrow> m_vhd p = Some vhd \<longrightarrow> m_state p = s \<longrightarrow> ap \<in> set sel)"
  using assms
proof (induction aps)
  case (Cons ap aps)
  obtain keep sel where IH: "drain_pending s vhd aps w = Inr (keep, sel)" "set keep \<subseteq> set aps"
    "set sel \<subseteq> {ap \<in> set aps. \<exists>p. heap w ap = Some p \<and> m_state p = s}"
    "\<forall>ap p. ap \<in> set aps \<longrightarrow> heap w ap = Some p \<longrightarrow> m_state p = s \<longrightarrow> ap \<in> set keep \<or> ap \<in> set sel"
    "\<forall>ap p. ap \<in> set aps \<longrightarrow> heap w ap = Some p \<longrightarrow> m_vhd p = Some vhd \<longrightarrow> m_state p = s \<longrightarrow> ap \<in> set sel"
    using Cons.IH Cons.prems by (fastforce simp del: not_None_eq)
  obtain p where "heap w ap = Some p" using Cons.prems [of ap] by auto
  with IH show ?case by (auto simp: deref_def)
qed simp

lemma request_all_ok:
  assumes "\<And>ap. ap \<in> set aps \<Longrightarrow>
    \<exists>p x. heap w ap = Some p \<and> m_wsi p = Some x \<and> wsi_ph w x = WOpen"
  shows "request_all aps w
    = Inr (w\<lparr>writable := writable w @ map (\<lambda>ap. the (m_wsi (the (heap w ap)))) aps\<rparr>)"
  using assms
proof (induction aps arbitrary: w)
  case (Cons ap aps)
  obtain p x where p: "heap w ap = Some p" "m_wsi p = Some x" "wsi_ph w x = WOpen"
    using Cons.prems [of ap] by auto
  let ?w = "w\<lparr>writable := writable w @ [x]\<rparr>"
  have "request_all aps ?w
      = Inr (?w\<lparr>writable := writable ?w @ map (\<lambda>ap. the (m_wsi (the (heap ?w ap)))) aps\<rparr>)"
    using Cons.prems by (intro Cons.IH) simp
  with p show ?case by (simp add: deref_def lws_callback_on_writable_def)
qed simp

lemma world_ok_open:
  assumes "world_ok pre extra S w" "heap w ap = Some p" "attached (m_state p)"
  shows "\<exists>x. m_wsi p = Some x \<and> wsi_ph w x = WOpen \<and> wsi_user w x = Some ap"
  using world_okD(3) [OF assms(1,2)] assms(3) by (simp add: linked_def)

definition request_world :: "ptr list \<Rightarrow> ('a pipe_scheme, 'n) world \<Rightarrow> ('a pipe_scheme, 'n) world" where
  "request_world aps w =
     w\<lparr>writable := writable w @ map (\<lambda>ap. the (m_wsi (the (heap w ap)))) aps\<rparr>"

lemma request_world_simps [simp]:
  "heap (request_world aps w) = heap w" "wsi_user (request_world aps w) = wsi_user w"
  "wsi_ph (request_world aps w) = wsi_ph w"
  "pendingConnects (request_world aps w) = pendingConnects w"
  "pendingDisconnects (request_world aps w) = pendingDisconnects w"
  "pendingWrites (request_world aps w) = pendingWrites w"
  "set (writable (request_world aps w))
     = set (writable w) \<union> (\<lambda>ap. the (m_wsi (the (heap w ap)))) ` set aps"
  by (simp_all add: request_world_def)

lemma processPendingDisconnects_ok:
  assumes w: "world_ok pre extra {} w"
  shows "\<exists>w'. processPendingDisconnects vhd w = Inr w' \<and> world_ok pre extra {} w' \<and>
    heap w' = heap w \<and> wsi_user w' = wsi_user w \<and> wsi_ph w' = wsi_ph w \<and>
    set (writable w) \<subseteq> set (writable w') \<and>
    (\<forall>ap p x. heap w ap = Some p \<longrightarrow> ap \<in> set (pendingDisconnects w) \<longrightarrow> m_vhd p = Some vhd \<longrightarrow>
      m_state p = LWS_CLIENT_DISCONNECTING \<longrightarrow> m_wsi p = Some x \<longrightarrow> x \<in> set (writable w'))"
proof -
  have alive: "heap w ap \<noteq> None" if "ap \<in> set (pendingDisconnects w)" for ap
    using world_ok_pending [OF w, of ap] that by (auto simp: pending_def)
  obtain keep sel where d: "drain_pending LWS_CLIENT_DISCONNECTING vhd (pendingDisconnects w) w = Inr (keep, sel)"
    "set keep \<subseteq> set (pendingDisconnects w)"
    "set sel \<subseteq> {ap \<in> set (pendingDisconnects w). \<exists>p. heap w ap = Some p \<and> m_state p = LWS_CLIENT_DISCONNECTING}"
    "\<And>ap p. ap \<in> set (pendingDisconnects w) \<Longrightarrow> heap w ap = Some p \<Longrightarrow> m_state p = LWS_CLIENT_DISCONNECTING
      \<Longrightarrow> ap \<in> set keep \<or> ap \<in> set sel"
    "\<And>ap p. ap \<in> set (pendingDisconnects w) \<Longrightarrow> heap w ap = Some p \<Longrightarrow> m_vhd p = Some vhd \<Longrightarrow>
      m_state p = LWS_CLIENT_DISCONNECTING \<Longrightarrow> ap \<in> set sel"
    using drain_pending_ok [OF alive] by blast
  let ?w = "request_world sel (w\<lparr>pendingDisconnects := keep\<rparr>)"
  have sel: "\<exists>p x. heap w ap = Some p \<and> m_wsi p = Some x \<and> wsi_ph w x = WOpen" if "ap \<in> set sel" for ap
    using d(3) that world_ok_open [OF w] by fastforce
  have "processPendingDisconnects vhd w = Inr ?w"
    using d(1) request_all_ok [of sel "w\<lparr>pendingDisconnects := keep\<rparr>"] sel
    by (simp add: processPendingDisconnects_def request_world_def)
  moreover have "world_ok pre extra {} ?w"
  proof (rule world_ok_lists [OF w])
    fix ap p assume "heap w ap = Some p" "m_state p = LWS_CLIENT_DISCONNECTING"
      "ap \<in> set (pendingDisconnects w) \<or> the (m_wsi p) \<in> set (writable w)"
    then show "ap \<in> set (pendingDisconnects ?w) \<or> the (m_wsi p) \<in> set (writable ?w)"
      using d(4) by force
  qed (use d(2) in \<open>auto simp: pending_def\<close>)
  moreover have "x \<in> set (writable ?w)" if "heap w ap = Some p" "ap \<in> set (pendingDisconnects w)"
    "m_vhd p = Some vhd" "m_state p = LWS_CLIENT_DISCONNECTING" "m_wsi p = Some x" for ap p x
    using d(5) [OF that(2,1,3,4)] that(1,5) by force
  ultimately show ?thesis by (intro exI [of _ ?w]) simp
qed

lemma processPendingWrites_ok:
  assumes w: "world_ok pre extra {} w"
  shows "\<exists>w'. processPendingWrites vhd w = Inr w' \<and> world_ok pre extra {} w' \<and>
    heap w' = heap w \<and> wsi_user w' = wsi_user w \<and> wsi_ph w' = wsi_ph w \<and>
    set (writable w) \<subseteq> set (writable w') \<and>
    (\<forall>ap p x. heap w ap = Some p \<longrightarrow> ap \<in> set (pendingWrites w) \<longrightarrow> m_vhd p = Some vhd \<longrightarrow>
      m_state p = LWS_CLIENT_CONNECTED \<longrightarrow> m_wsi p = Some x \<longrightarrow> x \<in> set (writable w'))"
proof -
  have alive: "heap w ap \<noteq> None" if "ap \<in> set (pendingWrites w)" for ap
    using world_ok_pending [OF w, of ap] that by (auto simp: pending_def)
  obtain keep sel where d: "drain_pending LWS_CLIENT_CONNECTED vhd (pendingWrites w) w = Inr (keep, sel)"
    "set keep \<subseteq> set (pendingWrites w)"
    "set sel \<subseteq> {ap \<in> set (pendingWrites w). \<exists>p. heap w ap = Some p \<and> m_state p = LWS_CLIENT_CONNECTED}"
    "\<And>ap p. ap \<in> set (pendingWrites w) \<Longrightarrow> heap w ap = Some p \<Longrightarrow> m_vhd p = Some vhd \<Longrightarrow>
      m_state p = LWS_CLIENT_CONNECTED \<Longrightarrow> ap \<in> set sel"
    using drain_pending_ok [OF alive] by blast
  let ?w = "request_world sel (w\<lparr>pendingWrites := keep\<rparr>)"
  have sel: "\<exists>p x. heap w ap = Some p \<and> m_wsi p = Some x \<and> wsi_ph w x = WOpen" if "ap \<in> set sel" for ap
    using d(3) that world_ok_open [OF w] by fastforce
  have "processPendingWrites vhd w = Inr ?w"
    using d(1) request_all_ok [of sel "w\<lparr>pendingWrites := keep\<rparr>"] sel
    by (simp add: processPendingWrites_def request_world_def)
  moreover have "world_ok pre extra {} ?w"
    by (rule world_ok_lists [OF w]) (use d(2) in \<open>auto simp: pending_def\<close>)
  moreover have "x \<in> set (writable ?w)" if "heap w ap = Some p" "ap \<in> set (pendingWrites w)"
    "m_vhd p = Some vhd" "m_state p = LWS_CLIENT_CONNECTED" "m_wsi p = Some x" for ap p x
    using d(4) [OF that(2,1,3,4)] that(1,5) by force
  ultimately show ?thesis by (intro exI [of _ ?w]) simp
qed

section \<open>Looking up a connecting pipe\<close>

definition connecting_on :: "wsi \<Rightarrow> ('a pipe_scheme, 'n) world \<Rightarrow> ptr \<Rightarrow> bool" where
  "connecting_on x w ap \<longleftrightarrow>
     (case heap w ap of None \<Rightarrow> False
      | Some p \<Rightarrow> m_state p = LWS_CLIENT_CONNECTING \<and> m_wsi p = Some x)"

lemma scan_connects_ok:
  assumes "\<And>ap. ap \<in> set aps \<Longrightarrow> heap w ap \<noteq> None"
  shows "\<exists>rm r. scan_connects x aps w = Inr (rm, r) \<and>
    (\<forall>ap\<in>set rm. \<exists>p. heap w ap = Some p \<and> m_state p = LWS_CLIENT_FAILED) \<and>
    (case r of Some ap \<Rightarrow> ap \<in> set aps \<and> connecting_on x w ap
     | None \<Rightarrow> \<forall>ap\<in>set aps. \<not> connecting_on x w ap)"
  using assms
proof (induction aps)
  case (Cons ap aps)
  obtain rm r where IH: "scan_connects x aps w = Inr (rm, r)"
    "\<forall>ap\<in>set rm. \<exists>p. heap w ap = Some p \<and> m_state p = LWS_CLIENT_FAILED"
    "case r of Some ap \<Rightarrow> ap \<in> set aps \<and> connecting_on x w ap
     | None \<Rightarrow> \<forall>ap\<in>set aps. \<not> connecting_on x w ap"
    using Cons.IH Cons.prems by (fastforce simp del: not_None_eq)
  obtain p where "heap w ap = Some p" using Cons.prems [of ap] by auto
  with IH show ?case by (auto simp: deref_def Let_def connecting_on_def split: option.splits)
qed simp

lemma findPendingConnect_ok:
  assumes "world_ok pre extra {} w"
  shows "\<exists>r. findPendingConnect x w = Inr r \<and> (\<forall>ap. r = Some ap \<longrightarrow> connecting_on x w ap)"
proof -
  have "\<exists>r. findPendingConnect_in x aps w = Inr r \<and> (\<forall>ap. r = Some ap \<longrightarrow> connecting_on x w ap)"
    if "\<And>ap. ap \<in> set aps \<Longrightarrow> heap w ap \<noteq> None" for aps
    using that
    by (induction aps) (fastforce simp: deref_def connecting_on_def)+
  moreover have "heap w ap \<noteq> None" if "ap \<in> set (pendingConnects w)" for ap
    using world_ok_pending [OF assms, of ap] that by (auto simp: pending_def)
  ultimately show ?thesis by (simp add: findPendingConnect_def)
qed

text \<open>The pipe found is the one of the handle; it leaves the list, and everything else is as before.\<close>

lemma findAndRemovePendingConnect_ok:
  assumes w: "world_ok pre extra {} w"
  shows "\<exists>r w'. findAndRemovePendingConnect x w = Inr (r, w') \<and>
    w' = w\<lparr>pendingConnects := pendingConnects w'\<rparr> \<and>
    (case r of
       None \<Rightarrow> world_ok pre extra {} w' \<and> (\<forall>ap. \<not> connecting_on x w ap)
     | Some ap \<Rightarrow> world_ok_but pre extra ap {} w' \<and> connecting_on x w ap)"
proof -
  have alive: "heap w ap \<noteq> None" if "ap \<in> set (pendingConnects w)" for ap
    using world_ok_pending [OF w, of ap] that by (auto simp: pending_def)
  obtain rm r where s: "scan_connects x (pendingConnects w) w = Inr (rm, r)"
    "\<forall>ap\<in>set rm. \<exists>p. heap w ap = Some p \<and> m_state p = LWS_CLIENT_FAILED"
    "case r of Some ap \<Rightarrow> ap \<in> set (pendingConnects w) \<and> connecting_on x w ap
     | None \<Rightarrow> \<forall>ap\<in>set (pendingConnects w). \<not> connecting_on x w ap"
    using scan_connects_ok [OF alive] by blast
  let ?l1 = "filter (\<lambda>a. a \<notin> set rm) (pendingConnects w)"
  show ?thesis
  proof (cases r)
    case None
    let ?w = "w\<lparr>pendingConnects := ?l1\<rparr>"
    have "world_ok pre extra {} ?w"
      by (rule world_ok_lists [OF w]) (use s(2) in \<open>auto simp: pending_def\<close>)
    moreover have "\<not> connecting_on x w ap" for ap
      using s(3) None world_okD(3) [OF w, of ap] by (auto simp: linked_def connecting_on_def split: option.splits)
    ultimately show ?thesis using s(1) None by (simp add: findAndRemovePendingConnect_def)
  next
    case (Some ap)
    with s(3) have c: "connecting_on x w ap" by simp
    then obtain p where p: "heap w ap = Some p" "m_state p = LWS_CLIENT_CONNECTING"
      by (auto simp: connecting_on_def split: option.splits)
    let ?w = "w\<lparr>pendingConnects := removeAll ap ?l1\<rparr>"
    have but: "world_ok_but pre extra ap {} w"
      using world_ok_but_drop [of pre extra ap "{}" w p] w p by simp
    have keep: "linked {} ?w a q" if a: "heap w a = Some q" "a \<noteq> ap" for a q
    proof (rule linked_mono [OF world_okD(3) [OF w a(1)]])
      assume "a \<in> set (pendingConnects w)" "m_state q = LWS_CLIENT_CONNECTING"
      then show "a \<in> set (pendingConnects ?w)" using s(2) a by force
    qed simp_all
    have "world_ok_but pre extra ap {} ?w"
      using but keep unfolding world_ok_but_def by (auto simp: pending_def)
    then show ?thesis using s(1) Some c by (simp add: findAndRemovePendingConnect_def)
  qed
qed

section \<open>The shared handlers\<close>

lemma fresh_conn_subset:
  "set cs \<subseteq> set aps \<Longrightarrow> fresh_conn conn aps w \<Longrightarrow> wsi_ph w1 = wsi_ph w \<Longrightarrow> fresh_conn conn cs w1"
  unfolding fresh_conn_def by (metis subsetD)

context pipe_extra
begin

lemma on_wait_cancelled_ok:
  assumes w: "world_ok pre extra {} w" and c: "fresh_conn conn (pendingConnects w) w"
  shows "\<exists>w'. on_wait_cancelled note vhd conn w = Inr w' \<and> world_ok pre extra {} w'"
proof -
  obtain cs w1 where a: "adopt_idle (pendingConnects w) w = Inr (cs, w1)"
    "world_ok pre extra ({} \<union> set cs) w1" "distinct cs" "set cs \<inter> {} = {}" "wsi_ph w1 = wsi_ph w"
    using adopt_idle_ok [OF w subset_refl] by blast
  have "set cs \<subseteq> set (pendingConnects w)"
    using a(1)
  proof -
    have "adopt_idle aps v = Inr (cs, v') \<Longrightarrow> set cs \<subseteq> set aps" for aps and v v' :: "('a pipe_scheme, 'd) world" and cs
      by (induction aps arbitrary: v cs) (fastforce simp: andthen_Inr_iff split: if_splits)+
    then show ?thesis using a(1) .
  qed
  then have "fresh_conn conn cs w1"
    using c a(5) by (rule_tac fresh_conn_subset) simp_all
  from connect_all_ok [OF _ a(3) _ this, of pre "{}" "note" vhd] a(2)
  obtain w2 where w2: "connect_all note vhd conn cs w1 = Inr w2" "world_ok pre extra {} w2"
    by auto
  obtain w3 where w3: "processPendingDisconnects vhd w2 = Inr w3" "world_ok pre extra {} w3"
    using processPendingDisconnects_ok [OF w2(2), of vhd] by blast
  obtain w4 where "processPendingWrites vhd w3 = Inr w4" "world_ok pre extra {} w4"
    using processPendingWrites_ok [OF w3(2), of vhd] by blast
  then show ?thesis
    using a(1) w2(1) w3(1) by (simp add: on_wait_cancelled_def processPendingConnects_def)
qed

text \<open>A handle leaves its opening phase.\<close>

lemma world_ok_phase:
  assumes w: "world_ok pre extra {} w" and "ph \<noteq> WNone"
    and x: "\<And>ap. \<not> connecting_on x w ap" "\<And>ap p. heap w ap = Some p \<Longrightarrow> m_wsi p = Some x \<Longrightarrow>
      attached (m_state p) \<Longrightarrow> ph = WOpen"
  shows "world_ok pre extra {} (w\<lparr>wsi_ph := (wsi_ph w)(x := ph)\<rparr>)"
proof (rule world_okI)
  fix ap p assume "heap (w\<lparr>wsi_ph := (wsi_ph w)(x := ph)\<rparr>) ap = Some p"
  then have h: "heap w ap = Some p" by simp
  show "pipe_ok pre p \<and> extra p \<and> linked {} (w\<lparr>wsi_ph := (wsi_ph w)(x := ph)\<rparr>) ap p"
    using world_okD [OF w h] x(1) [of ap] x(2) [OF h] h assms(2)
    by (auto simp: linked_def connecting_on_def)
qed (use w in \<open>auto simp: world_ok_def pending_def\<close>)

lemma on_connection_error_ok:
  assumes w: "world_ok pre extra {} w" and x: "wsi_ph w x = WOpening"
  shows "\<exists>w'. on_connection_error note x msg w = Inr w' \<and>
    world_ok pre extra {} (w'\<lparr>wsi_ph := (wsi_ph w')(x := WClosed)\<rparr>)"
proof -
  obtain r w1 where f: "findAndRemovePendingConnect x w = Inr (r, w1)"
    "w1 = w\<lparr>pendingConnects := pendingConnects w1\<rparr>"
    "case r of None \<Rightarrow> world_ok pre extra {} w1 \<and> (\<forall>ap. \<not> connecting_on x w ap)
     | Some ap \<Rightarrow> world_ok_but pre extra ap {} w1 \<and> connecting_on x w ap"
    using findAndRemovePendingConnect_ok [OF w] by blast
  have h1: "heap w1 = heap w" "wsi_ph w1 = wsi_ph w"
    by (subst f(2), simp)+
  have closing: "\<not> attached (m_state p)" if "heap w a = Some p" "m_wsi p = Some x" for a p
    using world_okD(3) [OF w that(1)] that(2) x by (auto simp: linked_def)
  show ?thesis
  proof (cases r)
    case None
    with f(3) have "world_ok pre extra {} (w1\<lparr>wsi_ph := (wsi_ph w1)(x := WClosed)\<rparr>)"
      using closing h1 by (intro world_ok_phase) (auto simp: connecting_on_def)
    then show ?thesis using f(1) None by (simp add: on_connection_error_def)
  next
    case (Some ap)
    with f(3) have but: "world_ok_but pre extra ap {} w1" and c: "connecting_on x w ap" by simp_all
    then obtain p where p: "heap w ap = Some p" "m_state p = LWS_CLIENT_CONNECTING" "m_wsi p = Some x"
      by (auto simp: connecting_on_def split: option.splits)
    obtain w2 where w2: "fail_connect note ap msg w1 = Inr w2" "world_ok pre extra {} w2"
      "heap w2 = (heap w1)(ap := Some (p\<lparr>m_state := LWS_CLIENT_FAILED, m_closeSignaled := True,
        m_promise := True\<rparr>))"
      using fail_connect_ok [OF but, of p "note" msg] world_okD [OF w p(1)] p x h1 by auto
    have "m_wsi q \<noteq> Some x" if "heap w a = Some q" "a \<noteq> ap" for a q
      using world_ok_inj [OF w that(1) p(1) _ p(3)] that(2) by blast
    then have "world_ok pre extra {} (w2\<lparr>wsi_ph := (wsi_ph w2)(x := WClosed)\<rparr>)"
      using w2(2,3) h1 by (intro world_ok_phase)
        (auto simp: connecting_on_def split: if_splits option.splits)
    then show ?thesis using f(1) Some w2(1) by (simp add: on_connection_error_def)
  qed
qed

text \<open>CLOSED: what the handler leaves behind.\<close>

lemma on_closed_eq:
  assumes u: "wsi_user w x = Some ap" and h: "heap w ap = Some p"
    and p: "attached (m_state p)" "promise_ok p"
  shows "\<exists>ns. on_closed note x w = Inr (w\<lparr>heap := (heap w)(ap := Some (p\<lparr>m_state :=
      LWS_CLIENT_DISCONNECTED, m_closeSignaled := True, m_promise := True\<rparr>)),
      notifications := notifications w @ [(ap, note p ns None)],
      wsi_user := (wsi_user w)(x := None)\<rparr>) \<and>
    ns = (if m_state p = LWS_CLIENT_DISCONNECTING then CONNECTION_CLOSED_GRACEFULLY
          else CONNECTION_DROPPED)"
  using u h p setClosed_ok [of "p\<lparr>m_state := LWS_CLIENT_DISCONNECTED\<rparr>"]
  by (auto simp: on_closed_def world_simps attached_def)

lemma on_closed_ok:
  assumes w: "world_ok pre extra {} w" and x: "wsi_ph w x = WOpen"
  shows "\<exists>w'. on_closed note x w = Inr w' \<and>
    world_ok pre extra {} (w'\<lparr>wsi_ph := (wsi_ph w')(x := WClosed)\<rparr>)"
proof (cases "wsi_user w x")
  case None
  have "\<not> attached (m_state p) \<and> m_state p \<noteq> LWS_CLIENT_CONNECTING"
    if "heap w a = Some p" "m_wsi p = Some x" for a p
    using world_okD(3) [OF w that(1)] that(2) x None by (auto simp: linked_def)
  then have "world_ok pre extra {} (w\<lparr>wsi_ph := (wsi_ph w)(x := WClosed)\<rparr>)"
    using w by (intro world_ok_phase) (auto simp: connecting_on_def split: option.splits)
  then show ?thesis using None by (simp add: on_closed_def)
next
  case (Some ap)
  then obtain p where p: "heap w ap = Some p" "m_wsi p = Some x" "attached (m_state p)"
    using world_ok_user [OF w] by blast
  let ?q = "p\<lparr>m_state := LWS_CLIENT_DISCONNECTED, m_closeSignaled := True, m_promise := True\<rparr>"
  obtain ns where ns: "on_closed note x w = Inr (w\<lparr>heap := (heap w)(ap := Some ?q),
      notifications := ns, wsi_user := (wsi_user w)(x := None)\<rparr>)"
    using on_closed_eq [OF Some p(1,3), of "note"] world_okD(1) [OF w p(1)]
    by (auto simp: pipe_ok_def)
  let ?w = "w\<lparr>heap := (heap w)(ap := Some ?q), notifications := ns,
    wsi_user := (wsi_user w)(x := None), wsi_ph := (wsi_ph w)(x := WClosed)\<rparr>"
  have other: "m_wsi q \<noteq> Some x" if "heap w a = Some q" "a \<noteq> ap" for a q
    using world_ok_inj [OF w that(1) p(1) _ p(2)] that(2) by blast
  have "world_ok pre extra {} ?w"
  proof (rule world_okI)
    fix a q assume a: "heap ?w a = Some q"
    show "pipe_ok pre q \<and> extra q \<and> linked {} ?w a q"
    proof (cases "a = ap")
      case True
      have "extra ?q" by (rule extra_keep [OF world_okD(2) [OF w p(1)]]) simp_all
      then show ?thesis using True a world_okD [OF w p(1)] p by (auto simp: pipe_ok_def linked_def)
    next
      case False
      then have "heap w a = Some q" using a by simp
      from world_okD [OF w this] other [OF this False] show ?thesis by (auto simp: linked_def)
    qed
  next
    fix a assume "a \<in> pending ?w \<or> a \<in> {}"
    then show "heap ?w a \<noteq> None" using world_ok_pending [OF w, of a] by (auto simp: pending_def)
  next
    fix y a assume u: "wsi_user ?w y = Some a"
    then have "wsi_user w y = Some a" "y \<noteq> x" by (auto split: if_splits)
    with world_ok_user [OF w this(1)] p(1,2)
    show "\<exists>p. heap ?w a = Some p \<and> m_wsi p = Some y \<and> attached (m_state p)" by auto
  next
    fix a b p1 p2 y
    assume "heap ?w a = Some p1" "heap ?w b = Some p2" "m_wsi p1 = Some y" "m_wsi p2 = Some y"
    then show "a = b" using p world_ok_inj [OF w] by (fastforce split: if_splits)
  qed
  then show ?thesis using ns by auto
qed

text \<open>The destructor, on a pipe that is not attached to a handle.\<close>

lemma destroy_pipe_ok:
  assumes w: "world_ok pre extra {} w" and h: "heap w ap = Some p" "\<not> attached (m_state p)"
  shows "\<exists>w'. destroy_pipe ap w = Inr w' \<and> world_ok pre extra {} w' \<and> ap \<notin> pending w' \<and>
    heap w' = (heap w)(ap := None) \<and> (\<forall>x. wsi_user w' x \<noteq> Some ap)"
proof -
  let ?w = "(removeFromPending ap w)\<lparr>heap := (heap w)(ap := None)\<rparr>"
  have user: "wsi_user w x \<noteq> Some ap" for x
    using world_ok_user [OF w, of x ap] h by auto
  have "world_ok pre extra {} ?w"
  proof (rule world_okI)
    fix a q assume a: "heap ?w a = Some q"
    then have a: "heap w a = Some q" "a \<noteq> ap" by (auto split: if_splits)
    have "linked {} ?w a q"
      by (rule linked_mono [OF world_okD(3) [OF w a(1)]]) (auto simp: removeFromPending_def a(2))
    then show "pipe_ok pre q \<and> extra q \<and> linked {} ?w a q" using world_okD [OF w a(1)] by simp
  next
    fix a assume "a \<in> pending ?w \<or> a \<in> {}"
    then show "heap ?w a \<noteq> None"
      using world_ok_pending [OF w, of a] by (auto simp: pending_def removeFromPending_def)
  next
    fix y a assume "wsi_user ?w y = Some a"
    then have "wsi_user w y = Some a" by (simp add: removeFromPending_def)
    with world_ok_user [OF w this] user [of y]
    show "\<exists>p. heap ?w a = Some p \<and> m_wsi p = Some y \<and> attached (m_state p)" by auto
  next
    fix a b p1 p2 y
    assume "heap ?w a = Some p1" "heap ?w b = Some p2" "m_wsi p1 = Some y" "m_wsi p2 = Some y"
    then show "a = b" using world_ok_inj [OF w] by (auto split: if_splits)
  qed
  moreover have "destroy_pipe ap w = Inr ?w"
    using h by (simp add: destroy_pipe_def deref_def removeFromPending_def Let_def)
  ultimately show ?thesis using user by (auto simp: pending_def removeFromPending_def)
qed

text \<open>ESTABLISHED: the pipe found for the handle is attached to it.\<close>

lemma world_ok_attach:
  assumes but: "world_ok_but pre extra ap {} w" and p: "heap w ap = Some p" "m_wsi p = Some x"
    and q: "pipe_ok pre q" "extra q" "m_wsi q = Some x" "attached (m_state q)"
    and w': "heap w' = (heap w)(ap := Some q)" "wsi_user w' = (wsi_user w)(x := Some ap)"
      "wsi_ph w' = (wsi_ph w)(x := WOpen)" "pendingConnects w' = pendingConnects w"
      "set (pendingDisconnects w) \<subseteq> set (pendingDisconnects w')" "writable w' = writable w"
      "pending w' \<subseteq> pending w \<union> {ap}"
    and d: "m_state q = LWS_CLIENT_DISCONNECTING \<Longrightarrow> \<not> m_gracefulShutdown q \<Longrightarrow>
      ap \<in> set (pendingDisconnects w')"
  shows "world_ok pre extra {} w'"
proof (rule world_okI)
  fix a r assume a: "heap w' a = Some r"
  show "pipe_ok pre r \<and> extra r \<and> linked {} w' a r"
  proof (cases "a = ap")
    case True
    then show ?thesis using a q w' d by (auto simp: linked_def)
  next
    case False
    then have h: "heap w a = Some r" using a w'(1) by simp
    have "m_wsi r \<noteq> Some x" using world_ok_butD(6) [OF but h p(1) _ p(2)] False by blast
    then show ?thesis
      using world_ok_butD(1) [OF but h False] w' by (auto simp: linked_def)
  qed
next
  fix a assume "a \<in> pending w' \<or> a \<in> {}"
  then show "heap w' a \<noteq> None" using world_ok_butD(2) [OF but, of a] w' by auto
next
  fix y a assume "wsi_user w' y = Some a"
  then show "\<exists>p. heap w' a = Some p \<and> m_wsi p = Some y \<and> attached (m_state p)"
    using world_ok_butD(4,5) [OF but, of y a] w' q by (auto split: if_splits)
next
  fix a b p1 p2 y
  assume "heap w' a = Some p1" "heap w' b = Some p2" "m_wsi p1 = Some y" "m_wsi p2 = Some y"
  then show "a = b" using p q(3) w'(1) world_ok_butD(6) [OF but] by (fastforce split: if_splits)
qed

text \<open>A fresh object at an unused address.\<close>

lemma new_pipe_ok:
  assumes w: "world_ok pre extra {} w" and h: "heap w ap = None"
    and p: "pipe_ok pre p" "extra p" "m_state p = LWS_CLIENT_IDLE"
  shows "world_ok pre extra {} (set_pipe ap p w)"
proof (rule world_okI)
  fix a q assume "heap (set_pipe ap p w) a = Some q"
  then show "pipe_ok pre q \<and> extra q \<and> linked {} (set_pipe ap p w) a q"
    using p world_okD [OF w, of a q] by (auto simp: set_pipe_def linked_def pipe_ok_def split: if_splits)
next
  fix a assume "a \<in> pending (set_pipe ap p w) \<or> a \<in> {}"
  then show "heap (set_pipe ap p w) a \<noteq> None"
    using world_ok_pending [OF w, of a] by (auto simp: set_pipe_def pending_def)
next
  fix x a assume "wsi_user (set_pipe ap p w) x = Some a"
  then have "wsi_user w x = Some a" by (simp add: set_pipe_def)
  with world_ok_user [OF w this] h
  show "\<exists>p'. heap (set_pipe ap p w) a = Some p' \<and> m_wsi p' = Some x \<and> attached (m_state p')"
    by (auto simp: set_pipe_def)
next
  fix a b p1 p2 x
  assume "heap (set_pipe ap p w) a = Some p1" "heap (set_pipe ap p w) b = Some p2"
    "m_wsi p1 = Some x" "m_wsi p2 = Some x"
  then show "a = b"
    using p world_ok_inj [OF w] by (auto simp: set_pipe_def pipe_ok_def split: if_splits)
qed

text \<open>\<open>connect\<close> on an idle pipe.\<close>

lemma pick_context_frame:
  "pick_context k w = (c, w') \<Longrightarrow> w' = w\<lparr>nchild := nchild w'\<rparr>"
  by (induction k arbitrary: w) (fastforce simp: Let_def split: option.splits)+

lemma addPendingConnect_ok:
  assumes w: "world_ok pre extra {} w" and h: "heap w ap = Some p" "m_state p = LWS_CLIENT_IDLE"
  shows "\<exists>w'. addPendingConnect note ap w = Inr w' \<and> world_ok pre extra {} w'"
proof -
  obtain c w1 where c: "pick_context (numContexts w) w = (c, w1)" by force
  have e: "heap w1 = heap w" "wsi_user w1 = wsi_user w" "wsi_ph w1 = wsi_ph w"
    "pendingConnects w1 = pendingConnects w" "pendingDisconnects w1 = pendingDisconnects w"
    "pendingWrites w1 = pendingWrites w" "writable w1 = writable w"
    by (subst pick_context_frame [OF c], simp)+
  have w1: "world_ok pre extra {} w1"
    by (rule world_ok_lists [OF w]) (auto simp: e pending_def)
  show ?thesis
  proof (cases c)
    case None
    have "world_ok_but pre extra ap {} w1"
      using world_ok_but_drop [of pre extra ap "{}" w1 p] w1 h e by simp
    from fail_connect_ok [OF this, of p "note" "Some ''no lws context available''"]
      world_okD [OF w h(1)] h e show ?thesis
      using c None by (auto simp: addPendingConnect_def pipe_ok_def)
  next
    case (Some x)
    let ?w = "lws_cancel_service x (w1\<lparr>pendingConnects := pendingConnects w1 @ [ap]\<rparr>)"
    have "world_ok pre extra {} ?w"
      by (rule world_ok_lists [OF w1]) (auto simp: world_simps e h)
    then show ?thesis using c Some by (simp add: addPendingConnect_def)
  qed
qed

text \<open>Changing one pipe without touching its state, handle, flags or linkage.\<close>

lemma set_pipe_local_ok:
  assumes w: "world_ok pre extra {} w" and h: "heap w ap = Some p"
    and q: "pipe_ok pre q" "pipe.more q = pipe.more p" "m_state q = m_state p" "m_wsi q = m_wsi p"
      "m_vhd q = m_vhd p" "m_gracefulShutdown q = m_gracefulShutdown p"
  shows "world_ok pre extra {} (set_pipe ap q w)"
  using w h q world_okD [OF w h] extra_keep [of p q]
  by (intro world_ok_set_pipe [OF w h]) (simp_all add: linked_def)

end

end
