(* ===== verification/PipeHandlers.thy ===== *)
theory PipeHandlers
  imports PipeSteps ForkFrame
begin

text \<open>
  What the handlers of both copies have in common beyond the lists: RECEIVE, the part of WRITEABLE
  that sends what is waiting, CLOSED with the end of the handle, and the media thread between
  \<open>lockAudioBuffer\<close> and \<open>unlockAudioBuffer\<close>. The lemmas hold under the law of \<open>pipe_extra\<close>.
\<close>

section \<open>Definitions\<close>

definition on_receive ::
  "('a pipe_scheme, 'n) note_fn \<Rightarrow> wsi \<Rightarrow> rx_event \<Rightarrow> ('a pipe_scheme, 'n) world \<Rightarrow> ub + ('a pipe_scheme, 'n) world" where
  "on_receive note x e w =
     (case wsi_user w x of
        None \<Rightarrow> Inr w
      | Some ap \<Rightarrow>
          andthen (deref w ap) (\<lambda>p.
          andthen (receive e p) (\<lambda>(m, q).
            let w1 = set_pipe ap q w
            in case m of None \<Rightarrow> Inr w1 | Some msg \<Rightarrow> notify note ap MESSAGE (Some msg) w1)))"

text \<open>The media thread, between \<open>lockAudioBuffer\<close> and \<open>unlockAudioBuffer\<close>.\<close>

definition media_frames ::
  "nat \<Rightarrow> nat \<Rightarrow> (unit \<Rightarrow> u8 list \<Rightarrow> nat \<Rightarrow> u8 list \<times> unit) option \<Rightarrow> u8 list list \<Rightarrow> bool \<Rightarrow> ptr
     \<Rightarrow> ('a pipe_scheme, 'n) world \<Rightarrow> ub + (bool \<times> nat) \<times> ('a pipe_scheme, 'n) world" where
  "media_frames LWS_PRE channels resampler frames notified ap w =
     andthen (deref w ap) (\<lambda>p.
     andthen (fork_frame_ring LWS_PRE channels resampler () frames
         \<lparr>fs_pipe = p, fs_notified = notified, fs_events = 0\<rparr>) (\<lambda>(s, _).
     andthen (unlockAudioBuffer LWS_PRE ap (set_pipe ap (fs_pipe s) w)) (\<lambda>w1.
       Inr ((fs_notified s, fs_events s), w1))))"

text \<open>WRITEABLE: text first, then the close, then audio. \<open>ret\<close> is what \<open>lws_write\<close> returns; the
  handler's own result is -1 to have the library close the connection.\<close>

definition write_pending ::
  "nat \<Rightarrow> int \<Rightarrow> wsi \<Rightarrow> ptr \<Rightarrow> 'a pipe_scheme \<Rightarrow> ('a pipe_scheme, 'n) world \<Rightarrow> ub + int \<times> ('a pipe_scheme, 'n) world" where
  "write_pending LWS_PRE ret x ap p w =
     (if m_metadata p \<noteq> [] then
        andthen (lws_write x (LWS_WRITE_TEXT (m_metadata p)) w) (\<lambda>w1.
          let w2 = set_pipe ap (p\<lparr>m_metadata := []\<rparr>) w1
          in if ret < int (length (m_metadata p)) then Inr (-1, w2)
             else andthen (lws_callback_on_writable (Some x) w2) (\<lambda>w3. Inr (0, w3)))
      else if m_state p = LWS_CLIENT_DISCONNECTING then Inr (-1, w)
      else if m_audio_buffer_write_offset p > LWS_PRE then
        andthen (lws_write x (LWS_WRITE_BINARY (audio_payload LWS_PRE p)) w) (\<lambda>w1.
          Inr (0, set_pipe ap (p\<lparr>m_audio_buffer_write_offset := LWS_PRE\<rparr>) w1))
      else Inr (0, w))"

text \<open>The library closes the connection: the CLOSED callback, after which the handle is dead.\<close>

definition closed_handle ::
  "('a pipe_scheme, 'n) note_fn \<Rightarrow> wsi \<Rightarrow> ('a pipe_scheme, 'n) world \<Rightarrow> ub + ('a pipe_scheme, 'n) world" where
  "closed_handle note x w =
     andthen (on_closed note x w) (\<lambda>w1. Inr (w1\<lparr>wsi_ph := (wsi_ph w1)(x := WClosed)\<rparr>))"

text \<open>When the library may hand out a piece of a message, and the media thread frames.\<close>

definition receive_enabled :: "wsi \<Rightarrow> rx_event \<Rightarrow> ('a pipe_scheme, 'n) world \<Rightarrow> bool" where
  "receive_enabled x e w \<longleftrightarrow>
     wsi_ph w x = WOpen \<and> length (rx_in e) \<le> RECV_BUF_REALLOC_SIZE \<and>
     (case wsi_user w x of None \<Rightarrow> True
      | Some ap \<Rightarrow> (case heap w ap of None \<Rightarrow> True | Some p \<Rightarrow> rx_binary e \<or> rx_first e \<noteq> in_message p))"

definition media_enabled ::
  "nat \<Rightarrow> ptr \<Rightarrow> nat \<Rightarrow> (unit \<Rightarrow> u8 list \<Rightarrow> nat \<Rightarrow> u8 list \<times> unit) option \<Rightarrow> u8 list list
     \<Rightarrow> ('a pipe_scheme, 'n) world \<Rightarrow> bool" where
  "media_enabled LWS_PRE ap channels resampler frames w \<longleftrightarrow>
     (case heap w ap of None \<Rightarrow> False
      | Some p \<Rightarrow> m_vhd p \<noteq> None \<and> 0 < channels \<and>
          LWS_PRE + binaryMinSpace p * channels \<le> m_audio_buffer_max_len p \<and>
          list_all (\<lambda>d. length d \<le> binaryMinSpace p * channels) frames \<and>
          (case resampler of None \<Rightarrow> True | Some f \<Rightarrow> resampler_ok channels f))"

section \<open>Facts about one pipe\<close>

lemma audio_frame_pipe_ok:
  assumes "audio_frame p q" "audio_ok pre q" "pipe_ok pre p"
  shows "pipe_ok pre q" "pipe.more q = pipe.more p" "m_state q = m_state p" "m_wsi q = m_wsi p"
    "m_vhd q = m_vhd p" "m_gracefulShutdown q = m_gracefulShutdown p"
  using assms by (auto simp: audio_frame_iff pipe_ok_def)

lemma unlockAudioBuffer_heap: "unlockAudioBuffer pre ap w = Inr w' \<Longrightarrow> heap w' = heap w"
  by (auto simp: unlockAudioBuffer_def andthen_Inr_iff addPendingWrite_def lws_cancel_service_def
      split: if_splits)

lemma addPendingDisconnect_connected:
  assumes "heap w ap = Some p" "m_state p = LWS_CLIENT_CONNECTED" "m_vhd p = Some c"
  shows "addPendingDisconnect ap w = Inr (lws_cancel_service c
    ((set_pipe ap (p\<lparr>m_state := LWS_CLIENT_DISCONNECTING\<rparr>) w)
       \<lparr>pendingDisconnects := pendingDisconnects w @ [ap]\<rparr>))"
  using assms by (simp add: addPendingDisconnect_def deref_def vhd_context_def Let_def set_pipe_def)

lemma receive_keeps:
  assumes "recv_ok p" "length (rx_in e) \<le> RECV_BUF_REALLOC_SIZE" "rx_binary e \<or> rx_first e \<noteq> in_message p"
  shows "\<exists>m q. receive e p = Inr (m, q) \<and> recv_ok q \<and> recv_frame p q"
proof (cases "rx_binary e")
  case True
  then show ?thesis using assms(1) by (simp add: receive_def recv_frame_def)
next
  case False
  have ok: "recv_ok q" if "recv_idle q \<or> recv_mid d q" for d and q :: "'a pipe_scheme"
    using that by (auto simp: recv_ok_def in_message_def recv_idle_def recv_mid_def)
  show ?thesis
  proof (cases "in_message p")
    case True
    then obtain d where "recv_mid d p" using assms(1) by (auto simp: recv_ok_def)
    from receive_mid [OF this False _ assms(2)] True False assms(3)
    obtain m q where "receive e p = Inr (m, q)" "recv_frame p q"
      "recv_idle q \<or> recv_mid (d @ rx_in e) q" by (auto split: if_splits)
    with ok show ?thesis by blast
  next
    case no: False
    then have "recv_idle p" using assms(1) by (simp add: recv_ok_def)
    from receive_first [OF this False] no False assms(3)
    obtain m q where "receive e p = Inr (m, q)" "recv_frame p q"
      "recv_idle q \<or> recv_mid (rx_in e) q" by (auto split: if_splits)
    with ok show ?thesis by blast
  qed
qed

lemma sent_writable:
  fixes w :: "('p, 'n) world"
  shows "w\<lparr>sent := ss, writable := W\<rparr> = w\<lparr>writable := W, sent := ss\<rparr>"
  by (simp add: world.equality)

section \<open>Under the law of the extra invariant\<close>

context pipe_extra
begin

lemma media_frames_ok:
  assumes w: "world_ok pre extra {} w" and e: "media_enabled pre ap channels resampler frames w"
  shows "\<exists>r w'. media_frames pre channels resampler frames notified ap w = Inr (r, w') \<and> world_ok pre extra {} w' \<and>
    (\<exists>p q. heap w ap = Some p \<and> audio_frame p q \<and> heap w' = (heap w)(ap := Some q))"
proof -
  obtain p where h: "heap w ap = Some p" "m_vhd p \<noteq> None" "0 < channels"
    "pre + binaryMinSpace p * channels \<le> m_audio_buffer_max_len p"
    "list_all (\<lambda>d. length d \<le> binaryMinSpace p * channels) frames"
    "\<And>f. resampler = Some f \<Longrightarrow> resampler_ok channels f"
    using e by (auto simp: media_enabled_def split: option.splits)
  have p: "pipe_ok pre p" "audio_ok pre p" using world_okD(1) [OF w h(1)] by (simp_all add: pipe_ok_def)
  let ?s = "\<lparr>fs_pipe = p, fs_notified = notified, fs_events = 0\<rparr>"
  have "\<exists>s' rs. fork_frame_ring pre channels resampler () frames ?s = Inr (s', rs) \<and>
      audio_ok pre (fs_pipe s') \<and> audio_frame p (fs_pipe s')"
  proof (cases resampler)
    case None
    have "binaryMinSpace p * channels \<le> capacity pre p" using h(4) by (simp add: capacity_def)
    with native_loop_ok [of pre ?s "binaryMinSpace p * channels" frames] p(2) h(5) None
    show ?thesis by (auto simp: fork_frame_ring_def)
  next
    case (Some f)
    with resample_loop_ok [of pre ?s channels f "()" frames] p(2) h(3) h(6) [OF Some]
    show ?thesis by (auto simp: fork_frame_ring_def)
  qed
  then obtain s' rs where s': "fork_frame_ring pre channels resampler () frames ?s = Inr (s', rs)"
    "audio_ok pre (fs_pipe s')" "audio_frame p (fs_pipe s')" by blast
  note q = audio_frame_pipe_ok [OF s'(3,2) p(1)]
  have "world_ok pre extra {} (set_pipe ap (fs_pipe s') w)"
    by (rule set_pipe_local_ok [OF w h(1) q])
  moreover have "heap (set_pipe ap (fs_pipe s') w) ap = Some (fs_pipe s')" "m_vhd (fs_pipe s') \<noteq> None"
    using q(5) h(2) by (simp_all add: set_pipe_def)
  ultimately obtain w' where u: "unlockAudioBuffer pre ap (set_pipe ap (fs_pipe s') w) = Inr w'"
    "world_ok pre extra {} w'" using unlockAudioBuffer_ok by blast
  moreover have "heap w' = (heap w)(ap := Some (fs_pipe s'))"
    using unlockAudioBuffer_heap [OF u(1)] by (simp add: set_pipe_def)
  ultimately show ?thesis
    using s'(1,3) h(1) by (fastforce simp: media_frames_def deref_def)
qed

text \<open>RECEIVE: one more piece, in the right place of its message.\<close>

lemma on_receive_ok:
  assumes w: "world_ok pre extra {} w" and e: "receive_enabled x e w"
  shows "\<exists>w'. on_receive note x e w = Inr w' \<and> world_ok pre extra {} w'"
proof (cases "wsi_user w x")
  case None
  then show ?thesis using w by (simp add: on_receive_def)
next
  case (Some ap)
  then obtain p where p: "heap w ap = Some p" using world_ok_user [OF w] by blast
  have pok: "pipe_ok pre p" using world_okD(1) [OF w p] .
  obtain m q where q: "receive e p = Inr (m, q)" "recv_ok q" "recv_frame p q"
    using receive_keeps [of p e] pok e Some p by (auto simp: pipe_ok_def receive_enabled_def)
  have f: "pipe_ok pre q" "pipe.more q = pipe.more p" "m_state q = m_state p" "m_wsi q = m_wsi p"
    "m_vhd q = m_vhd p" "m_gracefulShutdown q = m_gracefulShutdown p"
    using q(2,3) pok by (auto simp: recv_frame_iff pipe_ok_def)
  have ok: "world_ok pre extra {} (set_pipe ap q w)" by (rule set_pipe_local_ok [OF w p f])
  have "world_ok pre extra {} ((set_pipe ap q w)\<lparr>notifications := ns\<rparr>)" for ns
    by (rule world_ok_lists [OF ok]) (simp_all add: pending_def)
  then show ?thesis
    using q(1) Some p ok
    by (auto simp: on_receive_def deref_def notify_def set_pipe_def Let_def split: option.splits)
qed

text \<open>Closing the handle.\<close>

lemma closed_handle_ok:
  assumes "world_ok pre extra {} w" "wsi_ph w x = WOpen"
  shows "\<exists>w'. closed_handle note x w = Inr w' \<and> world_ok pre extra {} w'"
  using on_closed_ok [OF assms, of "note"] by (auto simp: closed_handle_def)

lemma closed_handle_drop:
  assumes w: "world_ok pre extra {} w" and x: "wsi_ph w x = WOpen" and u: "wsi_user w x = Some ap"
    and h: "heap w ap = Some p"
  shows "\<exists>w'. closed_handle note x (w\<lparr>writable := removeAll x (writable w)\<rparr>) = Inr w' \<and> world_ok pre extra {} w' \<and>
    heap w' = (heap w)(ap := Some (p\<lparr>m_state := LWS_CLIENT_DISCONNECTED, m_closeSignaled := True,
      m_promise := True\<rparr>))"
proof -
  let ?p = "p\<lparr>m_state := LWS_CLIENT_DISCONNECTED, m_closeSignaled := True, m_promise := True\<rparr>"
  have p: "attached (m_state p)" "promise_ok p" "m_wsi p = Some x"
    using world_ok_user [OF w u] h world_okD(1) [OF w h] by (auto simp: pipe_ok_def)
  define ns where "ns = notifications w @ [(ap, note p
    (if m_state p = LWS_CLIENT_DISCONNECTING then CONNECTION_CLOSED_GRACEFULLY else CONNECTION_DROPPED) None)]"
  have closed: "on_closed note x (w\<lparr>writable := W\<rparr>) = Inr (w\<lparr>heap := (heap w)(ap := Some ?p),
      notifications := ns, wsi_user := (wsi_user w)(x := None), writable := W\<rparr>)" for W
    using on_closed_eq [of "w\<lparr>writable := W\<rparr>" x ap p "note"] u h p by (simp add: ns_def)
  let ?w = "w\<lparr>heap := (heap w)(ap := Some ?p), notifications := ns, wsi_user := (wsi_user w)(x := None),
    wsi_ph := (wsi_ph w)(x := WClosed)\<rparr>"
  have ok: "world_ok pre extra {} ?w"
    using on_closed_ok [OF w x, of "note"] closed [of "writable w"] by simp
  have other: "m_wsi q \<noteq> Some x" if "heap ?w a = Some q" "attached (m_state q)" for a q
    using world_ok_inj [OF w _ h _ p(3), of a q] that by (auto split: if_splits)
  let ?w' = "w\<lparr>heap := (heap w)(ap := Some ?p), notifications := ns, wsi_user := (wsi_user w)(x := None),
    writable := removeAll x (writable w), wsi_ph := (wsi_ph w)(x := WClosed)\<rparr>"
  have "world_ok pre extra {} ?w'"
  proof (rule world_ok_lists [OF ok])
    fix a q assume a: "heap ?w a = Some q" "m_state q = LWS_CLIENT_DISCONNECTING"
      "a \<in> set (pendingDisconnects ?w) \<or> the (m_wsi q) \<in> set (writable ?w)"
    obtain y where "m_wsi q = Some y" using world_ok_open [OF ok a(1)] a(2) by auto
    with a other [OF a(1)] show "a \<in> set (pendingDisconnects ?w') \<or> the (m_wsi q) \<in> set (writable ?w')"
      by auto
  qed (auto simp: pending_def)
  then show ?thesis using closed by (simp add: closed_handle_def)
qed

text \<open>WRITEABLE. The request it answers is consumed.\<close>

lemma world_ok_consume:
  assumes w: "world_ok pre extra {} w" and all: "\<And>ap. wsi_user w x = Some ap \<Longrightarrow> \<exists>p. heap w ap = Some p \<and>
      (m_gracefulShutdown p \<or> m_state p \<noteq> LWS_CLIENT_DISCONNECTING)"
  shows "world_ok pre extra {} (w\<lparr>writable := removeAll x (writable w), sent := ss\<rparr>)"
proof (rule world_ok_lists [OF w])
  fix a q assume a: "heap w a = Some q" "m_state q = LWS_CLIENT_DISCONNECTING" "\<not> m_gracefulShutdown q"
    "a \<in> set (pendingDisconnects w) \<or> the (m_wsi q) \<in> set (writable w)"
  obtain y where y: "m_wsi q = Some y" "wsi_user w y = Some a"
    using world_ok_open [OF w a(1)] a(2) by auto
  then have "y \<noteq> x" using all [of a] a by auto
  then show "a \<in> set (pendingDisconnects (w\<lparr>writable := removeAll x (writable w), sent := ss\<rparr>)) \<or>
      the (m_wsi q) \<in> set (writable (w\<lparr>writable := removeAll x (writable w), sent := ss\<rparr>))"
    using a y by auto
qed (auto simp: pending_def)

lemma write_pending_ok:
  assumes w: "world_ok pre extra {} w" and x: "wsi_ph w x = WOpen" and u: "wsi_user w x = Some ap"
    and h: "heap w ap = Some p"
  shows "\<exists>rc w1. write_pending pre ret x ap p (w\<lparr>writable := removeAll x (writable w)\<rparr>) = Inr (rc, w1) \<and>
    (\<exists>w'. (if rc < 0 then closed_handle note x w1 else Inr w1) = Inr w' \<and> world_ok pre extra {} w')"
proof -
  have p: "m_wsi p = Some x" "attached (m_state p)" using world_ok_user [OF w u] h by auto
  have sent: "world_ok pre extra {} (w\<lparr>sent := ss\<rparr>)" for ss
    by (rule world_ok_lists [OF w]) (auto simp: pending_def)
  have consume: "m_state p \<noteq> LWS_CLIENT_DISCONNECTING \<Longrightarrow>
      world_ok pre extra {} (w\<lparr>writable := removeAll x (writable w), sent := ss\<rparr>)" for ss
    by (rule world_ok_consume [OF w]) (use u h in auto)
  consider (metadata) "m_metadata p \<noteq> []"
    | (closing) "m_metadata p = []" "m_state p = LWS_CLIENT_DISCONNECTING"
    | (audio) "m_metadata p = []" "m_state p \<noteq> LWS_CLIENT_DISCONNECTING"
    by blast
  then show ?thesis
  proof cases
    case metadata
    let ?q = "p\<lparr>m_metadata := []\<rparr>"
    let ?ss = "sent w @ [(x, LWS_WRITE_TEXT (m_metadata p))]"
    have r: "w\<lparr>writable := W, sent := s, heap := h\<rparr> = w\<lparr>heap := h, writable := W, sent := s\<rparr>"
      "w\<lparr>sent := s, heap := h, writable := W\<rparr> = w\<lparr>heap := h, writable := W, sent := s\<rparr>"
      "w\<lparr>heap := h, sent := s, writable := W\<rparr> = w\<lparr>heap := h, writable := W, sent := s\<rparr>" for W s h
      by (simp_all add: world.equality)
    have q: "pipe_ok pre ?q" using world_okD(1) [OF w h] by (simp add: pipe_ok_def)
    have ok: "world_ok pre extra {} (set_pipe ap ?q w)"
      by (rule set_pipe_local_ok [OF w h q]) simp_all
    have ok2: "world_ok pre extra {} ((set_pipe ap ?q w)\<lparr>sent := ?ss\<rparr>)"
      by (rule world_ok_lists [OF ok]) (auto simp: pending_def)
    have "\<exists>w'. closed_handle note x ((set_pipe ap ?q w)\<lparr>writable := removeAll x (writable w), sent := ?ss\<rparr>)
        = Inr w' \<and> world_ok pre extra {} w'"
      using closed_handle_drop [OF ok2, of x ap ?q] x u by (auto simp: set_pipe_def sent_writable)
    moreover have "world_ok pre extra {} ((set_pipe ap ?q w)\<lparr>writable := removeAll x (writable w) @ [x], sent := ?ss\<rparr>)"
      by (rule world_ok_lists [OF ok]) (auto simp: pending_def set_pipe_def)
    ultimately show ?thesis using metadata u p x
      by (simp add: write_pending_def lws_write_def lws_callback_on_writable_def Let_def set_pipe_def r)
  next
    case closing
    then show ?thesis using closed_handle_drop [OF sent [of "sent w"], of x ap p] x u h
      by (auto simp: write_pending_def)
  next
    case audio
    let ?q = "p\<lparr>m_audio_buffer_write_offset := pre\<rparr>"
    let ?ss = "sent w @ [(x, LWS_WRITE_BINARY (audio_payload pre p))]"
    have pok: "pipe_ok pre p" using world_okD(1) [OF w h] .
    then have q: "pipe_ok pre ?q" by (simp add: pipe_ok_def audio_ok_def)
    have ok: "world_ok pre extra {} (w\<lparr>writable := removeAll x (writable w), sent := ?ss\<rparr>)"
      using consume audio by simp
    have "world_ok pre extra {} (set_pipe ap ?q (w\<lparr>writable := removeAll x (writable w), sent := ?ss\<rparr>))"
      by (rule set_pipe_local_ok [OF ok _ q]) (use h in simp_all)
    then show ?thesis using audio x consume [of "sent w"]
      by (simp add: write_pending_def lws_write_def)
  qed
qed

end

end
