(* ===== verification/ForkPipe.thy ===== *)
theory ForkPipe
  imports PipeHandlers Base64
begin

text \<open>
  \<open>AudioPipe\<close> of \<^verbatim>\<open>modules/mod_audio_fork/audio_pipe.cpp\<close>: the fields and operations this copy adds
  to the shared ones, the handlers of the service thread that differ, and the transition system
  of all operations on all pipes. Each operation is one step; the order in which threads take
  them is arbitrary. (The steps inside \<open>close()\<close> are taken apart in theory \<open>PipeRace\<close>.)
\<close>

section \<open>State\<close>

record af_pipe = pipe +
  m_bugname :: string
  m_sslFlags :: nat
  m_username :: string
  m_password :: string
  m_closePending :: bool

type_synonym af_note = "string \<times> string \<times> notify_event \<times> string option"
type_synonym af_world = "(af_pipe, af_note) world"

text \<open>The arguments of \<open>m_callback\<close>: \<open>m_uuid.c_str()\<close>, \<open>m_bugname.c_str()\<close>, the event, the message.\<close>

definition af_notify :: "(af_pipe, af_note) note_fn" where
  "af_notify p ev msg = (c_str (m_uuid p), c_str (m_bugname p), ev, map_option c_str msg)"

text \<open>The constructor.\<close>

record af_args =
  a_uuid :: string
  a_host :: string
  a_port :: nat
  a_path :: string
  a_sslFlags :: nat
  a_bufLen :: nat
  a_minFreespace :: nat
  a_username :: "string option"
  a_password :: "string option"
  a_bugname :: string
  a_block :: "u8 list"
  a_junk :: nat

definition AudioPipe_new :: "nat \<Rightarrow> af_args \<Rightarrow> af_pipe" where
  "AudioPipe_new LWS_PRE a =
     pipe.extend
       (pipe_init LWS_PRE (a_uuid a) (a_host a) (a_port a) (a_path a) (a_bufLen a)
          (a_minFreespace a) (a_block a) (a_junk a))
       (af_pipe.fields (a_bugname a) (a_sslFlags a)
          (case (a_username a, a_password a) of (Some u, Some v) \<Rightarrow> u | _ \<Rightarrow> [])
          (case (a_username a, a_password a) of (Some u, Some v) \<Rightarrow> v | _ \<Rightarrow> [])
          False)"

section \<open>Operations of the module's threads\<close>

definition af_close :: "ptr \<Rightarrow> af_world \<Rightarrow> ub + af_world" where
  "af_close ap w =
     andthen (deref w ap) (\<lambda>p.
       if m_state p \<noteq> LWS_CLIENT_CONNECTED
       then Inr (set_pipe ap (p\<lparr>m_closePending := True\<rparr>) w)
       else addPendingDisconnect ap w)"

definition af_do_graceful_shutdown :: "ptr \<Rightarrow> af_world \<Rightarrow> ub + af_world" where
  "af_do_graceful_shutdown ap w =
     andthen (deref w ap) (\<lambda>p.
       if m_state p \<noteq> LWS_CLIENT_CONNECTED
       then Inr (set_pipe ap (p\<lparr>m_gracefulShutdown := True\<rparr>) w)
       else addPendingWrite ap w)"

text \<open>The media thread, between \<open>lockAudioBuffer\<close> and \<open>unlockAudioBuffer\<close>.\<close>

definition af_media ::
  "nat \<Rightarrow> nat \<Rightarrow> (unit \<Rightarrow> u8 list \<Rightarrow> nat \<Rightarrow> u8 list \<times> unit) option \<Rightarrow> u8 list list \<Rightarrow> bool \<Rightarrow> ptr \<Rightarrow> af_world
     \<Rightarrow> ub + (bool \<times> nat) \<times> af_world" where
  "af_media = media_frames"

section \<open>Handlers of the service thread\<close>

text \<open>HTTP basic authentication. \<open>b64\<close> stands for \<open>lws_b64_encode_string\<close>: what it leaves in an
  output block of the given size.\<close>

definition hasBasicAuth :: "af_pipe \<Rightarrow> bool" where
  "hasBasicAuth p \<longleftrightarrow> m_username p \<noteq> [] \<and> m_password p \<noteq> []"

definition dch_lws_http_basic_auth_gen ::
  "(string \<Rightarrow> nat \<Rightarrow> string) \<Rightarrow> string \<Rightarrow> string \<Rightarrow> string \<Rightarrow> nat \<times> string" where
  "dch_lws_http_basic_auth_gen b64 user pw buf =
     (let len = length buf; n = length user; m = length pw in
      if len < 6 + (4 * (n + m + 1)) div 3 + 1 then (1, buf)
      else let buf1 = splice 0 ''Basic '' buf; b = user @ '':'' @ pw in
        if min (length b) 127 \<ge> 128 - 2 then (2, buf1)
        else (0, (splice 6 (b64 b (len - 6)) buf1)[len - 1 := CHR 0x00]))"

text \<open>APPEND_HANDSHAKE_HEADER: the return code and the header added, if one was.\<close>

definition af_on_append_header ::
  "(string \<Rightarrow> nat \<Rightarrow> string) \<Rightarrow> string \<Rightarrow> bool \<Rightarrow> wsi \<Rightarrow> af_world \<Rightarrow> ub + int \<times> string option" where
  "af_on_append_header b64 stack add_ok x w =
     andthen (findPendingConnect x w) (\<lambda>r. case r of
         None \<Rightarrow> Inr (0, None)
       | Some ap \<Rightarrow> andthen (deref w ap) (\<lambda>p.
           if \<not> hasBasicAuth p then Inr (0, None)
           else case dch_lws_http_basic_auth_gen b64 (c_str (m_username p)) (c_str (m_password p)) stack of
                  (rc, b) \<Rightarrow> if rc \<noteq> 0 then Inr (-1, None)
                             else if \<not> add_ok then Inr (-1, None) else Inr (0, Some (c_str b))))"

definition af_on_established :: "wsi \<Rightarrow> ctx \<Rightarrow> af_world \<Rightarrow> ub + af_world" where
  "af_on_established x vhd w =
     andthen (findAndRemovePendingConnect x w) (\<lambda>(r, w1). case r of
         None \<Rightarrow> Inr w1
       | Some ap \<Rightarrow>
           andthen (modify ap (\<lambda>p. Inr (p\<lparr>m_vhd := Some vhd, m_state := LWS_CLIENT_CONNECTED\<rparr>))
                     (w1\<lparr>wsi_user := (wsi_user w1)(x := Some ap)\<rparr>)) (\<lambda>w2.
           andthen (deref w2 ap) (\<lambda>p2.
           andthen (if m_closePending p2 then af_close ap w2 else Inr w2) (\<lambda>w3.
           andthen (deref w3 ap) (\<lambda>p3.
           andthen (if m_gracefulShutdown p3 then af_do_graceful_shutdown ap w3 else Inr w3) (\<lambda>w4.
             notify af_notify ap CONNECT_SUCCESS None w4))))))"

text \<open>RECEIVE on an attached handle.\<close>

definition af_on_receive :: "wsi \<Rightarrow> rx_event \<Rightarrow> af_world \<Rightarrow> ub + af_world" where
  "af_on_receive = on_receive af_notify"

text \<open>WRITEABLE. \<open>ret\<close> is what \<open>lws_write\<close> returns; the handler's own result is -1 to have the
  library close the connection.\<close>

definition af_on_writeable :: "nat \<Rightarrow> int \<Rightarrow> wsi \<Rightarrow> af_world \<Rightarrow> ub + int \<times> af_world" where
  "af_on_writeable LWS_PRE ret x w =
     (case wsi_user w x of
        None \<Rightarrow> Inr (0, w)
      | Some ap \<Rightarrow>
          andthen (deref w ap) (\<lambda>p.
            if m_gracefulShutdown p then
              andthen (lws_write x (LWS_WRITE_BINARY []) w) (\<lambda>w1.
                Inr (if ret < 0 then -1 else 0, w1))
            else write_pending LWS_PRE ret x ap p w))"

section \<open>The transition system\<close>

text \<open>The library closes the connection when the handler returns -1: the CLOSED callback, after
  which the handle is dead.\<close>

definition af_closed :: "wsi \<Rightarrow> af_world \<Rightarrow> ub + af_world" where
  "af_closed = closed_handle af_notify"

datatype af_action =
    ANew ptr af_args
  | AConnect ptr
  | ABufferForSending ptr string
  | AMedia ptr nat "(unit \<Rightarrow> u8 list \<Rightarrow> nat \<Rightarrow> u8 list \<times> unit) option" "u8 list list" bool
  | AGracefulShutdown ptr
  | AClose ptr
  | ADelete ptr
  | AWaitCancelled ctx "ptr \<Rightarrow> wsi option"
  | AEstablished wsi ctx
  | AConnectionError wsi "string option"
  | AReceive wsi rx_event
  | AWriteable wsi int
  | AClosed wsi

fun af_exec :: "nat \<Rightarrow> af_action \<Rightarrow> af_world \<Rightarrow> ub + af_world" where
  "af_exec LWS_PRE (ANew ap a) w = Inr (set_pipe ap (AudioPipe_new LWS_PRE a) w)"
| "af_exec LWS_PRE (AConnect ap) w = addPendingConnect af_notify ap w"
| "af_exec LWS_PRE (ABufferForSending ap t) w = bufferForSending t ap w"
| "af_exec LWS_PRE (AMedia ap channels resampler frames notified) w =
     andthen (af_media LWS_PRE channels resampler frames notified ap w) (\<lambda>(_, w1). Inr w1)"
| "af_exec LWS_PRE (AGracefulShutdown ap) w = af_do_graceful_shutdown ap w"
| "af_exec LWS_PRE (AClose ap) w = af_close ap w"
| "af_exec LWS_PRE (ADelete ap) w = destroy_pipe ap w"
| "af_exec LWS_PRE (AWaitCancelled vhd conn) w = on_wait_cancelled af_notify vhd conn w"
| "af_exec LWS_PRE (AEstablished x vhd) w = af_on_established x vhd (w\<lparr>wsi_ph := (wsi_ph w)(x := WOpen)\<rparr>)"
| "af_exec LWS_PRE (AConnectionError x msg) w =
     andthen (on_connection_error af_notify x msg w) (\<lambda>w1.
       Inr (w1\<lparr>wsi_ph := (wsi_ph w1)(x := WClosed)\<rparr>))"
| "af_exec LWS_PRE (AReceive x e) w = af_on_receive x e w"
| "af_exec LWS_PRE (AWriteable x ret) w =
     andthen (af_on_writeable LWS_PRE ret x (w\<lparr>writable := removeAll x (writable w)\<rparr>)) (\<lambda>(rc, w1).
       if rc < 0 then af_closed x w1 else Inr w1)"
| "af_exec LWS_PRE (AClosed x) w = af_closed x w"

text \<open>When a step may be taken. For the module's threads: a live object, which the reaper and the
  mutex of the session guarantee; \<open>connect\<close> once, on a fresh object; frames within what the media
  bug announced, from a pipe that has been connected; deletion when \<open>waitForClose\<close> returns. For the
  library: handles in the right phase, fresh ones for new connections, writeable events that were
  asked for, and pieces of a message in order, of at most the requested size.\<close>

fun af_enabled :: "nat \<Rightarrow> af_action \<Rightarrow> af_world \<Rightarrow> bool" where
  "af_enabled LWS_PRE (ANew ap a) w \<longleftrightarrow>
     heap w ap = None \<and> length (a_block a) = a_bufLen a \<and> LWS_PRE \<le> a_bufLen a"
| "af_enabled LWS_PRE (AConnect ap) w \<longleftrightarrow>
     (case heap w ap of None \<Rightarrow> False | Some p \<Rightarrow> m_state p = LWS_CLIENT_IDLE)"
| "af_enabled LWS_PRE (ABufferForSending ap t) w \<longleftrightarrow> heap w ap \<noteq> None"
| "af_enabled LWS_PRE (AMedia ap channels resampler frames notified) w \<longleftrightarrow>
     media_enabled LWS_PRE ap channels resampler frames w"
| "af_enabled LWS_PRE (AGracefulShutdown ap) w \<longleftrightarrow> heap w ap \<noteq> None"
| "af_enabled LWS_PRE (AClose ap) w \<longleftrightarrow> heap w ap \<noteq> None"
| "af_enabled LWS_PRE (ADelete ap) w \<longleftrightarrow>
     (case heap w ap of None \<Rightarrow> False | Some p \<Rightarrow> waitForClose_returns p)"
| "af_enabled LWS_PRE (AWaitCancelled vhd conn) w \<longleftrightarrow> fresh_conn conn (pendingConnects w) w"
| "af_enabled LWS_PRE (AEstablished x vhd) w \<longleftrightarrow> wsi_ph w x = WOpening"
| "af_enabled LWS_PRE (AConnectionError x msg) w \<longleftrightarrow> wsi_ph w x = WOpening"
| "af_enabled LWS_PRE (AReceive x e) w \<longleftrightarrow> receive_enabled x e w"
| "af_enabled LWS_PRE (AWriteable x ret) w \<longleftrightarrow> wsi_ph w x = WOpen \<and> x \<in> set (writable w)"
| "af_enabled LWS_PRE (AClosed x) w \<longleftrightarrow> wsi_ph w x = WOpen"

text \<open>Reachable worlds: from no pipes at all, by enabled steps that do not go wrong.\<close>

definition af_start :: "af_world \<Rightarrow> bool" where
  "af_start w \<longleftrightarrow> heap w = (\<lambda>_. None) \<and> pendingConnects w = [] \<and> pendingDisconnects w = [] \<and>
     pendingWrites w = [] \<and> wsi_user w = (\<lambda>_. None) \<and> wsi_ph w = (\<lambda>_. WNone)"

inductive af_reach :: "nat \<Rightarrow> af_world \<Rightarrow> bool" for LWS_PRE where
  start: "af_start w \<Longrightarrow> af_reach LWS_PRE w"
| step: "af_reach LWS_PRE w \<Longrightarrow> af_enabled LWS_PRE a w \<Longrightarrow> af_exec LWS_PRE a w = Inr w'
    \<Longrightarrow> af_reach LWS_PRE w'"

inductive_cases af_reach_cases: "af_reach LWS_PRE w"

end
