(* ===== verification/ForkSafe.thy ===== *)
theory ForkSafe
  imports ForkPipe
begin

text \<open>
  The invariant of the pipes of mod_audio_fork, and what follows from it for every reachable
  world: no step goes wrong, the close promise is set exactly when the connection is over, and a
  request to close is not lost.
\<close>

section \<open>The extra invariant of this copy\<close>

text \<open>A pipe that was asked to close is never left CONNECTED.\<close>

definition af_extra :: "af_pipe \<Rightarrow> bool" where
  "af_extra p \<longleftrightarrow> (m_closePending p \<longrightarrow> m_state p \<noteq> LWS_CLIENT_CONNECTED)"

lemma more_closePending:
  fixes p q :: af_pipe
  shows "pipe.more q = pipe.more p \<Longrightarrow> m_closePending q = m_closePending p"
  by (cases p, cases q) simp

interpretation af: pipe_extra af_extra
  by unfold_locales (auto simp: af_extra_def dest: more_closePending)

abbreviation af_inv :: "nat \<Rightarrow> af_world \<Rightarrow> bool" where
  "af_inv pre w \<equiv> world_ok pre af_extra {} w"

lemma recv_ok_closePending [simp]:
  fixes p :: af_pipe
  shows "recv_ok (p\<lparr>m_closePending := b\<rparr>) = recv_ok p" "promise_ok (p\<lparr>m_closePending := b\<rparr>) = promise_ok p"
    "audio_ok pre (p\<lparr>m_closePending := b\<rparr>) = audio_ok pre p"
  by (simp_all add: recv_ok_def in_message_def recv_mid_def recv_idle_def promise_ok_def audio_ok_def)

section \<open>Every step preserves the invariant\<close>

lemma af_start_inv: "af_start w \<Longrightarrow> af_inv pre w"
  by (auto simp: af_start_def world_ok_def pending_def)

lemma AudioPipe_new_ok:
  assumes "length (a_block a) = a_bufLen a" "pre \<le> a_bufLen a"
  shows "pipe_ok pre (AudioPipe_new pre a)" "af_extra (AudioPipe_new pre a)"
    "m_state (AudioPipe_new pre a) = LWS_CLIENT_IDLE"
  using assms
  by (simp_all add: AudioPipe_new_def pipe_init_def pipe.defs af_pipe.defs pipe_ok_def af_extra_def
      promise_ok_def audio_ok_def recv_ok_def in_message_def recv_idle_def)

text \<open>\<open>close()\<close>: the pipe is DISCONNECTING and queued, or the intent is recorded.\<close>

lemma af_close_ok:
  assumes w: "af_inv pre w" and h: "heap w ap = Some p"
  shows "\<exists>w'. af_close ap w = Inr w' \<and> af_inv pre w' \<and> wsi_user w' = wsi_user w \<and>
    wsi_ph w' = wsi_ph w \<and>
    heap w' = (heap w)(ap := Some (if m_state p = LWS_CLIENT_CONNECTED
      then p\<lparr>m_state := LWS_CLIENT_DISCONNECTING\<rparr> else p\<lparr>m_closePending := True\<rparr>))"
proof (cases "m_state p = LWS_CLIENT_CONNECTED")
  case True
  then show ?thesis using af.addPendingDisconnect_ok [OF w h] h by (auto simp: af_close_def deref_def)
next
  case False
  let ?q = "p\<lparr>m_closePending := True\<rparr>"
  have "pipe_ok pre ?q" "af_extra ?q" "linked {} w ap ?q"
    using world_okD [OF w h] False by (simp_all add: pipe_ok_def af_extra_def linked_def)
  then have "af_inv pre (set_pipe ap ?q w)"
    by (intro world_ok_set_pipe [OF w h]) simp_all
  then show ?thesis using h False by (simp add: af_close_def deref_def set_pipe_def)
qed

lemma af_do_graceful_ok:
  assumes w: "af_inv pre w" and h: "heap w ap = Some p"
  shows "\<exists>w'. af_do_graceful_shutdown ap w = Inr w' \<and> af_inv pre w' \<and>
    heap w' = (if m_state p = LWS_CLIENT_CONNECTED then heap w
      else (heap w)(ap := Some (p\<lparr>m_gracefulShutdown := True\<rparr>)))"
proof (cases "m_state p = LWS_CLIENT_CONNECTED")
  case True
  then have "m_vhd p \<noteq> None" using world_okD(1) [OF w h] by (simp add: pipe_ok_def)
  from af.addPendingWrite_ok [OF w h this] True h show ?thesis
    by (auto simp: af_do_graceful_shutdown_def deref_def)
next
  case False
  let ?q = "p\<lparr>m_gracefulShutdown := True\<rparr>"
  have "pipe_ok pre ?q" "af_extra ?q" "linked {} w ap ?q"
    using world_okD [OF w h] False by (simp_all add: pipe_ok_def af_extra_def linked_def)
  then have "af_inv pre (set_pipe ap ?q w)"
    by (intro world_ok_set_pipe [OF w h]) simp_all
  then show ?thesis using h False by (simp add: af_do_graceful_shutdown_def deref_def set_pipe_def)
qed

lemma af_media_ok:
  assumes w: "af_inv pre w" and e: "af_enabled pre (AMedia ap channels resampler frames notified) w"
  shows "\<exists>r w'. af_media pre channels resampler frames notified ap w = Inr (r, w') \<and> af_inv pre w' \<and>
    (\<exists>p q. heap w ap = Some p \<and> audio_frame p q \<and> heap w' = (heap w)(ap := Some q))"
  using af.media_frames_ok [OF w] e by (simp add: af_media_def)

text \<open>ESTABLISHED completes what was asked for while the pipe was connecting.\<close>

lemma af_on_established_ok:
  assumes w: "af_inv pre w" and x: "wsi_ph w x = WOpening"
  shows "\<exists>w'. af_on_established x vhd (w\<lparr>wsi_ph := (wsi_ph w)(x := WOpen)\<rparr>) = Inr w' \<and> af_inv pre w' \<and>
    (\<forall>ap p. heap w ap = Some p \<longrightarrow> heap w' ap = Some (if connecting_on x w ap
       then p\<lparr>m_vhd := Some vhd, m_state := (if m_closePending p then LWS_CLIENT_DISCONNECTING
              else LWS_CLIENT_CONNECTED)\<rparr> else p)) \<and> dom (heap w') = dom (heap w)"
proof -
  let ?w0 = "w\<lparr>wsi_ph := (wsi_ph w)(x := WOpen)\<rparr>"
  obtain r w1 where f: "findAndRemovePendingConnect x w = Inr (r, w1)"
    "w1 = w\<lparr>pendingConnects := pendingConnects w1\<rparr>"
    "case r of None \<Rightarrow> af_inv pre w1 \<and> (\<forall>ap. \<not> connecting_on x w ap)
     | Some ap \<Rightarrow> world_ok_but pre af_extra ap {} w1 \<and> connecting_on x w ap"
    using findAndRemovePendingConnect_ok [OF w] by blast
  have h1: "heap w1 = heap w" "wsi_ph w1 = wsi_ph w" by (subst f(2), simp)+
  let ?w1 = "w1\<lparr>wsi_ph := (wsi_ph w)(x := WOpen)\<rparr>"
  have scan: "scan_connects x aps ?w0 = scan_connects x aps w" for aps
    by (induction aps) (simp_all add: deref_def Let_def cong: if_cong)
  have f0: "findAndRemovePendingConnect x ?w0 = Inr (r, ?w1)"
    using f(1) by (auto simp: findAndRemovePendingConnect_def scan andthen_Inr_iff Let_def
        split: prod.splits)
  show ?thesis
  proof (cases r)
    case None
    with f(3) have "af_inv pre (w1\<lparr>wsi_ph := (wsi_ph w1)(x := WOpen)\<rparr>)"
      using h1 by (intro af.world_ok_phase) (auto simp: connecting_on_def)
    then show ?thesis using f0 None h1 f(3) by (simp add: af_on_established_def)
  next
    case (Some ap)
    with f(3) have but: "world_ok_but pre af_extra ap {} w1" and c: "connecting_on x w ap" by simp_all
    then obtain p where p: "heap w ap = Some p" "m_state p = LWS_CLIENT_CONNECTING" "m_wsi p = Some x"
      by (auto simp: connecting_on_def split: option.splits)
    have pok: "pipe_ok pre p" using world_okD(1) [OF w p(1)] .
    have uniq: "connecting_on x w a \<longleftrightarrow> a = ap" for a
      using c world_ok_inj [OF w _ p(1) _ p(3), of a] by (auto simp: connecting_on_def split: option.splits)
    let ?q = "p\<lparr>m_vhd := Some vhd, m_state := LWS_CLIENT_CONNECTED\<rparr>"
    let ?r = "p\<lparr>m_vhd := Some vhd, m_state := LWS_CLIENT_DISCONNECTING\<rparr>"
    define w2 where "w2 = set_pipe ap ?q (?w1\<lparr>wsi_user := (wsi_user w1)(x := Some ap)\<rparr>)"
    have h2: "heap w2 ap = Some ?q" by (simp add: w2_def set_pipe_def)
    have pd: "m_vhd ?q = Some vhd" "m_state ?q = LWS_CLIENT_CONNECTED" by simp_all
    have e: "af_on_established x vhd ?w0 =
        andthen (if m_closePending ?q then af_close ap w2 else Inr w2) (\<lambda>w3.
        andthen (deref w3 ap) (\<lambda>p3.
        andthen (if m_gracefulShutdown p3 then af_do_graceful_shutdown ap w3 else Inr w3)
          (notify af_notify ap CONNECT_SUCCESS None)))"
      using f0 Some p(1) h1 by (simp add: af_on_established_def w2_def modify_def deref_def set_pipe_def)
    have attach: "af_inv pre w'"
      if "heap w' = (heap w1)(ap := Some q)" "wsi_user w' = (wsi_user w1)(x := Some ap)"
        "wsi_ph w' = (wsi_ph w1)(x := WOpen)" "pendingConnects w' = pendingConnects w1"
        "set (pendingDisconnects w1) \<subseteq> set (pendingDisconnects w')" "writable w' = writable w1"
        "pending w' \<subseteq> pending w1 \<union> {ap}"
        "m_state q = LWS_CLIENT_DISCONNECTING \<Longrightarrow> ap \<in> set (pendingDisconnects w')"
        "q = ?q \<and> \<not> m_closePending p \<or> q = ?r" for w' q
      using that p h1 pok
      by (intro af.world_ok_attach [OF but, of p x q w'])
        (auto simp: pipe_ok_def af_extra_def)
    show ?thesis
    proof (cases "m_closePending p")
      case True
      define w3 where "w3 = lws_cancel_service vhd
        ((set_pipe ap ?r w2)\<lparr>pendingDisconnects := pendingDisconnects w2 @ [ap]\<rparr>)"
      have "af_close ap w2 = Inr w3"
        using addPendingDisconnect_connected [OF h2 pd(2,1)] h2
        by (simp add: af_close_def deref_def w3_def)
      moreover have h3: "heap w3 ap = Some ?r" by (simp add: w3_def world_simps)
      moreover have "af_do_graceful_shutdown ap w3 = Inr (set_pipe ap (?r\<lparr>m_gracefulShutdown := True\<rparr>) w3)"
        using h3 by (simp add: af_do_graceful_shutdown_def deref_def)
      moreover have "set_pipe ap (?r\<lparr>m_gracefulShutdown := True\<rparr>) w3 = w3" if "m_gracefulShutdown p"
      proof -
        have "?r\<lparr>m_gracefulShutdown := True\<rparr> = ?r" using that by (cases p) simp
        then show ?thesis using h3 by (simp add: set_pipe_def fun_upd_idem)
      qed
      ultimately have "af_on_established x vhd ?w0 = notify af_notify ap CONNECT_SUCCESS None w3"
        unfolding e using True by (simp add: deref_def)
      also have "\<dots> = Inr (w3\<lparr>notifications :=
          notifications w3 @ [(ap, af_notify ?r CONNECT_SUCCESS None)]\<rparr>)" (is "_ = Inr ?w4")
        using h3 by (simp add: notify_def deref_def)
      finally have "af_on_established x vhd ?w0 = Inr ?w4" .
      moreover have "af_inv pre ?w4"
        by (rule attach [of _ ?r]) (auto simp: w3_def w2_def world_simps h1)
      moreover have "heap ?w4 = (heap w)(ap := Some ?r)" by (simp add: w3_def w2_def world_simps h1)
      ultimately show ?thesis using p(1) True by (intro exI [of _ ?w4]) (auto simp: uniq)
    next
      case False
      define w4 where "w4 = (if m_gracefulShutdown p
        then lws_cancel_service vhd (w2\<lparr>pendingWrites := pendingWrites w2 @ [ap]\<rparr>) else w2)"
      have h4: "heap w4 ap = Some ?q" using h2 by (simp add: w4_def lws_cancel_service_def)
      have "af_on_established x vhd ?w0 = notify af_notify ap CONNECT_SUCCESS None w4"
        unfolding e using False h2
        by (simp add: deref_def af_do_graceful_shutdown_def addPendingWrite_def vhd_context_def w4_def)
      also have "\<dots> = Inr (w4\<lparr>notifications :=
          notifications w4 @ [(ap, af_notify ?q CONNECT_SUCCESS None)]\<rparr>)" (is "_ = Inr ?w5")
        using h4 by (simp add: notify_def deref_def)
      finally have "af_on_established x vhd ?w0 = Inr ?w5" .
      moreover have "af_inv pre ?w5"
        by (rule attach [of _ ?q]) (use False in \<open>auto simp: w4_def w2_def world_simps h1\<close>)
      moreover have "heap ?w5 = (heap w)(ap := Some ?q)" by (simp add: w4_def w2_def world_simps h1)
      ultimately show ?thesis using p(1) False by (intro exI [of _ ?w5]) (auto simp: uniq)
    qed
  qed
qed

text \<open>The shared handlers.\<close>

lemma af_on_receive_ok:
  assumes "af_inv pre w" "af_enabled pre (AReceive x e) w"
  shows "\<exists>w'. af_on_receive x e w = Inr w' \<and> af_inv pre w'"
  using af.on_receive_ok [OF assms(1)] assms(2) by (simp add: af_on_receive_def)

lemma af_closed_ok:
  assumes "af_inv pre w" "wsi_ph w x = WOpen"
  shows "\<exists>w'. af_closed x w = Inr w' \<and> af_inv pre w'"
  using af.closed_handle_ok [OF assms, of af_notify] by (simp add: af_closed_def)

lemma af_writeable_ok:
  assumes w: "af_inv pre w" and x: "wsi_ph w x = WOpen"
  shows "\<exists>w'. af_exec pre (AWriteable x ret) w = Inr w' \<and> af_inv pre w'"
proof (cases "wsi_user w x")
  case None
  have "af_inv pre (w\<lparr>writable := removeAll x (writable w), sent := sent w\<rparr>)"
    by (rule af.world_ok_consume [OF w]) (use None in auto)
  then show ?thesis using None by (simp add: af_on_writeable_def)
next
  case (Some ap)
  then obtain p where p: "heap w ap = Some p" using world_ok_user [OF w] by blast
  show ?thesis
  proof (cases "m_gracefulShutdown p")
    case True
    let ?ss = "sent w @ [(x, LWS_WRITE_BINARY [])]"
    have "af_inv pre (w\<lparr>sent := ?ss\<rparr>)" by (rule world_ok_lists [OF w]) (auto simp: pending_def)
    then have "\<exists>w'. af_closed x (w\<lparr>writable := removeAll x (writable w), sent := ?ss\<rparr>) = Inr w' \<and> af_inv pre w'"
      using af.closed_handle_drop [of pre "w\<lparr>sent := ?ss\<rparr>" x ap p af_notify] x Some p
      by (auto simp: sent_writable af_closed_def)
    moreover have "af_inv pre (w\<lparr>writable := removeAll x (writable w), sent := ?ss\<rparr>)"
      by (rule af.world_ok_consume [OF w]) (use Some p True in auto)
    ultimately show ?thesis using Some p x True
      by (simp add: af_on_writeable_def deref_def lws_write_def)
  next
    case False
    obtain rc w1 w' where "write_pending pre ret x ap p (w\<lparr>writable := removeAll x (writable w)\<rparr>) = Inr (rc, w1)"
      "(if rc < 0 then closed_handle af_notify x w1 else Inr w1) = Inr w'" "af_inv pre w'"
      using af.write_pending_ok [OF w x Some p] by blast
    then show ?thesis using Some p False
      by (cases "rc < 0") (auto simp: af_on_writeable_def deref_def af_closed_def)
  qed
qed

section \<open>Every reachable step is safe\<close>

lemma over_unattached:
  "af_inv pre w \<Longrightarrow> heap w ap = Some p \<Longrightarrow> m_promise p \<Longrightarrow> \<not> attached (m_state p)"
  using world_okD(1) [of pre af_extra "{}" w ap p] by (auto simp: pipe_ok_def terminal_def)

lemma af_step_ok:
  assumes w: "af_inv pre w" and e: "af_enabled pre a w"
  shows "\<exists>w'. af_exec pre a w = Inr w' \<and> af_inv pre w'"
proof (cases a)
  case (ANew ap args)
  then show ?thesis using e AudioPipe_new_ok [of args pre] af.new_pipe_ok [OF w] by simp
next
  case (AConnect ap)
  then show ?thesis using e af.addPendingConnect_ok [OF w] by (auto split: option.splits)
next
  case (ABufferForSending ap t)
  then show ?thesis using e af.bufferForSending_ok [OF w] by fastforce
next
  case (AMedia ap channels resampler frames notified)
  with e af_media_ok [OF w, of ap channels resampler frames notified]
  obtain r w' where "af_media pre channels resampler frames notified ap w = Inr (r, w')" "af_inv pre w'"
    by blast
  then show ?thesis using AMedia by simp
next
  case (AGracefulShutdown ap)
  then show ?thesis using e af_do_graceful_ok [OF w] by fastforce
next
  case (AClose ap)
  then show ?thesis using e af_close_ok [OF w] by fastforce
next
  case (ADelete ap)
  then obtain p where p: "heap w ap = Some p" "m_promise p"
    using e by (auto simp: waitForClose_returns_def split: option.splits)
  then show ?thesis using ADelete af.destroy_pipe_ok [OF w p(1) over_unattached [OF w p]] by auto
next
  case (AWaitCancelled vhd conn)
  then show ?thesis using e af.on_wait_cancelled_ok [OF w] by simp
next
  case (AEstablished x vhd)
  then show ?thesis using e af_on_established_ok [OF w, of x vhd] by auto
next
  case (AConnectionError x msg)
  then show ?thesis using e af.on_connection_error_ok [OF w, of x af_notify msg] by auto
next
  case (AReceive x ev)
  then show ?thesis using e af_on_receive_ok [OF w] by (simp only: af_exec.simps)
next
  case (AWriteable x ret)
  then show ?thesis using e af_writeable_ok [OF w] by (simp only: af_enabled.simps)
next
  case (AClosed x)
  then show ?thesis using e af_closed_ok [OF w] by simp
qed

lemma af_reach_inv: "af_reach pre w \<Longrightarrow> af_inv pre w"
  by (induction rule: af_reach.induct) (auto dest: af_start_inv af_step_ok)

end
