(* ===== verification/PipeFrame.thy ===== *)
theory PipeFrame
  imports PipeHandlers
begin

text \<open>
  How pipes may change over the shared operations. A copy gives a reflexive, transitive relation
  between a pipe before and after; the locale \<open>pipe_relation\<close> lists the changes the shared text
  makes, and shows of every shared operation that it changes pipes only along the relation. The
  last section says which operations leave alone what was sent.
\<close>

section \<open>The life cycle\<close>

fun rank :: "lws_state \<Rightarrow> nat" where
  "rank LWS_CLIENT_IDLE = 0"
| "rank LWS_CLIENT_CONNECTING = 1"
| "rank LWS_CLIENT_CONNECTED = 2"
| "rank LWS_CLIENT_DISCONNECTING = 3"
| "rank LWS_CLIENT_FAILED = 4"
| "rank LWS_CLIENT_DISCONNECTED = 4"

text \<open>The life cycle only goes forward; only an attempt that was not yet successful can fail.\<close>

definition state_le :: "lws_state \<Rightarrow> lws_state \<Rightarrow> bool" where
  "state_le s t \<longleftrightarrow> (s = t \<or> rank s < rank t) \<and>
     (t = LWS_CLIENT_FAILED \<longrightarrow> s \<in> {LWS_CLIENT_IDLE, LWS_CLIENT_CONNECTING, LWS_CLIENT_FAILED})"

lemma state_le_trans: "state_le s t \<Longrightarrow> state_le t u \<Longrightarrow> state_le s u"
  unfolding state_le_def by (cases s; cases t; cases u) simp_all

lemma state_le_simps [simp]:
  "state_le s s" "state_le LWS_CLIENT_IDLE t" "state_le LWS_CLIENT_CONNECTING LWS_CLIENT_FAILED"
  "state_le LWS_CLIENT_CONNECTING LWS_CLIENT_CONNECTED"
  "state_le LWS_CLIENT_CONNECTING LWS_CLIENT_DISCONNECTING"
  "state_le LWS_CLIENT_CONNECTED LWS_CLIENT_DISCONNECTING"
  "state_le LWS_CLIENT_CONNECTED LWS_CLIENT_DISCONNECTED"
  "state_le LWS_CLIENT_DISCONNECTING LWS_CLIENT_DISCONNECTED"
  by (cases s, simp_all add: state_le_def) (cases t, simp_all)

section \<open>Worlds related pipe by pipe\<close>

definition heap_rel :: "('p \<Rightarrow> 'p \<Rightarrow> bool) \<Rightarrow> ('p, 'n) world \<Rightarrow> ('p, 'n) world \<Rightarrow> bool" where
  "heap_rel R w w' \<longleftrightarrow> dom (heap w') = dom (heap w) \<and>
     (\<forall>ap p. heap w ap = Some p \<longrightarrow> (\<exists>q. heap w' ap = Some q \<and> R p q))"

lemma heap_rel_cong: "heap w = heap v \<Longrightarrow> heap w' = heap v' \<Longrightarrow> heap_rel R w w' = heap_rel R v v'"
  by (simp add: heap_rel_def)

lemma heap_rel_updI:
  "heap w ap = Some p \<Longrightarrow> R p q \<Longrightarrow> (\<And>r. R r r) \<Longrightarrow> heap w' = (heap w)(ap := Some q) \<Longrightarrow> heap_rel R w w'"
  by (auto simp: heap_rel_def)

section \<open>Operations that change no pipe\<close>

lemma receive_frame: "receive e p = Inr (m, q) \<Longrightarrow> recv_frame p q"
  by (auto simp: recv_defs recv_frame_def andthen_Inr_iff split: if_splits option.splits)

lemma request_all_heap: "request_all aps w = Inr w' \<Longrightarrow> heap w' = heap w"
  by (induction aps arbitrary: w)
    (fastforce simp: andthen_Inr_iff lws_callback_on_writable_def split: option.splits if_splits)+

lemma processPending_heap:
  "processPendingDisconnects vhd w = Inr w' \<Longrightarrow> heap w' = heap w"
  "processPendingWrites vhd w = Inr w' \<Longrightarrow> heap w' = heap w"
  by (auto simp: processPendingDisconnects_def processPendingWrites_def andthen_Inr_iff
      dest!: request_all_heap)

lemma findAndRemove_heap:
  "findAndRemovePendingConnect x w = Inr (r, w') \<Longrightarrow> heap w' = heap w"
  by (auto simp: findAndRemovePendingConnect_def andthen_Inr_iff Let_def)

section \<open>What was sent\<close>

text \<open>Nothing is sent, and no handle that was open before counts as new.\<close>

fun opened :: "wsi_phase \<Rightarrow> bool" where
  "opened WNone = False"
| "opened WOpening = False"
| "opened WOpen = True"
| "opened WClosed = True"

definition unsent :: "('p, 'n) world \<Rightarrow> ('p, 'n) world \<Rightarrow> bool" where
  "unsent w w' \<longleftrightarrow> sent w' = sent w \<and>
     (\<forall>x. opened (wsi_ph w x) \<longrightarrow> opened (wsi_ph w' x))"

lemma unsent_refl: "sent w' = sent w \<Longrightarrow> wsi_ph w' = wsi_ph w \<Longrightarrow> unsent w w'"
  by (simp add: unsent_def)

lemma unsent_trans: "unsent w w1 \<Longrightarrow> unsent w1 w2 \<Longrightarrow> unsent w w2"
  by (simp add: unsent_def)

lemma fail_connect_unsent: "fail_connect note ap msg w = Inr w' \<Longrightarrow> unsent w w'"
  by (rule unsent_refl)
    (auto simp: fail_connect_def setClosed_at_def set_state_def modify_def notify_def andthen_Inr_iff
      set_pipe_def)

lemma pick_context_unsent: "pick_context n w = (c, w') \<Longrightarrow> unsent w w'"
  by (induction n w rule: pick_context.induct) (auto simp: unsent_def Let_def split: option.splits)

lemma addPendingConnect_unsent: "addPendingConnect note ap w = Inr w' \<Longrightarrow> unsent w w'"
proof -
  assume r: "addPendingConnect note ap w = Inr w'"
  obtain c w1 where c: "pick_context (numContexts w) w = (c, w1)" by force
  have "unsent w1 w'" using r c fail_connect_unsent
    by (auto simp: addPendingConnect_def lws_cancel_service_def unsent_refl split: option.splits)
  then show ?thesis using pick_context_unsent [OF c] unsent_trans by blast
qed

lemma addPending_unsent:
  "addPendingDisconnect ap w = Inr w' \<Longrightarrow> unsent w w'"
  "addPendingWrite ap w = Inr w' \<Longrightarrow> unsent w w'"
  by (rule unsent_refl; auto simp: addPendingDisconnect_def addPendingWrite_def andthen_Inr_iff Let_def
      lws_cancel_service_def set_pipe_def split: if_splits)+

lemma adopt_idle_unsent: "adopt_idle aps w = Inr (cs, w') \<Longrightarrow> unsent w w' \<and> set cs \<subseteq> set aps"
proof (induction aps arbitrary: w cs)
  case (Cons ap aps)
  show ?case
    using Cons.prems Cons.IH
    by (auto simp: andthen_Inr_iff unsent_def set_pipe_def split: if_splits) fastforce+
qed (simp add: unsent_refl)

lemma connect_all_unsent:
  "connect_all note vhd conn aps w = Inr w' \<Longrightarrow>
     sent w' = sent w \<and> (\<forall>x. wsi_ph w' x = wsi_ph w x \<or> (\<exists>ap\<in>set aps. conn ap = Some x))"
proof (induction aps arbitrary: w)
  case (Cons ap aps)
  obtain ok w1 w2 where s: "connect_client vhd conn ap w = Inr (ok, w1)"
    "(if ok then Inr w1 else fail_connect note ap (Some ''connect_client failed'') w1) = Inr w2"
    "connect_all note vhd conn aps w2 = Inr w'"
    using Cons.prems by (auto simp: andthen_Inr_iff)
  have 1: "sent w1 = sent w" "wsi_ph w1 x = wsi_ph w x \<or> conn ap = Some x" for x
    using s(1) by (auto simp: connect_client_def andthen_Inr_iff Let_def lws_client_connect_via_info_def
        set_pipe_def split: if_splits option.splits)
  have "sent w2 = sent w1 \<and> wsi_ph w2 = wsi_ph w1"
    using s(2) by (auto simp: fail_connect_def setClosed_at_def set_state_def modify_def notify_def
        andthen_Inr_iff set_pipe_def split: if_splits)
  then show ?case using 1 Cons.IH [OF s(3)] by (auto; metis)
qed simp

lemma request_all_unsent: "request_all aps w = Inr w' \<Longrightarrow> unsent w w'"
proof (induction aps arbitrary: w)
  case (Cons ap aps)
  obtain m w1 where "lws_callback_on_writable m w = Inr w1" "request_all aps w1 = Inr w'"
    using Cons.prems by (auto simp: andthen_Inr_iff)
  moreover from this(1) have "unsent w w1"
    by (auto simp: lws_callback_on_writable_def unsent_def split: option.splits if_splits)
  ultimately show ?case using Cons.IH unsent_trans by blast
qed (simp add: unsent_refl)

lemma request_all_writes: "request_all aps w = Inr w' \<Longrightarrow> pendingWrites w' = pendingWrites w"
  by (induction aps arbitrary: w)
    (fastforce simp: andthen_Inr_iff lws_callback_on_writable_def split: option.splits if_splits)+

lemma processPending_unsent:
  "processPendingDisconnects vhd w = Inr w' \<Longrightarrow> unsent w w'"
  "processPendingWrites vhd w = Inr w' \<Longrightarrow> unsent w w'"
proof -
  assume "processPendingDisconnects vhd w = Inr w'"
  then obtain keep sel where "request_all sel (w\<lparr>pendingDisconnects := keep\<rparr>) = Inr w'"
    by (auto simp: processPendingDisconnects_def andthen_Inr_iff)
  from request_all_unsent [OF this] show "unsent w w'" by (simp add: unsent_def)
next
  assume "processPendingWrites vhd w = Inr w'"
  then obtain keep sel where "request_all sel (w\<lparr>pendingWrites := keep\<rparr>) = Inr w'"
    by (auto simp: processPendingWrites_def andthen_Inr_iff)
  from request_all_unsent [OF this] show "unsent w w'" by (simp add: unsent_def)
qed

lemma on_wait_cancelled_unsent:
  assumes r: "on_wait_cancelled note vhd conn w = Inr w'" and f: "fresh_conn conn (pendingConnects w) w"
  shows "unsent w w'"
proof -
  obtain cs w1 w2 w3 where s: "adopt_idle (pendingConnects w) w = Inr (cs, w1)"
    "connect_all note vhd conn cs w1 = Inr w2" "processPendingDisconnects vhd w2 = Inr w3"
    "processPendingWrites vhd w3 = Inr w'"
    using r by (auto simp: on_wait_cancelled_def processPendingConnects_def andthen_Inr_iff)
  have "unsent w w1" "set cs \<subseteq> set (pendingConnects w)" using adopt_idle_unsent [OF s(1)] by simp_all
  have "unsent w w2"
  proof -
    have "opened (wsi_ph w2 x)" if x: "opened (wsi_ph w x)" for x
    proof -
      have "conn ap \<noteq> Some x" if "ap \<in> set cs" for ap
        using f that \<open>set cs \<subseteq> set (pendingConnects w)\<close> x by (auto simp: fresh_conn_def)
      then show ?thesis using connect_all_unsent [OF s(2)] \<open>unsent w w1\<close> x by (metis unsent_def)
    qed
    then show ?thesis using connect_all_unsent [OF s(2)] \<open>unsent w w1\<close> by (simp add: unsent_def)
  qed
  then show ?thesis using processPending_unsent s(3,4) unsent_trans by blast
qed

lemma findAndRemove_unsent: "findAndRemovePendingConnect x w = Inr (r, w') \<Longrightarrow> unsent w w'"
  by (auto simp: findAndRemovePendingConnect_def andthen_Inr_iff Let_def unsent_def)

lemma on_connection_error_unsent: "on_connection_error note x msg w = Inr w' \<Longrightarrow> unsent w w'"
proof -
  assume "on_connection_error note x msg w = Inr w'"
  then obtain r w1 where "findAndRemovePendingConnect x w = Inr (r, w1)"
    "(case r of None \<Rightarrow> Inr w1 | Some ap \<Rightarrow> fail_connect note ap msg w1) = Inr w'"
    by (auto simp: on_connection_error_def andthen_Inr_iff)
  then show ?thesis
    using findAndRemove_unsent unsent_trans fail_connect_unsent by (fastforce split: option.splits)
qed

lemma closed_handle_unsent: "closed_handle note x w = Inr w' \<Longrightarrow> unsent w w'"
  by (auto simp: closed_handle_def on_closed_def setClosed_at_def set_state_def modify_def notify_def
      andthen_Inr_iff set_pipe_def unsent_def split: option.splits if_splits)

lemma on_receive_unsent: "on_receive note x e w = Inr w' \<Longrightarrow> unsent w w'"
  by (auto simp: on_receive_def notify_def andthen_Inr_iff set_pipe_def unsent_def Let_def
      split: option.splits)

lemma media_frames_unsent:
  assumes "media_frames pre channels resampler frames notified ap w = Inr (r, w')"
  shows "unsent w w'"
proof -
  obtain q where "unlockAudioBuffer pre ap (set_pipe ap q w) = Inr w'"
    using assms by (auto simp: media_frames_def andthen_Inr_iff)
  then have "unsent (set_pipe ap q w) w'"
    using addPending_unsent(2) [of ap "set_pipe ap q w" w']
    by (auto simp: unlockAudioBuffer_def andthen_Inr_iff unsent_refl split: if_splits)
  then show ?thesis by (simp add: unsent_def set_pipe_def)
qed

text \<open>Connecting leaves the other lists alone.\<close>

definition lists_kept :: "('p, 'n) world \<Rightarrow> ('p, 'n) world \<Rightarrow> bool" where
  "lists_kept w w' \<longleftrightarrow> pendingDisconnects w' = pendingDisconnects w \<and>
     pendingWrites w' = pendingWrites w \<and> writable w' = writable w"

lemma adopt_idle_lists: "adopt_idle aps w = Inr (cs, w') \<Longrightarrow> lists_kept w w'"
  by (induction aps arbitrary: w cs)
    (fastforce simp: lists_kept_def andthen_Inr_iff set_pipe_def split: if_splits)+

lemma fail_connect_lists: "fail_connect note ap msg w = Inr w' \<Longrightarrow> lists_kept w w'"
  by (auto simp: lists_kept_def andthen_Inr_iff world_simps)

lemma connect_all_lists: "connect_all note vhd conn aps w = Inr w' \<Longrightarrow> lists_kept w w'"
proof (induction aps arbitrary: w)
  case (Cons ap aps)
  obtain ok w1 w2 where s: "connect_client vhd conn ap w = Inr (ok, w1)"
    "(if ok then Inr w1 else fail_connect note ap (Some ''connect_client failed'') w1) = Inr w2"
    "connect_all note vhd conn aps w2 = Inr w'"
    using Cons.prems by (auto simp: andthen_Inr_iff)
  have "lists_kept w w1" using s(1)
    by (auto simp: connect_client_def andthen_Inr_iff lists_kept_def Let_def set_pipe_def
        lws_client_connect_via_info_def split: if_splits option.splits)
  moreover have "lists_kept w1 w2"
    using s(2) fail_connect_lists [of "note" ap "Some ''connect_client failed''" w1 w2]
    by (cases ok) (simp_all add: lists_kept_def)
  ultimately show ?case using Cons.IH [OF s(3)] by (simp add: lists_kept_def)
qed (simp add: lists_kept_def)

section \<open>The relation and its laws\<close>

locale pipe_relation = pipe_extra extra for extra :: "'a pipe_scheme \<Rightarrow> bool" +
  fixes R :: "'a pipe_scheme \<Rightarrow> 'a pipe_scheme \<Rightarrow> bool"
  assumes R_refl: "R p p"
    and R_trans: "R p q \<Longrightarrow> R q r \<Longrightarrow> R p r"
    and R_adopt: "m_state p = LWS_CLIENT_IDLE \<Longrightarrow> R p (p\<lparr>m_state := LWS_CLIENT_CONNECTING\<rparr>)"
    and R_connect: "m_state p = LWS_CLIENT_CONNECTING \<Longrightarrow>
      R p (p\<lparr>m_state := LWS_CLIENT_CONNECTING, m_vhd := v, m_wsi := c\<rparr>)"
    and R_fail: "m_state p \<in> {LWS_CLIENT_IDLE, LWS_CLIENT_CONNECTING} \<Longrightarrow>
      R p (p\<lparr>m_state := LWS_CLIENT_FAILED, m_closeSignaled := True, m_promise := True\<rparr>)"
    and R_disconnect: "m_state p = LWS_CLIENT_CONNECTED \<Longrightarrow> R p (p\<lparr>m_state := LWS_CLIENT_DISCONNECTING\<rparr>)"
    and R_closed: "attached (m_state p) \<Longrightarrow>
      R p (p\<lparr>m_state := LWS_CLIENT_DISCONNECTED, m_closeSignaled := True, m_promise := True\<rparr>)"
    and R_recv: "recv_frame p q \<Longrightarrow> R p q"
    and R_audio: "audio_frame p q \<Longrightarrow> R p q"
begin

lemma heap_rel_refl: "heap w' = heap w \<Longrightarrow> heap_rel R w w'"
  by (simp add: heap_rel_def R_refl)

lemma heap_rel_trans: "heap_rel R w w1 \<Longrightarrow> heap_rel R w1 w2 \<Longrightarrow> heap_rel R w w2"
  unfolding heap_rel_def by (blast intro: R_trans)

lemmas heap_rel_upd = heap_rel_updI [where R = R, OF _ _ R_refl]

text \<open>Failing a connection, adopting and connecting.\<close>

lemma fail_connect_rel:
  assumes "heap w ap = Some p" "promise_ok p" "m_state p \<in> {LWS_CLIENT_IDLE, LWS_CLIENT_CONNECTING}"
    "fail_connect note ap msg w = Inr w'"
  shows "heap_rel R w w'" "\<And>a. a \<noteq> ap \<Longrightarrow> heap w' a = heap w a"
proof -
  let ?q = "p\<lparr>m_state := LWS_CLIENT_FAILED, m_closeSignaled := True, m_promise := True\<rparr>"
  have h: "heap w' = (heap w)(ap := Some ?q)"
    using fail_connect_eq [OF assms(1,2), of "note" msg] assms(4) by (auto simp: set_pipe_def)
  then show "\<And>a. a \<noteq> ap \<Longrightarrow> heap w' a = heap w a" by simp
  have "R p ?q" using R_fail assms(3) by simp
  from heap_rel_upd [OF assms(1) this h] show "heap_rel R w w'" .
qed

lemma adopt_idle_rel:
  "adopt_idle aps w = Inr (cs, w') \<Longrightarrow>
     heap_rel R w w' \<and>
     (\<forall>a p. heap w a = Some p \<longrightarrow> m_state p \<noteq> LWS_CLIENT_IDLE \<longrightarrow> heap w' a = Some p \<and> a \<notin> set cs)"
proof (induction aps arbitrary: w cs)
  case (Cons ap aps)
  obtain p where p: "heap w ap = Some p" using Cons.prems by (auto simp: deref_def split: option.splits)
  show ?case
  proof (cases "m_state p = LWS_CLIENT_IDLE")
    case True
    let ?q = "p\<lparr>m_state := LWS_CLIENT_CONNECTING\<rparr>"
    obtain cs' where cs': "adopt_idle aps (set_pipe ap ?q w) = Inr (cs', w')" "cs = ap # cs'"
      using Cons.prems p True by (auto simp: deref_def andthen_Inr_iff)
    have "heap_rel R w (set_pipe ap ?q w)"
      by (rule heap_rel_upd [OF p, of ?q]) (simp_all add: R_adopt True set_pipe_def)
    from heap_rel_trans [OF this] Cons.IH [OF cs'(1)] have "heap_rel R w w'" by blast
    moreover have "heap w' a = Some r \<and> a \<notin> set cs"
      if "heap w a = Some r" "m_state r \<noteq> LWS_CLIENT_IDLE" for a r
    proof -
      have "a \<noteq> ap" using that p True by auto
      then show ?thesis using Cons.IH [OF cs'(1)] that cs'(2) by (simp add: set_pipe_def)
    qed
    ultimately show ?thesis by blast
  next
    case False
    then show ?thesis using Cons.IH [of w cs] Cons.prems p by (simp add: deref_def)
  qed
qed (simp add: heap_rel_refl)

lemma connect_all_rel:
  assumes "connect_all note vhd conn aps w = Inr w'" "distinct aps"
    "\<And>a. a \<in> set aps \<Longrightarrow> \<exists>p. heap w a = Some p \<and> promise_ok p \<and> m_state p = LWS_CLIENT_CONNECTING"
  shows "heap_rel R w w' \<and> (\<forall>a. a \<notin> set aps \<longrightarrow> heap w' a = heap w a)"
  using assms
proof (induction aps arbitrary: w)
  case (Cons ap aps)
  obtain p where p: "heap w ap = Some p" "promise_ok p" "m_state p = LWS_CLIENT_CONNECTING"
    using Cons.prems(3) [of ap] by auto
  let ?q = "p\<lparr>m_state := LWS_CLIENT_CONNECTING, m_vhd := Some vhd, m_wsi := conn ap\<rparr>"
  let ?w = "lws_client_connect_via_info (conn ap) (set_pipe ap ?q w)"
  have hw: "heap ?w = (heap w)(ap := Some ?q)"
    by (simp add: lws_client_connect_via_info_def set_pipe_def split: option.splits)
  have ev: "heap_rel R w ?w" by (rule heap_rel_upd [OF p(1) _ hw]) (rule R_connect, rule p)
  obtain w1 where w1: "(if conn ap \<noteq> None then Inr ?w
      else fail_connect note ap (Some ''connect_client failed'') ?w) = Inr w1"
    "connect_all note vhd conn aps w1 = Inr w'"
    using Cons.prems(1) p(1)
    by (auto simp: connect_client_def deref_def andthen_Inr_iff Let_def split: if_splits)
  have "heap_rel R ?w w1 \<and> (\<forall>a. a \<noteq> ap \<longrightarrow> heap w1 a = heap ?w a)"
  proof (cases "conn ap \<noteq> None")
    case True
    then show ?thesis using w1(1) by (simp add: heap_rel_refl)
  next
    case False
    then show ?thesis
      using w1(1) hw fail_connect_rel [of ?w ap ?q "note" "Some ''connect_client failed''" w1] p
      by (simp add: promise_ok_update)
  qed
  then have step: "heap_rel R ?w w1" "\<And>a. a \<noteq> ap \<Longrightarrow> heap w1 a = heap w a" using hw by auto
  have "heap_rel R w1 w' \<and> (\<forall>a. a \<notin> set aps \<longrightarrow> heap w' a = heap w1 a)"
  proof (rule Cons.IH [OF w1(2)])
    fix a assume "a \<in> set aps"
    then show "\<exists>p. heap w1 a = Some p \<and> promise_ok p \<and> m_state p = LWS_CLIENT_CONNECTING"
      using Cons.prems(2) Cons.prems(3) [of a] step(2) [of a] by (cases "a = ap") auto
  qed (use Cons.prems(2) in simp)
  then show ?case using heap_rel_trans [OF heap_rel_trans [OF ev step(1)]] step(2) by auto
qed (simp add: heap_rel_refl)

text \<open>The handlers.\<close>

lemma on_wait_cancelled_rel:
  assumes w: "world_ok pre extra {} w" and r: "on_wait_cancelled note vhd conn w = Inr w'"
  shows "heap_rel R w w'"
    and "heap w a = Some p \<Longrightarrow> m_state p \<noteq> LWS_CLIENT_IDLE \<Longrightarrow> heap w' a = Some p"
proof -
  obtain cs w1 w2 w3 where s: "adopt_idle (pendingConnects w) w = Inr (cs, w1)"
    "connect_all note vhd conn cs w1 = Inr w2" "processPendingDisconnects vhd w2 = Inr w3"
    "processPendingWrites vhd w3 = Inr w'"
    using r by (auto simp: on_wait_cancelled_def processPendingConnects_def andthen_Inr_iff)
  have h: "heap w' = heap w2" using processPending_heap s(3,4) by metis
  have a: "world_ok pre extra (set cs) w1" "distinct cs"
    using adopt_idle_ok [OF w subset_refl] s(1) by auto
  have c: "\<exists>p. heap w1 a = Some p \<and> promise_ok p \<and> m_state p = LWS_CLIENT_CONNECTING"
    if ain: "a \<in> set cs" for a
  proof -
    obtain p where p: "heap w1 a = Some p" using world_ok_adopted [OF a(1) ain] by blast
    then show ?thesis using world_okD [OF a(1) p] ain by (simp add: linked_def pipe_ok_def)
  qed
  note e1 = adopt_idle_rel [OF s(1)] and e2 = connect_all_rel [OF s(2) a(2) c]
  show "heap_rel R w w'"
    using heap_rel_trans e1 e2 h heap_rel_cong [of w1 w1 w' w2] by metis
  show "heap w' a = Some p" if "heap w a = Some p" "m_state p \<noteq> LWS_CLIENT_IDLE"
    using e1 e2 h that by metis
qed

lemma on_connection_error_rel:
  assumes w: "world_ok pre extra {} w" and r: "on_connection_error note x msg w = Inr w'"
  shows "heap_rel R w w'"
proof -
  obtain s w1 where f: "findAndRemovePendingConnect x w = Inr (s, w1)"
    "case s of None \<Rightarrow> world_ok pre extra {} w1 \<and> (\<forall>ap. \<not> connecting_on x w ap)
     | Some ap \<Rightarrow> world_ok_but pre extra ap {} w1 \<and> connecting_on x w ap"
    using findAndRemovePendingConnect_ok [OF w, of x] by blast
  have h: "heap w1 = heap w" using findAndRemove_heap [OF f(1)] .
  show ?thesis
  proof (cases s)
    case None
    then show ?thesis using r f(1) h by (simp add: on_connection_error_def heap_rel_refl)
  next
    case (Some ap)
    then obtain p where p: "heap w ap = Some p" "m_state p = LWS_CLIENT_CONNECTING"
      using f(2) by (auto simp: connecting_on_def split: option.splits)
    moreover have "promise_ok p" using world_okD(1) [OF w p(1)] by (simp add: pipe_ok_def)
    ultimately have "heap_rel R w1 w'"
      using fail_connect_rel(1) [of w1 ap p "note" msg w'] r f(1) Some h
      by (simp add: on_connection_error_def)
    then show ?thesis using h heap_rel_cong [of w1 w w' w'] by simp
  qed
qed

lemma closed_handle_rel:
  assumes w: "\<And>ap. wsi_user w x = Some ap \<Longrightarrow>
      \<exists>p. heap w ap = Some p \<and> attached (m_state p) \<and> promise_ok p"
    and r: "closed_handle note x w = Inr w'"
  shows "heap_rel R w w'"
proof (cases "wsi_user w x")
  case None
  then show ?thesis using r by (auto simp: closed_handle_def on_closed_def heap_rel_refl)
next
  case (Some ap)
  then obtain p where p: "heap w ap = Some p" "attached (m_state p)" "promise_ok p" using w by blast
  then have "heap w' = (heap w)(ap := Some (p\<lparr>m_state := LWS_CLIENT_DISCONNECTED,
      m_closeSignaled := True, m_promise := True\<rparr>))"
    using on_closed_eq [OF Some p, of "note"] r by (auto simp: closed_handle_def)
  from heap_rel_upd [OF p(1) R_closed this] show ?thesis
    using p(2) by blast
qed

lemma inv_user:
  assumes "world_ok pre extra {} w" "wsi_user w x = Some ap"
  shows "\<exists>p. heap w ap = Some p \<and> attached (m_state p) \<and> promise_ok p"
proof -
  obtain p where "heap w ap = Some p" "attached (m_state p)" using world_ok_user [OF assms] by blast
  then show ?thesis using world_okD(1) [OF assms(1)] by (auto simp: pipe_ok_def)
qed

lemma on_receive_rel:
  assumes w: "world_ok pre extra {} w" and r: "on_receive note x ev w = Inr w'"
  shows "heap_rel R w w'"
proof (cases "wsi_user w x")
  case None
  then show ?thesis using r by (simp add: on_receive_def heap_rel_refl)
next
  case (Some ap)
  then obtain p where p: "heap w ap = Some p" using inv_user [OF w] by blast
  then obtain m q where q: "receive ev p = Inr (m, q)" "heap w' = (heap w)(ap := Some q)"
    using r Some
    by (auto simp: on_receive_def deref_def notify_def set_pipe_def Let_def andthen_Inr_iff
        split: option.splits)
  show ?thesis using heap_rel_upd [OF p _ q(2)] R_recv receive_frame [OF q(1)] by blast
qed

lemma media_frames_rel:
  assumes "world_ok pre extra {} w" "media_enabled pre ap channels resampler frames w"
    "media_frames pre channels resampler frames notified ap w = Inr (r, w')"
  shows "heap_rel R w w'"
proof -
  obtain p q where "heap w ap = Some p" "audio_frame p q" "heap w' = (heap w)(ap := Some q)"
    using media_frames_ok [OF assms(1,2), of notified] assms(3) by auto
  then show ?thesis using heap_rel_upd R_audio by blast
qed

lemma addPendingConnect_rel:
  assumes w: "world_ok pre extra {} w" and p: "heap w ap = Some p" "m_state p = LWS_CLIENT_IDLE"
    and r: "addPendingConnect note ap w = Inr w'"
  shows "heap_rel R w w'"
proof -
  obtain c w1 where c: "pick_context (numContexts w) w = (c, w1)" by force
  have h: "heap w1 = heap w" by (subst pick_context_frame [OF c]) simp
  have "promise_ok p" using world_okD(1) [OF w p(1)] by (simp add: pipe_ok_def)
  then have "heap_rel R w1 w'"
    using r c fail_connect_rel(1) [of w1 ap p "note" "Some ''no lws context available''" w'] p h
    by (auto simp: addPendingConnect_def lws_cancel_service_def heap_rel_refl split: option.splits)
  then show ?thesis using h heap_rel_cong [of w1 w w' w'] by simp
qed

lemma addPendingDisconnect_rel:
  assumes "world_ok pre extra {} w" "heap w ap = Some p" "addPendingDisconnect ap w = Inr w'"
  shows "heap_rel R w w'"
  using addPendingDisconnect_ok [OF assms(1,2)] assms(2,3) heap_rel_upd [OF assms(2) R_disconnect, of w']
  by (auto intro: heap_rel_refl split: if_splits)

text \<open>The wake-up of its context turns a queued disconnect or write of a pipe into a request for a
  writeable event.\<close>

lemma wait_cancelled_serves:
  assumes w: "world_ok pre extra {} w" and h: "heap w ap = Some p"
    and p: "attached (m_state p)" "m_vhd p = Some c" "m_wsi p = Some x"
    and queued: "m_state p = LWS_CLIENT_DISCONNECTING \<and> ap \<in> set (pendingDisconnects w) \<or>
      m_state p = LWS_CLIENT_CONNECTED \<and> ap \<in> set (pendingWrites w) \<or> x \<in> set (writable w)"
    and f: "fresh_conn conn (pendingConnects w) w"
  shows "\<exists>w'. on_wait_cancelled note c conn w = Inr w' \<and> world_ok pre extra {} w' \<and> heap w' ap = Some p \<and>
    wsi_ph w' x = WOpen \<and> wsi_user w' x = Some ap \<and> x \<in> set (writable w')"
proof -
  obtain w' where r: "on_wait_cancelled note c conn w = Inr w'" "world_ok pre extra {} w'"
    using on_wait_cancelled_ok [OF w f, of "note" c] by blast
  have h': "heap w' ap = Some p" using on_wait_cancelled_rel(2) [OF w r(1) h] p(1) by (cases "m_state p") simp_all
  have x: "wsi_ph w' x = WOpen" "wsi_user w' x = Some ap"
    using world_ok_open [OF r(2) h'] p(1,3) by auto
  obtain cs w1 w2 w3 where s: "adopt_idle (pendingConnects w) w = Inr (cs, w1)"
    "connect_all note c conn cs w1 = Inr w2" "processPendingDisconnects c w2 = Inr w3"
    "processPendingWrites c w3 = Inr w'"
    using r(1) by (auto simp: on_wait_cancelled_def processPendingConnects_def andthen_Inr_iff)
  have q: "pendingDisconnects w2 = pendingDisconnects w" "pendingWrites w2 = pendingWrites w"
    "writable w2 = writable w"
    using adopt_idle_lists [OF s(1)] connect_all_lists [OF s(2)] by (simp_all add: lists_kept_def)
  obtain cs' v1 where v: "adopt_idle (pendingConnects w) w = Inr (cs', v1)"
    "world_ok pre extra (set cs') v1" "distinct cs'" "wsi_ph v1 = wsi_ph w"
    using adopt_idle_ok [OF w subset_refl] by auto
  have cs: "cs' = cs" "v1 = w1" using v(1) s(1) by simp_all
  have "set cs \<subseteq> set (pendingConnects w)" using adopt_idle_unsent [OF s(1)] by blast
  then have "fresh_conn conn cs w1" using fresh_conn_subset f v(4) cs by metis
  from connect_all_ok [OF _ _ _ this, of pre "{}" "note" c] v(2,3) cs s(2)
  have w2: "world_ok pre extra {} w2" by auto
  have w3: "world_ok pre extra {} w3" "heap w3 = heap w2"
    using processPendingDisconnects_ok [OF w2, of c] s(3) by auto
  have pw: "pendingWrites w3 = pendingWrites w2"
    using s(3) request_all_writes by (fastforce simp: processPendingDisconnects_def andthen_Inr_iff)
  have h2: "heap w2 ap = Some p"
    using h' w3(2) processPendingWrites_ok [OF w3(1), of c] s(4) by auto
  consider (dis) "m_state p = LWS_CLIENT_DISCONNECTING" "ap \<in> set (pendingDisconnects w2)"
    | (wr) "m_state p = LWS_CLIENT_CONNECTED" "ap \<in> set (pendingWrites w3)"
    | (asked) "x \<in> set (writable w2)"
    using queued q pw by auto
  then have "x \<in> set (writable w3) \<or> m_state p = LWS_CLIENT_CONNECTED \<and> ap \<in> set (pendingWrites w3)"
    by cases (use processPendingDisconnects_ok [OF w2, of c] s(3) h2 p(2,3) in auto)
  then have "x \<in> set (writable w')"
    using processPendingWrites_ok [OF w3(1), of c] s(4) h2 w3(2) p(2,3) by auto
  with r h' x show ?thesis by blast
qed

end

end
