(* ===== verification/ForkProps.thy ===== *)
theory ForkProps
  imports ForkSafe PipeFrame
begin

text \<open>
  The properties of mod_audio_fork's pipes: how a pipe may evolve, what closing it leads to, and
  where a graceful shutdown and the authentication header go wrong.
\<close>

section \<open>How a pipe may evolve\<close>

definition evolves :: "af_pipe \<Rightarrow> af_pipe \<Rightarrow> bool" where
  "evolves p q \<longleftrightarrow> state_le (m_state p) (m_state q) \<and>
     (m_closePending p \<longrightarrow> m_closePending q) \<and> (m_gracefulShutdown p \<longrightarrow> m_gracefulShutdown q) \<and>
     (m_promise p \<longrightarrow> m_promise q) \<and> m_uuid q = m_uuid p \<and> m_bugname q = m_bugname p \<and>
     m_audio_buffer_max_len q = m_audio_buffer_max_len p \<and> 
     m_audio_buffer_min_freespace q = m_audio_buffer_min_freespace p"

abbreviation heap_evolves :: "af_world \<Rightarrow> af_world \<Rightarrow> bool" where
  "heap_evolves w w' \<equiv> heap_rel evolves w w'"

lemmas heap_evolves_def = heap_rel_def [where R = evolves]

lemma evolves_refl [simp]: "evolves p p"
  by (simp add: evolves_def)

lemma evolves_trans: "evolves p q \<Longrightarrow> evolves q r \<Longrightarrow> evolves p r"
  unfolding evolves_def by (elim conjE) (intro conjI; (erule (1) state_le_trans)?; simp)

interpretation afr: pipe_relation af_extra evolves
proof (unfold_locales, goal_cases)
  case (2 p q r)
  then show ?case by (rule evolves_trans)
qed (auto simp: evolves_def attached_def recv_frame_iff audio_frame_iff)

lemmas heap_evolves_refl = afr.heap_rel_refl
lemmas heap_evolves_trans = afr.heap_rel_trans
lemmas heap_evolves_upd = afr.heap_rel_upd
lemmas heap_evolves_cong = heap_rel_cong [where R = evolves]
lemmas on_wait_cancelled_evolves = afr.on_wait_cancelled_rel
lemmas af_inv_user = afr.inv_user

text \<open>The handlers of this copy.\<close>

lemma af_on_writeable_evolves:
  assumes "af_on_writeable pre ret x w = Inr (rc, w')"
  shows "heap_evolves w w' \<and> wsi_user w' = wsi_user w \<and>
    (\<forall>ap. wsi_user w x \<noteq> Some ap \<longrightarrow> heap w' ap = heap w ap) \<and>
    (\<forall>ap p. heap w ap = Some p \<longrightarrow> (\<exists>q. heap w' ap = Some q \<and> m_state q = m_state p \<and>
       promise_ok q = promise_ok p))"
proof (cases "wsi_user w x")
  case None
  then show ?thesis using assms by (simp add: af_on_writeable_def write_pending_def heap_evolves_refl)
next
  case (Some ap)
  then obtain p where p: "heap w ap = Some p"
    using assms by (auto simp: af_on_writeable_def write_pending_def deref_def split: option.splits)
  obtain q where q: "heap w' = (heap w)(ap := Some q)" "evolves p q" "m_state q = m_state p"
    "promise_ok q = promise_ok p" "wsi_user w' = wsi_user w"
    using assms Some p
    by (fastforce simp: af_on_writeable_def write_pending_def deref_def andthen_Inr_iff lws_write_def set_pipe_def
        lws_callback_on_writable_def evolves_def fun_upd_idem Let_def split: if_splits)
  from heap_evolves_upd [OF p q(2,1)] show ?thesis using q p Some by auto
qed

lemma af_step_evolves:
  assumes w: "af_inv pre w" and e: "af_enabled pre a w" and r: "af_exec pre a w = Inr w'"
    and a: "\<And>ap. a \<noteq> ADelete ap" "\<And>ap args. a \<noteq> ANew ap args"
  shows "heap_evolves w w'"
proof (cases a)
  case (ANew ap args)
  then show ?thesis using a by blast
next
  case (AConnect ap)
  then show ?thesis using e r afr.addPendingConnect_rel [OF w] by (auto split: option.splits)
next
  case (ABufferForSending ap t)
  then obtain p where p: "heap w ap = Some p" using e by auto
  show ?thesis
    using af.bufferForSending_ok [OF w p, of t] r ABufferForSending p
    by (auto simp: heap_evolves_def evolves_def)
next
  case (AMedia ap channels resampler frames notified)
  then obtain s where "af_media pre channels resampler frames notified ap w = Inr (s, w')"
    using r by (auto simp: andthen_Inr_iff)
  then show ?thesis using e AMedia afr.media_frames_rel [OF w] by (simp add: af_media_def)
next
  case (AGracefulShutdown ap)
  then obtain p where p: "heap w ap = Some p" using e by auto
  show ?thesis
    using af_do_graceful_ok [OF w p] r AGracefulShutdown p
    by (auto simp: heap_evolves_def evolves_def)
next
  case (AClose ap)
  then obtain p where p: "heap w ap = Some p" using e by auto
  show ?thesis using af_close_ok [OF w p] r AClose p by (auto simp: heap_evolves_def evolves_def)
next
  case (ADelete ap)
  then show ?thesis using a by blast
next
  case (AWaitCancelled vhd conn)
  then show ?thesis using on_wait_cancelled_evolves(1) [OF w] r by simp
next
  case (AEstablished x vhd)
  then show ?thesis using af_on_established_ok [OF w, of x vhd] e r
    by (fastforce simp: heap_evolves_def evolves_def connecting_on_def)
next
  case (AConnectionError x msg)
  then obtain w1 where "on_connection_error af_notify x msg w = Inr w1" "heap w' = heap w1"
    using r by (auto simp: andthen_Inr_iff)
  then show ?thesis using afr.on_connection_error_rel [OF w] heap_evolves_cong [of w w w' w1] by simp
next
  case (AReceive x ev)
  then show ?thesis using r afr.on_receive_rel [OF w] by (simp add: af_on_receive_def)
next
  case (AWriteable x ret)
  let ?w0 = "w\<lparr>writable := removeAll x (writable w)\<rparr>"
  obtain rc w1 where r1: "af_on_writeable pre ret x ?w0 = Inr (rc, w1)"
    "(if rc < 0 then af_closed x w1 else Inr w1) = Inr w'"
    using r AWriteable by (auto simp: andthen_Inr_iff)
  note e1 = af_on_writeable_evolves [OF r1(1)]
  have "heap_evolves w1 w'"
  proof (cases "rc < 0")
    case True
    have "\<exists>p. heap w1 ap = Some p \<and> attached (m_state p) \<and> promise_ok p" if "wsi_user w1 x = Some ap" for ap
      using e1 af_inv_user [OF w, of x ap] that by fastforce
    from afr.closed_handle_rel [OF this] r1(2) True show ?thesis by (simp add: af_closed_def)
  qed (use r1(2) in \<open>simp add: heap_evolves_refl\<close>)
  then show ?thesis using e1 heap_evolves_trans heap_evolves_cong [of ?w0 w w1 w1] by auto
next
  case (AClosed x)
  then show ?thesis using afr.closed_handle_rel [of w x af_notify w'] af_inv_user [OF w] r by (simp add: af_closed_def)
qed

lemma af_step_evolves_at:
  assumes "af_inv pre w" "af_enabled pre a w" "af_exec pre a w = Inr w'"
    and "heap w ap = Some p" "heap w' ap = Some q"
  shows "evolves p q"
proof (cases "(\<exists>aq. a = ADelete aq) \<or> (\<exists>aq args. a = ANew aq args)")
  case True
  then show ?thesis using assms(2-5)
    by (auto simp: destroy_pipe_def deref_def removeFromPending_def Let_def set_pipe_def
        split: option.splits if_splits)
next
  case False
  then have "heap_evolves w w'" using af_step_evolves [OF assms(1-3)] by blast
  then show ?thesis using assms(4,5) by (fastforce simp: heap_evolves_def)
qed

section \<open>Properties of every reachable world\<close>


text \<open>C12: \<open>waitForClose\<close> returns exactly for the pipes whose connection has failed or is
  closed.\<close>

lemma af_promise_iff_over:
  assumes "af_reach pre w" "heap w ap = Some p"
  shows "waitForClose_returns p \<longleftrightarrow> m_state p \<in> {LWS_CLIENT_FAILED, LWS_CLIENT_DISCONNECTED}"
  using world_okD(1) [OF af_reach_inv [OF assms(1)] assms(2)]
  by (simp add: pipe_ok_def waitForClose_returns_def terminal_def)

text \<open>C7: when the reaper deletes a pipe after \<open>waitForClose\<close>, no pending list and no connection
  handle refers to it any more, and the other pipes are as before.\<close>

theorem af_delete_leaves_no_reference:
  assumes "af_reach pre w" "heap w ap = Some p" "waitForClose_returns p"
  shows "\<exists>w'. af_exec pre (ADelete ap) w = Inr w' \<and> heap w' = (heap w)(ap := None) \<and>
    ap \<notin> set (pendingConnects w') \<and> ap \<notin> set (pendingDisconnects w') \<and>
    ap \<notin> set (pendingWrites w') \<and> (\<forall>x. wsi_user w' x \<noteq> Some ap)"
  using af.destroy_pipe_ok [OF af_reach_inv [OF assms(1)] assms(2)]
    over_unattached [OF af_reach_inv [OF assms(1)] assms(2)] assms(3)
  by (auto simp: waitForClose_returns_def pending_def)

text \<open>A pipe only moves forward in its life cycle, fails only before it was ever connected,
  and never loses a recorded request to close or to shut down, nor its promise.\<close>

lemma af_lifecycle:
  assumes "af_reach pre w" "af_enabled pre a w" "af_exec pre a w = Inr w'"
    and "heap w ap = Some p" "heap w' ap = Some q"
  shows "state_le (m_state p) (m_state q) \<and> (m_closePending p \<longrightarrow> m_closePending q) \<and>
    (m_gracefulShutdown p \<longrightarrow> m_gracefulShutdown q) \<and>
    (waitForClose_returns p \<longrightarrow> waitForClose_returns q)"
  using af_step_evolves_at [OF af_reach_inv [OF assms(1)] assms(2-5)]
  by (simp add: evolves_def waitForClose_returns_def)


end
