(* ===== verification/ForkDemo.thy ===== *)
theory ForkDemo
  imports ForkPipe
begin

text \<open>
  A concrete call: one pipe is created, connected, and sent something. The worlds it passes
  through are reachable; the properties of the reachable worlds are instantiated on them.
\<close>

fun af_run :: "nat \<Rightarrow> af_action list \<Rightarrow> af_world \<Rightarrow> ub + af_world" where
  "af_run pre [] w = Inr w"
| "af_run pre (a # as) w = andthen (af_exec pre a w) (af_run pre as)"

fun af_enabled_run :: "nat \<Rightarrow> af_action list \<Rightarrow> af_world \<Rightarrow> bool" where
  "af_enabled_run pre [] w = True"
| "af_enabled_run pre (a # as) w =
     (af_enabled pre a w \<and>
      (case af_exec pre a w of Inl _ \<Rightarrow> False | Inr w1 \<Rightarrow> af_enabled_run pre as w1))"

lemma af_run_reach:
  "af_reach pre w \<Longrightarrow> af_enabled_run pre as w \<Longrightarrow> af_run pre as w = Inr w' \<Longrightarrow> af_reach pre w'"
  by (induction as arbitrary: w) (auto split: sum.splits intro: af_reach.step)

definition demo_args :: af_args where
  "demo_args = \<lparr>a_uuid = ''u'', a_host = ''h'', a_port = 80, a_path = ''/'', a_sslFlags = 0,
     a_bufLen = 10, a_minFreespace = 4, a_username = None, a_password = None, a_bugname = ''b'',
     a_block = replicate 10 0, a_junk = 0\<rparr>"

definition demo_pipe :: af_pipe where
  "demo_pipe = AudioPipe_new 2 demo_args"

definition demo_start :: af_world where
  "demo_start = \<lparr>heap = (\<lambda>_. None), pendingConnects = [], pendingDisconnects = [], pendingWrites = [],
     contexts = [Some 7], numContexts = 1, nchild = 0, stopRequested = False, serviceThreads = [],
     wsi_user = (\<lambda>_. None), wsi_ph = (\<lambda>_. WNone), wakeups = [], writable = [], sent = [],
     notifications = []\<rparr>"

definition demo_connecting :: af_world where
  "demo_connecting = demo_start\<lparr>
     heap := (\<lambda>_. None)(0 := Some (demo_pipe\<lparr>m_state := LWS_CLIENT_CONNECTING, m_vhd := Some 7, m_wsi := Some 3\<rparr>)),
     pendingConnects := [0], nchild := 1, wakeups := [7], wsi_ph := (\<lambda>_. WNone)(3 := WOpening)\<rparr>"

definition demo_connected :: af_world where
  "demo_connected = demo_connecting\<lparr>
     heap := (\<lambda>_. None)(0 := Some (demo_pipe\<lparr>m_wsi := Some 3, m_vhd := Some 7, m_state := LWS_CLIENT_CONNECTED\<rparr>)),
     pendingConnects := [], wsi_user := (\<lambda>_. None)(3 := Some 0), wsi_ph := (\<lambda>_. WNone)(3 := WOpen),
     notifications := [(0, (''u'', ''b'', CONNECT_SUCCESS, None))]\<rparr>"

definition demo_connect :: "af_action list" where
  "demo_connect = [ANew 0 demo_args, AConnect 0, AWaitCancelled 7 (\<lambda>_. Some 3)]"

lemmas demo_defs = demo_connect_def demo_start_def demo_connecting_def demo_connected_def

lemma demo_args_sel: "length (a_block demo_args) = a_bufLen demo_args" "2 \<le> a_bufLen demo_args"
  by (simp_all add: demo_args_def)

lemma demo_pipe_sel [simp]:
  "m_state demo_pipe = LWS_CLIENT_IDLE" "m_wsi demo_pipe = None" "m_vhd demo_pipe = None"
  "m_closePending demo_pipe = False" "m_gracefulShutdown demo_pipe = False" "m_uuid demo_pipe = ''u''"
  "m_bugname demo_pipe = ''b''" "m_metadata demo_pipe = []" "m_audio_buffer_write_offset demo_pipe = 2"
  "m_promise demo_pipe = False" "m_closeSignaled demo_pipe = False"
  by (simp_all add: demo_pipe_def AudioPipe_new_def pipe_init_def demo_args_def pipe.defs af_pipe.defs)

lemmas exec_defs = set_pipe_def addPendingConnect_def lws_cancel_service_def on_wait_cancelled_def
  processPendingConnects_def deref_def connect_client_def lws_client_connect_via_info_def
  processPendingDisconnects_def processPendingWrites_def Let_def

lemma demo_connect_run:
  "af_run 2 demo_connect demo_start = Inr demo_connecting" "af_enabled_run 2 demo_connect demo_start"
  by (simp_all add: demo_defs exec_defs demo_pipe_def [symmetric] demo_args_sel fresh_conn_def)

lemma demo_connecting_reach: "af_reach 2 demo_connecting"
proof -
  have "af_reach 2 demo_start" by (rule af_reach.start) (simp add: af_start_def demo_start_def)
  from af_run_reach [OF this demo_connect_run(2,1)] show ?thesis .
qed

lemma demo_established:
  "af_exec 2 (AEstablished 3 7) demo_connecting = Inr demo_connected"
  by (simp add: demo_defs af_on_established_def findAndRemovePendingConnect_def deref_def Let_def
      modify_def set_pipe_def notify_def af_notify_def c_str_def)

lemma demo_connected_reach: "af_reach 2 demo_connected"
  by (rule af_reach.step [OF demo_connecting_reach _ demo_established]) (simp add: demo_defs)

end
