(* ===== verification/ForkClose.thy ===== *)
theory ForkClose
  imports ForkProps ForkDemo
begin

text \<open>
  How closing a pipe of mod_audio_fork ends: the wake-up and the writeable events lead to CLOSED,
  unless a graceful shutdown was asked for before the connection was up. Then the authentication
  header, and the properties of theory \<open>ForkProps\<close> on the concrete call of theory \<open>ForkDemo\<close>.
\<close>

section \<open>From close to CLOSED\<close>

text \<open>The wake-up turns a queued disconnect into a request for a writeable event.\<close>

lemma wait_cancelled_requests:
  assumes w: "af_inv pre w" and h: "heap w ap = Some p"
    and p: "m_state p = LWS_CLIENT_DISCONNECTING" "\<not> m_gracefulShutdown p" "m_vhd p = Some c"
    and f: "fresh_conn conn (pendingConnects w) w"
  shows "\<exists>w' x. on_wait_cancelled note c conn w = Inr w' \<and> af_inv pre w' \<and> heap w' ap = Some p \<and>
    m_wsi p = Some x \<and> wsi_ph w' x = WOpen \<and> wsi_user w' x = Some ap \<and> x \<in> set (writable w')"
proof -
  obtain x where x: "m_wsi p = Some x" using world_ok_open [OF w h] p(1) by auto
  have "ap \<in> set (pendingDisconnects w) \<or> x \<in> set (writable w)"
    using world_okD(3) [OF w h] p(1,2) x by (auto simp: linked_def)
  then show ?thesis using afr.wait_cancelled_serves [OF w h _ p(3) x _ f, of "note"] p(1) x by auto
qed

text \<open>A writeable event on a closing pipe without pending text, or on which the text could not be
  written, closes it.\<close>

lemma writeable_closes:
  assumes w: "af_inv pre w" and u: "wsi_user w x = Some ap" "wsi_ph w x = WOpen" and h: "heap w ap = Some p"
    and p: "m_state p = LWS_CLIENT_DISCONNECTING" "\<not> m_gracefulShutdown p"
      "m_metadata p = [] \<or> ret < int (length (m_metadata p))"
  shows "\<exists>w' q. af_exec pre (AWriteable x ret) w = Inr w' \<and> heap w' ap = Some q \<and>
    m_state q = LWS_CLIENT_DISCONNECTED \<and> m_promise q"
proof -
  have ok: "promise_ok p" using world_okD(1) [OF w h] by (simp add: pipe_ok_def)
  have closed: "\<exists>v' q'. af_closed x v = Inr v' \<and> heap v' ap = Some q' \<and>
      m_state q' = LWS_CLIENT_DISCONNECTED \<and> m_promise q'"
    if "wsi_user v x = Some ap" "heap v ap = Some q" "m_state q = LWS_CLIENT_DISCONNECTING" "promise_ok q"
    for v q
    using af.on_closed_eq [OF that(1,2), of af_notify] that(3,4) by (auto simp: af_closed_def closed_handle_def)
  show ?thesis
  proof (cases "m_metadata p = []")
    case True
    then show ?thesis
      using closed [of "w\<lparr>writable := removeAll x (writable w)\<rparr>" p] u h p ok
      by (auto simp: af_on_writeable_def write_pending_def deref_def)
  next
    case False
    let ?v = "set_pipe ap (p\<lparr>m_metadata := []\<rparr>) (w\<lparr>writable := removeAll x (writable w),
      sent := sent w @ [(x, LWS_WRITE_TEXT (m_metadata p))]\<rparr>)"
    show ?thesis using closed [of ?v "p\<lparr>m_metadata := []\<rparr>"] False u h p ok
      by (auto simp: af_on_writeable_def write_pending_def deref_def lws_write_def Let_def set_pipe_def)
  qed
qed

text \<open>Pending text goes first, and asks for another event.\<close>

lemma writeable_sends_text:
  assumes u: "wsi_user w x = Some ap" "wsi_ph w x = WOpen" and h: "heap w ap = Some p"
    and p: "\<not> m_gracefulShutdown p" "m_metadata p \<noteq> []" "\<not> ret < int (length (m_metadata p))"
  shows "\<exists>w'. af_exec pre (AWriteable x ret) w = Inr w' \<and> x \<in> set (writable w') \<and>
    wsi_user w' = wsi_user w \<and> wsi_ph w' = wsi_ph w \<and> heap w' ap = Some (p\<lparr>m_metadata := []\<rparr>)"
  using assms
  by (simp add: af_on_writeable_def write_pending_def deref_def lws_write_def lws_callback_on_writable_def Let_def set_pipe_def)

text \<open>C9: closing ends: from any reachable world, for a pipe that is closing and was not shut down
  gracefully, the wake-up of its context and then one writeable event (two when text is waiting and
  can be sent) bring it to DISCONNECTED, and \<open>waitForClose\<close> returns.\<close>

theorem af_close_completes:
  assumes "af_reach pre w" "heap w ap = Some p"
    and "m_state p = LWS_CLIENT_DISCONNECTING" "\<not> m_gracefulShutdown p" "m_vhd p = Some c"
    and "fresh_conn conn (pendingConnects w) w"
  shows "\<exists>x w' q. m_wsi p = Some x \<and>
    (let as = AWaitCancelled c conn # replicate
           (if m_metadata p = [] \<or> ret < int (length (m_metadata p)) then 1 else 2) (AWriteable x ret)
     in af_enabled_run pre as w \<and> af_run pre as w = Inr w') \<and>
    heap w' ap = Some q \<and> m_state q = LWS_CLIENT_DISCONNECTED \<and> waitForClose_returns q"
proof -
  note w = af_reach_inv [OF assms(1)]
  obtain w1 x where w1: "on_wait_cancelled af_notify c conn w = Inr w1" "af_inv pre w1" "heap w1 ap = Some p"
    "m_wsi p = Some x" "wsi_ph w1 x = WOpen" "wsi_user w1 x = Some ap" "x \<in> set (writable w1)"
    using wait_cancelled_requests [OF w assms(2-6)] by blast
  show ?thesis
  proof (cases "m_metadata p = [] \<or> ret < int (length (m_metadata p))")
    case True
    obtain w2 q where "af_exec pre (AWriteable x ret) w1 = Inr w2" "heap w2 ap = Some q"
      "m_state q = LWS_CLIENT_DISCONNECTED" "m_promise q"
      using writeable_closes [OF w1(2,6,5,3) assms(3,4) True] by blast
    then show ?thesis using True w1 assms(6) by (simp add: Let_def waitForClose_returns_def del: af_exec.simps(12))
  next
    case False
    obtain w2 where w2: "af_exec pre (AWriteable x ret) w1 = Inr w2" "x \<in> set (writable w2)"
      "wsi_user w2 x = Some ap" "wsi_ph w2 x = WOpen" "heap w2 ap = Some (p\<lparr>m_metadata := []\<rparr>)"
      using writeable_sends_text [OF w1(6,5,3) assms(4), of ret pre] False w1(5,6) by auto
    have "af_inv pre w2" using af_writeable_ok [OF w1(2,5), of ret] w2(1) by auto
    then obtain w3 q where "af_exec pre (AWriteable x ret) w2 = Inr w3" "heap w3 ap = Some q"
      "m_state q = LWS_CLIENT_DISCONNECTED" "m_promise q"
      using writeable_closes [of pre w2 x ap "p\<lparr>m_metadata := []\<rparr>" ret] w2 assms(3,4) by auto
    then show ?thesis using False w1 w2 assms(6)
      by (simp add: Let_def numeral_2_eq_2 waitForClose_returns_def del: af_exec.simps(12))
  qed
qed

section \<open>Graceful shutdown\<close>

text \<open>What closing another handle leaves alone.\<close>

lemma af_closed_other:
  assumes "af_closed y w = Inr w'" "wsi_user w y \<noteq> Some ap"
  shows "heap w' ap = heap w ap"
  using assms
  by (auto simp: af_closed_def closed_handle_def on_closed_def andthen_Inr_iff world_simps split: option.splits if_splits)

lemma on_writeable_other:
  assumes "af_on_writeable pre ret y w = Inr (rc, w')" "wsi_user w y \<noteq> Some ap"
  shows "heap w' ap = heap w ap" "wsi_user w' = wsi_user w"
  using assms(2) af_on_writeable_evolves [OF assms(1)] by simp_all

lemma fail_connect_other:
  "fail_connect note aq msg w = Inr w' \<Longrightarrow> ap \<noteq> aq \<Longrightarrow> heap w' ap = heap w ap"
  by (auto simp: andthen_Inr_iff world_simps)

text \<open>A pipe with the flag set only ever sends zero-length frames.\<close>

lemma graceful_writeable:
  assumes "wsi_user w x = Some ap" "wsi_ph w x = WOpen" "heap w ap = Some p" "m_gracefulShutdown p" "0 \<le> ret"
  shows "af_exec pre (AWriteable x ret) w = Inr (w\<lparr>writable := removeAll x (writable w),
    sent := sent w @ [(x, LWS_WRITE_BINARY [])]\<rparr>)"
  using assms by (simp add: af_on_writeable_def write_pending_def deref_def lws_write_def)

text \<open>C10: a pipe that was shut down gracefully before its connection was up never completes a
  close of its own: as long as writes succeed and the far end stays, every step leaves it
  DISCONNECTING, so \<open>waitForClose\<close> does not return and the reaper keeps waiting.\<close>

theorem af_graceful_close_stuck:
  assumes "af_reach pre w" "heap w ap = Some p" "m_gracefulShutdown p"
    and "m_state p = LWS_CLIENT_DISCONNECTING" "m_wsi p = Some x"
    and "af_enabled pre a w" "af_exec pre a w = Inr w'"
    and "a \<noteq> AClosed x" "\<forall>ret. a = AWriteable x ret \<longrightarrow> 0 \<le> ret"
  shows "\<exists>q. heap w' ap = Some q \<and> m_state q = LWS_CLIENT_DISCONNECTING \<and> m_gracefulShutdown q \<and>
    \<not> waitForClose_returns q"
proof -
  note w = af_reach_inv [OF assms(1)] and h = assms(2) and p = assms(3-5) and r = assms(7)
  have open_x: "wsi_ph w x = WOpen" "wsi_user w x = Some ap"
    using world_ok_open [OF w h] p by auto
  have alone: "wsi_user w y \<noteq> Some ap" if "y \<noteq> x" for y
    using world_ok_user [OF w, of y ap] h p(3) that by auto
  have prom: "\<not> m_promise p" using world_okD(1) [OF w h] p(2) by (simp add: pipe_ok_def)
  have key: "\<exists>q. heap w' ap = Some q \<and> m_state q = m_state p"
  proof (cases a)
    case (ANew aq args)
    then show ?thesis using assms(6) r h by (auto simp: set_pipe_def)
  next
    case (AConnect aq)
    then have "ap \<noteq> aq" using assms(6) h p(2) by auto
    obtain c w1 where c: "pick_context (numContexts w) w = (c, w1)" by force
    have "heap w1 = heap w" by (subst af.pick_context_frame [OF c]) simp
    then show ?thesis using r AConnect c h fail_connect_other [OF _ \<open>ap \<noteq> aq\<close>]
      by (fastforce simp: addPendingConnect_def lws_cancel_service_def split: option.splits)
  next
    case (ABufferForSending aq t)
    then obtain q where "heap w aq = Some q" using assms(6) by auto
    from af.bufferForSending_ok [OF w this, of t] this show ?thesis
      using r ABufferForSending h by (auto split: if_splits)
  next
    case (AMedia aq channels resampler frames notified)
    then obtain q s where "heap w aq = Some q" "audio_frame q s" "heap w' = (heap w)(aq := Some s)"
      using af_media_ok [OF w, of aq channels resampler frames notified] assms(6) r by auto
    then show ?thesis using h by (auto simp: audio_frame_iff)
  next
    case (AGracefulShutdown aq)
    then obtain q where "heap w aq = Some q" using assms(6) by auto
    from af_do_graceful_ok [OF w this] this show ?thesis
      using r AGracefulShutdown h by (auto split: if_splits)
  next
    case (AClose aq)
    then obtain q where "heap w aq = Some q" using assms(6) by auto
    from af_close_ok [OF w this] this show ?thesis using r AClose h p(2) by (auto split: if_splits)
  next
    case (ADelete aq)
    then have "ap \<noteq> aq" using assms(6) h prom by (auto simp: waitForClose_returns_def)
    with ADelete r h show ?thesis
      by (auto simp: destroy_pipe_def deref_def removeFromPending_def Let_def split: option.splits)
  next
    case (AWaitCancelled vhd conn)
    then show ?thesis using on_wait_cancelled_evolves(2) [OF w _ h] p(2) r by auto
  next
    case (AEstablished y vhd)
    then show ?thesis using af_on_established_ok [OF w, of y vhd] assms(6) r h p(2)
      by (auto simp: connecting_on_def)
  next
    case (AConnectionError y msg)
    then obtain w1 where w1: "on_connection_error af_notify y msg w = Inr w1" "heap w' = heap w1"
      using r by (auto simp: andthen_Inr_iff)
    obtain s v where f: "findAndRemovePendingConnect y w = Inr (s, v)"
      "case s of None \<Rightarrow> af_inv pre v \<and> (\<forall>ap. \<not> connecting_on y w ap)
       | Some ap \<Rightarrow> world_ok_but pre af_extra ap {} v \<and> connecting_on y w ap"
      using findAndRemovePendingConnect_ok [OF w, of y] by blast
    have v: "heap v = heap w" using findAndRemove_heap [OF f(1)] .
    have "s \<noteq> Some ap" using f(2) h p(2) by (auto simp: connecting_on_def)
    then have "heap w1 ap = heap v ap"
      using w1(1) f(1) fail_connect_other by (fastforce simp: on_connection_error_def split: option.splits)
    then show ?thesis using w1(2) v h by simp
  next
    case (AReceive y ev)
    then show ?thesis using r h receive_frame
      by (fastforce simp: af_on_receive_def on_receive_def deref_def notify_def set_pipe_def Let_def andthen_Inr_iff
          recv_frame_iff split: option.splits)
  next
    case (AWriteable y ret)
    show ?thesis
    proof (cases "y = x")
      case True
      then show ?thesis using graceful_writeable [OF open_x(2,1) h p(1), of ret pre] AWriteable r h assms(9)
        by (auto simp del: af_exec.simps)
    next
      case False
      let ?w0 = "w\<lparr>writable := removeAll y (writable w)\<rparr>"
      obtain rc w1 where r1: "af_on_writeable pre ret y ?w0 = Inr (rc, w1)"
        "(if rc < 0 then af_closed y w1 else Inr w1) = Inr w'"
        using r AWriteable by (auto simp: andthen_Inr_iff)
      have "wsi_user ?w0 y \<noteq> Some ap" using alone [OF False] by simp
      note o = on_writeable_other [OF r1(1) this]
      have "heap w' ap = heap w1 ap"
        using r1(2) o(2) alone [OF False] af_closed_other [of y w1 w' ap] by (auto split: if_splits)
      then show ?thesis using o(1) h by simp
    qed
  next
    case (AClosed y)
    then have "y \<noteq> x" using assms(8) by auto
    from af_closed_other [OF _ alone [OF this]] AClosed r h show ?thesis by auto
  qed
  then obtain q where q: "heap w' ap = Some q" "m_state q = LWS_CLIENT_DISCONNECTING" using p(2) by auto
  have "af_reach pre w'" using af_reach.step [OF assms(1,6,7)] .
  from world_okD(1) [OF af_reach_inv [OF this] q(1)] q(2) have "\<not> m_promise q" by (simp add: pipe_ok_def)
  moreover have "m_gracefulShutdown q"
    using af_step_evolves_at [OF w assms(6,7) h q(1)] p(1) by (simp add: evolves_def)
  ultimately show ?thesis using q by (simp add: waitForClose_returns_def)
qed

text \<open>Asked of a CONNECTED pipe, a graceful shutdown leaves every pipe as it was: the flag
  the WRITEABLE handler looks at stays clear, and the event it requests sends no zero-length
  frame.\<close>

lemma af_graceful_connected_sends_nothing:
  assumes "af_reach pre w" "heap w ap = Some p" "m_state p = LWS_CLIENT_CONNECTED" "\<not> m_gracefulShutdown p"
  shows "\<exists>w' x. af_exec pre (AGracefulShutdown ap) w = Inr w' \<and> heap w' = heap w \<and> m_wsi p = Some x \<and>
    (\<forall>ret rc w2. af_on_writeable pre ret x w' = Inr (rc, w2) \<longrightarrow>
       (\<exists>fs. sent w2 = sent w' @ fs \<and> (x, LWS_WRITE_BINARY []) \<notin> set fs))"
proof -
  note w = af_reach_inv [OF assms(1)]
  obtain w' where w': "af_do_graceful_shutdown ap w = Inr w'" "af_inv pre w'" "heap w' = heap w"
    using af_do_graceful_ok [OF w assms(2)] assms(3) by auto
  obtain x where x: "m_wsi p = Some x" "wsi_user w' x = Some ap"
    using world_ok_open [OF w'(2), of ap p] w'(3) assms(2,3) by auto
  have "audio_ok pre p" using world_okD(1) [OF w assms(2)] by (simp add: pipe_ok_def)
  then have ne: "pre < m_audio_buffer_write_offset p \<Longrightarrow> audio_payload pre p \<noteq> []"
    by (auto simp: audio_payload_def audio_ok_def)
  have "\<exists>fs. sent w2 = sent w' @ fs \<and> (x, LWS_WRITE_BINARY []) \<notin> set fs"
    if "af_on_writeable pre ret x w' = Inr (rc, w2)" for ret rc w2
    using that x(2) w'(3) assms(2-4) ne
    by (auto simp: af_on_writeable_def write_pending_def deref_def lws_write_def lws_callback_on_writable_def set_pipe_def
        andthen_Inr_iff Let_def split: if_splits)
  then show ?thesis using w' x(1) by auto
qed

section \<open>The authentication header\<close>

text \<open>What is documented of \<open>lws_b64_encode_string\<close>: it encodes into the output block and ends it
  with a NUL when the encoding fits, and never writes more than the block holds.\<close>

definition b64_ok :: "(string \<Rightarrow> nat \<Rightarrow> string) \<Rightarrow> bool" where
  "b64_ok b64 \<longleftrightarrow> (\<forall>s n. length (b64 s n) \<le> n \<and>
     (4 * ((length s + 2) div 3) < n \<longrightarrow> b64 s n = base64_encode (map of_char s) @ [CHR 0x00]))"

lemma c_str_append: "CHR 0x00 \<notin> set s \<Longrightarrow> c_str (s @ CHR 0x00 # t) = s"
  by (induction s) (auto simp: c_str_def)

lemma c_str_nul: "i < length s \<Longrightarrow> s ! i = CHR 0x00 \<Longrightarrow> length (c_str s) \<le> i"
proof (induction s arbitrary: i)
  case (Cons c cs)
  then show ?case by (cases i) (auto simp: c_str_def)
qed simp

lemma splice_header:
  "length h = k \<Longrightarrow> splice k out (splice 0 h stack) = h @ out @ drop (k + length out) stack"
  by (simp add: splice_def add.commute)

lemma list_update_beyond:
  assumes "length A < i"
  shows "(A @ c # R)[i := v] = A @ c # R[i - length A - 1 := v]"
proof -
  obtain j where "i = length A + Suc j" using assms less_imp_Suc_add by fastforce
  then show ?thesis by (simp add: list_update_append)
qed

lemma basic_auth_gen_eq:
  assumes "length stack = 128" "length (user @ '':'' @ pw) \<le> 91"
  shows "dch_lws_http_basic_auth_gen b64 user pw stack
    = (0, (''Basic '' @ b64 (user @ '':'' @ pw) 122 @ drop (6 + length (b64 (user @ '':'' @ pw) 122)) stack)
            [127 := CHR 0x00])"
proof -
  have "length user + length pw \<le> 90" using assms(2) by simp
  then have "\<not> 128 < 6 + 4 * (length user + length pw + 1) div 3 + 1"
    "\<not> 126 \<le> min (length (user @ '':'' @ pw)) 127" by (simp_all add: min_def)
  then show ?thesis using assms(1)
    by (simp only: dch_lws_http_basic_auth_gen_def Let_def)
      (simp add: splice_header [of "''Basic ''" 6, simplified])
qed

text \<open>C11: with the 128-byte block of the handshake handler, the header for credentials of up to 90
  bytes (separator included) is \<open>Basic\<close> and their base64 encoding; from 92 bytes on the generator
  refuses. With exactly 91 bytes it reports success although the header it leaves cannot be the
  encoding, which needs 124 characters.\<close>

theorem basic_auth_header:
  assumes "b64_ok b64" "length stack = 128" "CHR 0x00 \<notin> set user" "CHR 0x00 \<notin> set pw"
  shows "(length (user @ '':'' @ pw) \<le> 90 \<longrightarrow>
      (\<exists>b. dch_lws_http_basic_auth_gen b64 user pw stack = (0, b) \<and>
        c_str b = ''Basic '' @ base64_encode (map of_char (user @ '':'' @ pw)))) \<and>
    (length (user @ '':'' @ pw) = 91 \<longrightarrow>
      (\<exists>b. dch_lws_http_basic_auth_gen b64 user pw stack = (0, b) \<and>
        c_str b \<noteq> ''Basic '' @ base64_encode (map of_char (user @ '':'' @ pw)))) \<and>
    (92 \<le> length (user @ '':'' @ pw) \<longrightarrow> fst (dch_lws_http_basic_auth_gen b64 user pw stack) \<noteq> 0)"
proof (intro conjI impI)
  let ?s = "user @ '':'' @ pw"
  let ?e = "base64_encode (map of_char ?s)"
  let ?b = "(''Basic '' @ b64 ?s 122 @ drop (6 + length (b64 ?s 122)) stack)[127 := CHR 0x00]"
  have e: "length ?e = 4 * ((length ?s + 2) div 3)" by (subst base64_encode_length) simp
  show "\<exists>b. dch_lws_http_basic_auth_gen b64 user pw stack = (0, b) \<and> c_str b = ''Basic '' @ ?e"
    if k: "length ?s \<le> 90"
  proof -
    have "(length ?s + 2) div 3 \<le> 92 div 3" by (rule div_le_mono) (use k in simp)
    then have fit: "4 * ((length ?s + 2) div 3) \<le> 120" by simp
    then have out: "b64 ?s 122 = ?e @ [CHR 0x00]" using assms(1) unfolding b64_ok_def by auto
    have "?b = ((''Basic '' @ ?e) @ CHR 0x00 # drop (6 + length (b64 ?s 122)) stack)[127 := CHR 0x00]"
      unfolding out by simp
    also have "\<dots> = (''Basic '' @ ?e) @ CHR 0x00 # (drop (6 + length (b64 ?s 122)) stack)
        [127 - length (''Basic '' @ ?e) - 1 := CHR 0x00]"
      by (rule list_update_beyond) (use e fit in simp)
    finally have "c_str ?b = ''Basic '' @ ?e"
      by (simp only:) (rule c_str_append, simp add: base64_encode_no_nul)
    then show ?thesis using basic_auth_gen_eq [OF assms(2), of user pw b64] k by simp
  qed
  show "\<exists>b. dch_lws_http_basic_auth_gen b64 user pw stack = (0, b) \<and> c_str b \<noteq> ''Basic '' @ ?e"
    if k: "length ?s = 91"
  proof -
    have "length (b64 ?s 122) \<le> 122" using assms(1) unfolding b64_ok_def by blast
    then have "length ?b = 128" using assms(2) by simp
    then have "length (c_str ?b) \<le> 127" by (intro c_str_nul) simp_all
    moreover have "length (''Basic '' @ ?e) = 130" using e k by simp
    ultimately have "length (c_str ?b) \<noteq> length (''Basic '' @ ?e)" by linarith
    then have "c_str ?b \<noteq> ''Basic '' @ ?e" by metis
    then show ?thesis using basic_auth_gen_eq [OF assms(2), of user pw b64] k by simp
  qed
  show "fst (dch_lws_http_basic_auth_gen b64 user pw stack) \<noteq> 0" if "92 \<le> length ?s"
  proof -
    have "128 < 6 + 4 * (length user + length pw + 1) div 3 + 1" using that by simp
    then show ?thesis using assms(2) by (simp add: dch_lws_http_basic_auth_gen_def Let_def)
  qed
qed

section \<open>The properties on the concrete call\<close>

lemma demo_pipes:
  "heap demo_connecting 0 = Some (demo_pipe\<lparr>m_state := LWS_CLIENT_CONNECTING, m_vhd := Some 7, m_wsi := Some 3\<rparr>)"
  "heap demo_connected 0 = Some (demo_pipe\<lparr>m_wsi := Some 3, m_vhd := Some 7, m_state := LWS_CLIENT_CONNECTED\<rparr>)"
  by (simp_all add: demo_connecting_def demo_connected_def)


text \<open>The connection fails.\<close>

definition demo_failed :: af_world where
  "demo_failed = demo_connecting\<lparr>
     pendingConnects := [],
     notifications := [(0, (''u'', ''b'', CONNECT_FAIL, None))],
     heap := (\<lambda>_. None)(0 := Some (demo_pipe\<lparr>m_vhd := Some 7, m_wsi := Some 3, m_state := LWS_CLIENT_FAILED,
       m_closeSignaled := True, m_promise := True\<rparr>)),
     wsi_ph := (\<lambda>_. WNone)(3 := WClosed)\<rparr>"

lemma demo_failed_reach: "af_reach 2 demo_failed"
proof (rule af_reach.step [OF demo_connecting_reach])
  show "af_exec 2 (AConnectionError 3 None) demo_connecting = Inr demo_failed"
    by (simp add: demo_defs demo_failed_def on_connection_error_def findAndRemovePendingConnect_def
        world_simps Let_def setClosed_def af_notify_def c_str_def)
qed (simp add: demo_defs)

lemma af_delete_leaves_no_reference_witness:
  "\<exists>w'. af_exec 2 (ADelete 0) demo_failed = Inr w' \<and> heap w' = (heap demo_failed)(0 := None) \<and>
    0 \<notin> set (pendingConnects w') \<and> 0 \<notin> set (pendingDisconnects w') \<and>
    0 \<notin> set (pendingWrites w') \<and> (\<forall>x. wsi_user w' x \<noteq> Some 0)"
proof -
  obtain p where "heap demo_failed 0 = Some p" "waitForClose_returns p"
    by (simp add: demo_failed_def waitForClose_returns_def)
  from af_delete_leaves_no_reference [OF demo_failed_reach this] show ?thesis .
qed


text \<open>The module closes the connection.\<close>

definition demo_closing :: af_world where
  "demo_closing = demo_connected\<lparr>
     heap := (\<lambda>_. None)(0 := Some (demo_pipe\<lparr>m_wsi := Some 3, m_vhd := Some 7, m_state := LWS_CLIENT_DISCONNECTING\<rparr>)),
     pendingDisconnects := [0], wakeups := [7, 7]\<rparr>"

lemma demo_closing_reach: "af_reach 2 demo_closing"
proof (rule af_reach.step [OF demo_connected_reach])
  show "af_exec 2 (AClose 0) demo_connected = Inr demo_closing"
    by (simp add: demo_defs demo_closing_def af_close_def addPendingDisconnect_def vhd_context_def
        world_simps Let_def)
qed (simp add: demo_defs)

lemma af_close_completes_witness:
  "\<exists>w' q. af_run 2 [AWaitCancelled 7 (\<lambda>_. None), AWriteable 3 0] demo_closing = Inr w' \<and>
    heap w' 0 = Some q \<and> m_state q = LWS_CLIENT_DISCONNECTED \<and> waitForClose_returns q"
proof -
  let ?p = "demo_pipe\<lparr>m_wsi := Some 3, m_vhd := Some 7, m_state := LWS_CLIENT_DISCONNECTING\<rparr>"
  have "heap demo_closing 0 = Some ?p" by (simp add: demo_closing_def)
  from af_close_completes [OF demo_closing_reach this, of 7 "\<lambda>_. None" 0] show ?thesis
    by (auto simp: fresh_conn_def Let_def simp del: af_run.simps af_enabled_run.simps)
qed

text \<open>A graceful shutdown, then a close, both while the pipe is connecting.\<close>

definition demo_stuck :: af_world where
  "demo_stuck = demo_connecting\<lparr>
     wsi_ph := (\<lambda>_. WNone)(3 := WOpen), wsi_user := (\<lambda>_. None)(3 := Some 0),
     heap := (\<lambda>_. None)(0 := Some (demo_pipe\<lparr>m_wsi := Some 3, m_closePending := True, m_vhd := Some 7,
       m_state := LWS_CLIENT_DISCONNECTING, m_gracefulShutdown := True\<rparr>)),
     pendingConnects := [], wakeups := [7, 7],
     notifications := [(0, (''u'', ''b'', CONNECT_SUCCESS, None))], writable := [3]\<rparr>"

lemma demo_stuck_run:
  "af_enabled_run 2 [AGracefulShutdown 0, AClose 0, AEstablished 3 7, AWaitCancelled 7 (\<lambda>_. None)] demo_connecting"
  "af_run 2 [AGracefulShutdown 0, AClose 0, AEstablished 3 7, AWaitCancelled 7 (\<lambda>_. None)] demo_connecting
    = Inr demo_stuck"
  by (simp_all add: demo_connecting_def demo_start_def demo_stuck_def af_do_graceful_shutdown_def af_close_def
      af_on_established_def findAndRemovePendingConnect_def addPendingDisconnect_def vhd_context_def modify_def
      deref_def Let_def set_pipe_def notify_def lws_cancel_service_def af_notify_def c_str_def fresh_conn_def
      on_wait_cancelled_def processPendingConnects_def processPendingDisconnects_def processPendingWrites_def
      lws_callback_on_writable_def)

lemma demo_stuck_reach: "af_reach 2 demo_stuck"
  by (rule af_run_reach [OF demo_connecting_reach demo_stuck_run])

lemma af_graceful_close_stuck_witness:
  "\<exists>w' q. af_exec 2 (AWriteable 3 0) demo_stuck = Inr w' \<and> heap w' 0 = Some q \<and>
    m_state q = LWS_CLIENT_DISCONNECTING \<and> m_gracefulShutdown q \<and> \<not> waitForClose_returns q"
proof -
  obtain p where p: "heap demo_stuck 0 = Some p" "m_gracefulShutdown p"
    "m_state p = LWS_CLIENT_DISCONNECTING" "m_wsi p = Some 3"
    by (simp add: demo_stuck_def)
  have e: "af_enabled 2 (AWriteable 3 0) demo_stuck" by (simp add: demo_stuck_def)
  obtain w' where w': "af_exec 2 (AWriteable 3 0) demo_stuck = Inr w'"
    using af_step_ok [OF af_reach_inv [OF demo_stuck_reach] e] by blast
  from af_graceful_close_stuck [OF demo_stuck_reach p e w'] w' show ?thesis
    by (auto simp del: af_exec.simps)
qed

definition small_b64 :: "string \<Rightarrow> nat \<Rightarrow> string" where
  "small_b64 s n = (if 4 * ((length s + 2) div 3) < n
     then base64_encode (map of_char s) @ [CHR 0x00] else [])"

lemma basic_auth_header_witness:
  "\<exists>b. dch_lws_http_basic_auth_gen small_b64 ''me'' ''pw'' (replicate 128 CHR 0x2A) = (0, b) \<and>
    c_str b = ''Basic '' @ base64_encode (map of_char ''me:pw'')"
proof -
  have "b64_ok small_b64"
    by (auto simp: b64_ok_def small_b64_def base64_encode_length)
  from basic_auth_header [OF this, of "replicate 128 CHR 0x2A" "''me''" "''pw''"] show ?thesis by simp
qed

end
