(* ===== verification/ForkGlue.thy ===== *)
theory ForkGlue
  imports ForkPipe
begin

text \<open>
  \<^verbatim>\<open>modules/mod_audio_fork/lws_glue.cpp\<close>: the sessions of mod_audio_fork on top of the pipes. A
  \<open>glue\<close> state holds the pipes, the module's private data of each session, the side of FreeSWITCH
  the module relies on (which sessions can be located, the channel's private pointers, the media
  bugs), the threads of the reaper, the live-pipe count of the unload gate, the events sent and the
  temporary files. JSON is handled by the cJSON library: its functions are the record \<open>cjson\<close>, an
  argument of the definitions that use it.
\<close>

section \<open>State\<close>

datatype fork_event = EVENT_TRANSCRIPTION | EVENT_TRANSFER | EVENT_PLAY_AUDIO | EVENT_KILL_AUDIO
  | EVENT_DISCONNECT | EVENT_ERROR | EVENT_CONNECT_SUCCESS | EVENT_CONNECT_FAIL
  | EVENT_BUFFER_OVERRUN | EVENT_JSON

record private_t =
  t_sessionId :: string
  t_bugname :: string
  t_resampler :: bool
  t_pAudioPipe :: "ptr option"
  t_host :: string
  t_port :: nat
  t_path :: string
  t_sampling :: int
  t_playout :: "string list"
  t_channels :: nat
  t_id :: u32
  t_buffer_overrun_notified :: bool
  t_audio_paused :: bool
  t_graceful_shutdown :: bool
  t_initialMetadata :: string

text \<open>A media bug's core structure knows its session and its user data; it lives in the session's
  pool. A reaper thread holds a pipe; the flag says that it has called \<open>close()\<close>.\<close>

record glue =
  g_world :: af_world
  g_tech :: "ptr \<Rightarrow> private_t option"
  g_bugs :: "ptr \<Rightarrow> (string \<times> ptr) option"
  g_private :: "string \<Rightarrow> string \<Rightarrow> ptr option"
  g_sessions :: "string \<Rightarrow> bool"
  g_activePipes :: int
  g_reapers :: "(ptr \<times> bool) list"
  g_idxCallCount :: u32
  g_playCount :: u32
  g_events :: "(string \<times> fork_event \<times> string option) list"
  g_breaks :: "string list"
  g_files :: "string \<Rightarrow> u8 list option"

record 'j cjson =
  cJSON_Parse :: "string \<Rightarrow> 'j option"
  cJSON_GetObjectCstr :: "'j \<Rightarrow> string \<Rightarrow> string option"
  cJSON_GetObjectItem :: "'j \<Rightarrow> string \<Rightarrow> 'j option"
  cJSON_Detach :: "'j \<Rightarrow> string \<Rightarrow> 'j option \<times> 'j"
  cJSON_valuestring :: "'j \<Rightarrow> string option"
  cJSON_valueint :: "'j \<Rightarrow> int"
  cJSON_AddString :: "'j \<Rightarrow> string \<Rightarrow> string \<Rightarrow> 'j"
  cJSON_CreateObject :: 'j
  cJSON_Print :: "'j \<Rightarrow> string"

section \<open>Configuration and sizes\<close>

text \<open>The environment variables \<open>MOD_AUDIO_FORK_BUFFER_SECS\<close> and
  \<open>MOD_AUDIO_FORK_SERVICE_THREADS\<close>.\<close>

definition audioBufferSecs :: "string option \<Rightarrow> int" where
  "audioBufferSecs req = max 1 (min (case req of Some s \<Rightarrow> atoi s | None \<Rightarrow> 2) 5)"

definition serviceThreadCount :: "string option \<Rightarrow> int" where
  "serviceThreadCount req = max 1 (min (case req of Some s \<Rightarrow> atoi s | None \<Rightarrow> 1) 5)"

text \<open>Signed 32-bit arithmetic, where overflow is undefined and division truncates.\<close>

definition mul_int :: "int \<Rightarrow> int \<Rightarrow> ub + int" where
  "mul_int a b = (if - (2 ^ 31) \<le> a * b \<and> a * b < 2 ^ 31 then Inr (a * b) else Inl SignedOverflow)"

definition div_int :: "int \<Rightarrow> int \<Rightarrow> int" where
  "div_int a b = sgn a * sgn b * (\<bar>a\<bar> div \<bar>b\<bar>)"

text \<open>The size of the audio buffer; the sum is a \<open>size_t\<close>.\<close>

definition fork_buflen :: "nat \<Rightarrow> int \<Rightarrow> int \<Rightarrow> int \<Rightarrow> ub + nat" where
  "fork_buflen LWS_PRE desiredSampling channels secs =
     andthen (mul_int 320 desiredSampling) (\<lambda>a.
     andthen (mul_int (div_int a 8000) channels) (\<lambda>b.
     andthen (mul_int b 1000) (\<lambda>c.
     andthen (mul_int (div_int c 20) secs) (\<lambda>d.
       Inr (nat ((int LWS_PRE + d) mod 2 ^ 64))))))"

section \<open>Updates\<close>

definition get_tech :: "ptr \<Rightarrow> glue \<Rightarrow> ub + private_t" where
  "get_tech tp g = (case g_tech g tp of None \<Rightarrow> Inl UseAfterFree | Some t \<Rightarrow> Inr t)"

definition set_tech :: "ptr \<Rightarrow> private_t \<Rightarrow> glue \<Rightarrow> glue" where
  "set_tech tp t g = g\<lparr>g_tech := (g_tech g)(tp := Some t)\<rparr>"

definition send_event :: "string \<Rightarrow> fork_event \<Rightarrow> string option \<Rightarrow> glue \<Rightarrow> glue" where
  "send_event s ev body g = g\<lparr>g_events := g_events g @ [(s, ev, body)]\<rparr>"

text \<open>\<open>switch_core_media_bug_get_user_data\<close>\<close>

definition bug_user_data :: "ptr \<Rightarrow> glue \<Rightarrow> ub + ptr" where
  "bug_user_data bug g = (case g_bugs g bug of None \<Rightarrow> Inl UseAfterFree | Some (s, tp) \<Rightarrow> Inr tp)"

section \<open>Messages from the far end\<close>

fun decimal :: "nat \<Rightarrow> string" where
  "decimal n = (if n < 10 then [char_of (48 + n)] else decimal (n div 10) @ [char_of (48 + n mod 10)])"

definition percent_d :: "u32 \<Rightarrow> string" where
  "percent_d w = (let i = sint w in if i < 0 then ''-'' @ decimal (nat (- i)) else decimal (nat i))"

definition raw_file_type :: "int \<Rightarrow> string" where
  "raw_file_type sampleRate =
     (if sampleRate = 8000 then ''.r8'' else if sampleRate = 16000 then ''.r16''
      else if sampleRate = 24000 then ''.r24'' else if sampleRate = 32000 then ''.r32''
      else if sampleRate = 48000 then ''.r48'' else if sampleRate = 64000 then ''.r64''
      else ''.r16'')"

text \<open>The file type for the announced content type; \<open>None\<close> when the type is not supported.\<close>

definition play_file_type :: "'j cjson \<Rightarrow> 'j \<Rightarrow> string option" where
  "play_file_type J d =
     (case cJSON_GetObjectCstr J d ''audioContentType'' of
        None \<Rightarrow> None
      | Some ct \<Rightarrow>
          if ct = ''raw'' then
            Some (raw_file_type (case cJSON_GetObjectItem J d ''sampleRate'' of
                None \<Rightarrow> 0 | Some sr \<Rightarrow> cJSON_valueint J sr))
          else if ct = ''wave'' \<or> ct = ''wav'' then Some ''.wav'' else None)"

definition play_file_path :: "string \<Rightarrow> string \<Rightarrow> u32 \<Rightarrow> string \<Rightarrow> string" where
  "play_file_path temp_dir sessionId n fileType =
     take 255 (temp_dir @ ''/'' @ sessionId @ ''_'' @ percent_d n @ ''.tmp'' @ fileType)"

text \<open>\<open>playAudio\<close> with a data payload.\<close>

definition play_audio :: "'j cjson \<Rightarrow> string \<Rightarrow> ptr \<Rightarrow> string \<Rightarrow> 'j \<Rightarrow> glue \<Rightarrow> ub + glue" where
  "play_audio J temp_dir tp s jsonData g =
     andthen (get_tech tp g) (\<lambda>t.
       let (jsonAudio, d) = cJSON_Detach J jsonData ''audioContent'';
           content = (case jsonAudio of None \<Rightarrow> None | Some a \<Rightarrow> cJSON_valuestring J a)
       in case (content, play_file_type J d) of
            (Some audio, Some fileType) \<Rightarrow>
              let path = play_file_path temp_dir (t_sessionId t) (g_playCount g) fileType;
                  g1 = set_tech tp (t\<lparr>t_playout := path # t_playout t\<rparr>)
                         (g\<lparr>g_playCount := g_playCount g + 1,
                            g_files := (g_files g)(path := Some (base64_decode audio))\<rparr>)
              in Inr (send_event s EVENT_PLAY_AUDIO
                        (Some (cJSON_Print J (cJSON_AddString J d ''file'' path))) g1)
          | _ \<Rightarrow> Inr (send_event s EVENT_PLAY_AUDIO (Some (cJSON_Print J d)) g))"

definition parse_json :: "'j cjson \<Rightarrow> string \<Rightarrow> ('j \<times> string) option" where
  "parse_json J data =
     (case cJSON_Parse J data of
        None \<Rightarrow> None
      | Some json \<Rightarrow> Some (json, case cJSON_GetObjectCstr J json ''type'' of
            Some szType \<Rightarrow> szType | None \<Rightarrow> ''json''))"

definition processIncomingMessage ::
  "'j cjson \<Rightarrow> string \<Rightarrow> ptr \<Rightarrow> string \<Rightarrow> string \<Rightarrow> glue \<Rightarrow> ub + glue" where
  "processIncomingMessage J temp_dir tp s message g =
     (case parse_json J message of
        None \<Rightarrow> Inr g
      | Some (json, type) \<Rightarrow>
          let jsonData = cJSON_GetObjectItem J json ''data'';
              body = map_option (cJSON_Print J) jsonData
          in if type = ''playAudio'' then
               (case jsonData of None \<Rightarrow> Inr g | Some d \<Rightarrow> play_audio J temp_dir tp s d g)
             else if type = ''killAudio'' then
               Inr ((send_event s EVENT_KILL_AUDIO None g)\<lparr>g_breaks := g_breaks g @ [s]\<rparr>)
             else if type = ''transcription'' then Inr (send_event s EVENT_TRANSCRIPTION body g)
             else if type = ''transfer'' then Inr (send_event s EVENT_TRANSFER body g)
             else if type = ''disconnect'' then Inr (send_event s EVENT_DISCONNECT body g)
             else if type = ''error'' then Inr (send_event s EVENT_ERROR body g)
             else if type = ''json'' then Inr (send_event s EVENT_JSON (Some (cJSON_Print J json)) g)
             else Inr g)"

text \<open>Running an operation on the pipes.\<close>

definition on_pipes :: "(af_world \<Rightarrow> ub + af_world) \<Rightarrow> glue \<Rightarrow> ub + glue" where
  "on_pipes f g = andthen (f (g_world g)) (\<lambda>w. Inr (g\<lparr>g_world := w\<rparr>))"

text \<open>\<open>eventCallback\<close>, with the arguments \<open>af_notify\<close> passes.\<close>

definition eventCallback :: "'j cjson \<Rightarrow> string \<Rightarrow> af_note \<Rightarrow> glue \<Rightarrow> ub + glue" where
  "eventCallback J temp_dir n g =
     (case n of (s, bugname, event, message) \<Rightarrow>
       if \<not> g_sessions g s then Inr g
       else case g_private g s bugname of
           None \<Rightarrow> Inr g
         | Some bug \<Rightarrow>
             andthen (bug_user_data bug g) (\<lambda>tp.
             andthen (get_tech tp g) (\<lambda>t.
               case event of
                 CONNECT_SUCCESS \<Rightarrow>
                   let g1 = send_event s EVENT_CONNECT_SUCCESS None g
                   in (case t_pAudioPipe t of
                         Some ap \<Rightarrow> if t_initialMetadata t \<noteq> []
                           then on_pipes (bufferForSending (t_initialMetadata t) ap) g1 else Inr g1
                       | None \<Rightarrow> Inr g1)
               | CONNECT_FAIL \<Rightarrow>
                   let reason = (case message of Some m \<Rightarrow> m | None \<Rightarrow> ''unknown'')
                   in Inr (send_event s EVENT_CONNECT_FAIL
                        (Some (cJSON_Print J (cJSON_AddString J (cJSON_CreateObject J) ''reason'' reason))) g)
               | CONNECTION_DROPPED \<Rightarrow> Inr (send_event s EVENT_DISCONNECT None g)
               | CONNECTION_CLOSED_GRACEFULLY \<Rightarrow> Inr g
               | MESSAGE \<Rightarrow> (case message of
                     Some m \<Rightarrow> processIncomingMessage J temp_dir tp s m g | None \<Rightarrow> Inl NullDeref))))"

text \<open>The callbacks an operation made, in order. They are run after the operation: what follows a
  callback inside an operation only touches the pipe's own connection state, and no callback
  looks at that of a pipe that is not CONNECTED.\<close>

fun run_callbacks :: "'j cjson \<Rightarrow> string \<Rightarrow> (ptr \<times> af_note) list \<Rightarrow> glue \<Rightarrow> ub + glue" where
  "run_callbacks J temp_dir [] g = Inr g"
| "run_callbacks J temp_dir ((ap, n) # ns) g =
     andthen (eventCallback J temp_dir n g) (run_callbacks J temp_dir ns)"

definition with_callbacks ::
  "'j cjson \<Rightarrow> string \<Rightarrow> (af_world \<Rightarrow> ub + af_world) \<Rightarrow> glue \<Rightarrow> ub + glue" where
  "with_callbacks J temp_dir f g =
     andthen (on_pipes f g) (\<lambda>g1.
       run_callbacks J temp_dir
         (drop (length (notifications (g_world g))) (notifications (g_world g1))) g1)"

end
