(* ===== verification/ForkSession.thy ===== *)
theory ForkSession
  imports ForkGlue
begin

text \<open>
  The life of a session of mod_audio_fork: \<^verbatim>\<open>lws_glue.cpp\<close> from \<open>fork_data_init\<close> to \<open>fork_frame\<close>,
  with \<open>capture_callback\<close> and \<open>start_capture\<close> of \<^verbatim>\<open>mod_audio_fork.c\<close>, and the transition system of
  all of them. Each operation holds the session's mutex while it works, so it is one step; what it
  read before taking the mutex is an argument, which may be stale. \<open>start_capture\<close> is also given in
  its three parts.
\<close>

section \<open>Creating a session\<close>

text \<open>What FreeSWITCH and the allocators answer during \<open>fork_session_init\<close>.\<close>

record init_env =
  e_uuid :: string
  e_username :: "string option"
  e_password :: "string option"
  e_bytes_per_packet :: nat
  e_tech :: ptr
  e_pipe :: ptr
  e_block :: "u8 list"
  e_junk :: nat
  e_alloc_ok :: bool
  e_resampler_ok :: bool

record fork_args =
  f_host :: string
  f_port :: nat
  f_path :: string
  f_sslFlags :: nat
  f_sampling :: int
  f_channels :: nat
  f_bugname :: string
  f_metadata :: "string option"

definition fork_pipe_args :: "init_env \<Rightarrow> fork_args \<Rightarrow> nat \<Rightarrow> af_args" where
  "fork_pipe_args e a buflen =
     \<lparr>a_uuid = strncpy_field 256 (e_uuid e), a_host = f_host a, a_port = f_port a, a_path = f_path a,
      a_sslFlags = f_sslFlags a, a_bufLen = buflen, a_minFreespace = e_bytes_per_packet e,
      a_username = e_username e,
      a_password = (case e_username e of None \<Rightarrow> None | Some _ \<Rightarrow> e_password e),
      a_bugname = f_bugname a, a_block = e_block e, a_junk = e_junk e\<rparr>"

text \<open>The status and the private data; the pipe is created in either case.\<close>

definition fork_data_init ::
  "nat \<Rightarrow> int \<Rightarrow> init_env \<Rightarrow> fork_args \<Rightarrow> int \<Rightarrow> glue \<Rightarrow> ub + switch_status \<times> glue" where
  "fork_data_init LWS_PRE secs e a samples_per_second g =
     andthen (fork_buflen LWS_PRE (f_sampling a) (int (f_channels a)) secs) (\<lambda>buflen.
       let resampling = (f_sampling a \<noteq> samples_per_second);
           t = \<lparr>t_sessionId = strncpy_field 256 (e_uuid e), t_bugname = take 64 (f_bugname a),
                t_resampler = (resampling \<and> e_resampler_ok e), t_pAudioPipe = Some (e_pipe e),
                t_host = strncpy_field 512 (f_host a), t_port = f_port a,
                t_path = strncpy_field 4096 (f_path a), t_sampling = f_sampling a, t_playout = [],
                t_channels = f_channels a, t_id = g_idxCallCount g + 1,
                t_buffer_overrun_notified = False, t_audio_paused = False, t_graceful_shutdown = False,
                t_initialMetadata = (case f_metadata a of Some m \<Rightarrow> strncpy_field 8192 m | None \<Rightarrow> [])\<rparr>;
           w = set_pipe (e_pipe e) (AudioPipe_new LWS_PRE (fork_pipe_args e a buflen)) (g_world g)
       in Inr (if resampling \<and> \<not> e_resampler_ok e then SWITCH_STATUS_FALSE else SWITCH_STATUS_SUCCESS,
               set_tech (e_tech e) t (g\<lparr>g_idxCallCount := g_idxCallCount g + 1, g_world := w\<rparr>)))"

definition destroy_tech_pvt :: "ptr \<Rightarrow> glue \<Rightarrow> ub + glue" where
  "destroy_tech_pvt tp g =
     andthen (get_tech tp g) (\<lambda>t.
     andthen (case t_pAudioPipe t of None \<Rightarrow> Inr g | Some ap \<Rightarrow> on_pipes (destroy_pipe ap) g) (\<lambda>g1.
       Inr (set_tech tp (t\<lparr>t_pAudioPipe := None, t_resampler := False\<rparr>) g1)))"

definition fork_session_init ::
  "nat \<Rightarrow> int \<Rightarrow> init_env \<Rightarrow> fork_args \<Rightarrow> int \<Rightarrow> glue \<Rightarrow> ub + switch_status \<times> glue" where
  "fork_session_init LWS_PRE secs e a samples_per_second g =
     (if \<not> e_alloc_ok e then Inr (SWITCH_STATUS_FALSE, g)
      else andthen (fork_data_init LWS_PRE secs e a samples_per_second g) (\<lambda>(status, g1).
        if status \<noteq> SWITCH_STATUS_SUCCESS
        then andthen (destroy_tech_pvt (e_tech e) g1) (\<lambda>g2. Inr (SWITCH_STATUS_FALSE, g2))
        else Inr (SWITCH_STATUS_SUCCESS, g1\<lparr>g_activePipes := g_activePipes g1 + 1\<rparr>)))"

definition fork_session_connect :: "'j cjson \<Rightarrow> string \<Rightarrow> ptr \<Rightarrow> glue \<Rightarrow> ub + glue" where
  "fork_session_connect J temp_dir tp g =
     andthen (get_tech tp g) (\<lambda>t.
       case t_pAudioPipe t of
         None \<Rightarrow> Inl NullDeref
       | Some ap \<Rightarrow> with_callbacks J temp_dir (addPendingConnect af_notify ap) g)"

definition fork_session_cleanup_unattached :: "ptr \<Rightarrow> glue \<Rightarrow> ub + glue" where
  "fork_session_cleanup_unattached tp g =
     andthen (destroy_tech_pvt tp g) (\<lambda>g1. Inr (g1\<lparr>g_activePipes := g_activePipes g1 - 1\<rparr>))"

section \<open>Tearing a session down\<close>

text \<open>The hand-over to a detached thread, and what that thread does: close, wait, delete.\<close>

definition reaper :: "ptr \<Rightarrow> ptr \<Rightarrow> private_t \<Rightarrow> glue \<Rightarrow> glue" where
  "reaper tp ap t g =
     set_tech tp (t\<lparr>t_pAudioPipe := None\<rparr>) (g\<lparr>g_reapers := g_reapers g @ [(ap, False)]\<rparr>)"

definition reaper_close :: "ptr \<Rightarrow> glue \<Rightarrow> ub + glue" where
  "reaper_close ap g =
     on_pipes (af_close ap) (g\<lparr>g_reapers := map (\<lambda>(a, c). if a = ap then (a, True) else (a, c)) (g_reapers g)\<rparr>)"

definition reaper_finish :: "ptr \<Rightarrow> glue \<Rightarrow> ub + glue" where
  "reaper_finish ap g =
     andthen (on_pipes (destroy_pipe ap) g) (\<lambda>g1.
       Inr (g1\<lparr>g_reapers := filter (\<lambda>(a, c). a \<noteq> ap) (g_reapers g1),
               g_activePipes := g_activePipes g1 - 1\<rparr>))"

text \<open>\<open>fork_session_cleanup\<close> up to the removal of the bug. \<open>seen\<close> is the bug read before the
  mutex was taken; under the mutex the code only asks whether there still is a bug of that
  name. The second component is the bug to remove.\<close>

definition fork_session_cleanup_locked ::
  "string \<Rightarrow> string \<Rightarrow> string option \<Rightarrow> ptr option \<Rightarrow> glue \<Rightarrow> ub + (switch_status \<times> ptr option) \<times> glue" where
  "fork_session_cleanup_locked s bugname text seen g =
     (case seen of
        None \<Rightarrow> Inr ((SWITCH_STATUS_FALSE, None), g)
      | Some bug0 \<Rightarrow>
          andthen (bug_user_data bug0 g) (\<lambda>tp.
          andthen (get_tech tp g) (\<lambda>t.
            case g_private g s bugname of
              None \<Rightarrow> Inr ((SWITCH_STATUS_FALSE, None), g)
            | Some bug \<Rightarrow>
                let g1 = set_tech tp (t\<lparr>t_playout := []\<rparr>)
                       (g\<lparr>g_private := (g_private g)(s := (g_private g s)(bugname := None)),
                          g_files := (\<lambda>f. if f \<in> set (t_playout t) then None else g_files g f)\<rparr>)
                in andthen (case (t_pAudioPipe t, text) of
                       (Some ap, Some x) \<Rightarrow> on_pipes (bufferForSending x ap) g1 | _ \<Rightarrow> Inr g1) (\<lambda>g2.
                   let g3 = (case t_pAudioPipe t of
                       Some ap \<Rightarrow> reaper tp ap (t\<lparr>t_playout := []\<rparr>) g2 | None \<Rightarrow> g2)
                   in andthen (destroy_tech_pvt tp g3) (\<lambda>g4.
                        Inr ((SWITCH_STATUS_SUCCESS, Some bug), g4))))))"

text \<open>The CLOSE callback of a bug, and \<open>switch_core_media_bug_remove\<close>, which fires it.\<close>

definition capture_close :: "ptr \<Rightarrow> glue \<Rightarrow> ub + glue" where
  "capture_close bug g =
     (case g_bugs g bug of
        None \<Rightarrow> Inl UseAfterFree
      | Some (s, tp) \<Rightarrow>
          andthen (get_tech tp g) (\<lambda>t.
          andthen (fork_session_cleanup_locked s (t_bugname t) None (g_private g s (t_bugname t)) g)
            (\<lambda>(_, g1). Inr g1)))"

definition fork_session_cleanup ::
  "string \<Rightarrow> string \<Rightarrow> string option \<Rightarrow> ptr option \<Rightarrow> bool \<Rightarrow> glue \<Rightarrow> ub + switch_status \<times> glue" where
  "fork_session_cleanup s bugname text seen channelIsClosing g =
     andthen (fork_session_cleanup_locked s bugname text seen g) (\<lambda>((status, bug), g1).
     andthen (case bug of
         Some b \<Rightarrow> if \<not> channelIsClosing then capture_close b g1 else Inr g1
       | None \<Rightarrow> Inr g1) (\<lambda>g2.
       Inr (status, g2)))"

section \<open>Requests to a session\<close>

text \<open>The operations that re-verify under the mutex that the bug they saw is still the one of
  that name.\<close>

definition with_session ::
  "string \<Rightarrow> string \<Rightarrow> ptr option \<Rightarrow> (ptr \<Rightarrow> private_t \<Rightarrow> glue \<Rightarrow> ub + glue) \<Rightarrow> glue
     \<Rightarrow> ub + switch_status \<times> glue" where
  "with_session s bugname seen f g =
     (case seen of
        None \<Rightarrow> Inr (SWITCH_STATUS_FALSE, g)
      | Some bug \<Rightarrow>
          andthen (bug_user_data bug g) (\<lambda>tp.
          andthen (get_tech tp g) (\<lambda>t.
            if g_private g s bugname \<noteq> Some bug then Inr (SWITCH_STATUS_FALSE, g)
            else andthen (f tp t g) (\<lambda>g1. Inr (SWITCH_STATUS_SUCCESS, g1)))))"

definition fork_session_send_text ::
  "string \<Rightarrow> string \<Rightarrow> string option \<Rightarrow> ptr option \<Rightarrow> glue \<Rightarrow> ub + switch_status \<times> glue" where
  "fork_session_send_text s bugname text seen =
     with_session s bugname seen (\<lambda>tp t g.
       case (t_pAudioPipe t, text) of
         (Some ap, Some x) \<Rightarrow> on_pipes (bufferForSending x ap) g | _ \<Rightarrow> Inr g)"

definition fork_session_pauseresume ::
  "string \<Rightarrow> string \<Rightarrow> bool \<Rightarrow> ptr option \<Rightarrow> glue \<Rightarrow> ub + switch_status \<times> glue" where
  "fork_session_pauseresume s bugname pause seen =
     with_session s bugname seen (\<lambda>tp t g. Inr (set_tech tp (t\<lparr>t_audio_paused := pause\<rparr>) g))"

definition fork_session_graceful_shutdown ::
  "string \<Rightarrow> string \<Rightarrow> ptr option \<Rightarrow> glue \<Rightarrow> ub + switch_status \<times> glue" where
  "fork_session_graceful_shutdown s bugname seen =
     with_session s bugname seen (\<lambda>tp t g.
       let g1 = set_tech tp (t\<lparr>t_graceful_shutdown := True\<rparr>) g
       in case t_pAudioPipe t of
            Some ap \<Rightarrow> on_pipes (af_do_graceful_shutdown ap) g1 | None \<Rightarrow> Inr g1)"

text \<open>The READ callback. \<open>locked\<close> is the outcome of the \<open>trylock\<close>; a session has a resampler or
  not, \<open>f\<close> is what it does.\<close>

definition fork_frame ::
  "nat \<Rightarrow> ptr \<Rightarrow> bool \<Rightarrow> (unit \<Rightarrow> u8 list \<Rightarrow> nat \<Rightarrow> u8 list \<times> unit) \<Rightarrow> u8 list list \<Rightarrow> glue \<Rightarrow> ub + glue" where
  "fork_frame LWS_PRE bug locked f frames g =
     andthen (bug_user_data bug g) (\<lambda>tp.
     andthen (get_tech tp g) (\<lambda>t.
       if t_audio_paused t \<or> t_graceful_shutdown t \<or> \<not> locked then Inr g
       else case t_pAudioPipe t of
           None \<Rightarrow> Inr g
         | Some ap \<Rightarrow>
             andthen (deref (g_world g) ap) (\<lambda>p.
               if m_state p \<noteq> LWS_CLIENT_CONNECTED then Inr g
               else andthen (af_media LWS_PRE (t_channels t) (if t_resampler t then Some f else None)
                        frames (t_buffer_overrun_notified t) ap (g_world g)) (\<lambda>((notified, n), w).
                 Inr ((set_tech tp (t\<lparr>t_buffer_overrun_notified := notified\<rparr>) g)
                   \<lparr>g_world := w,
                    g_events := g_events g @ replicate n (t_sessionId t, EVENT_BUFFER_OVERRUN, None)\<rparr>)))))"

section \<open>Starting a capture\<close>

text \<open>The part of \<open>start_capture\<close> up to the addition of the bug. \<open>ready\<close>: the channel has reached
  pre-answer and a read codec is negotiated. \<open>added\<close> is what \<open>switch_core_media_bug_add\<close>
  answers. The result is the private data to go on with.\<close>

definition start_capture_begin ::
  "nat \<Rightarrow> int \<Rightarrow> init_env \<Rightarrow> fork_args \<Rightarrow> int \<Rightarrow> bool \<Rightarrow> ptr option \<Rightarrow> glue \<Rightarrow> ub + ptr option \<times> glue" where
  "start_capture_begin LWS_PRE secs e a samples_per_second ready added g =
     (if g_private g (e_uuid e) (f_bugname a) \<noteq> None then Inr (None, g)
      else if \<not> ready then Inr (None, g)
      else andthen (fork_session_init LWS_PRE secs e a samples_per_second g) (\<lambda>(status, g1).
        if status \<noteq> SWITCH_STATUS_SUCCESS then Inr (None, g1)
        else case added of
            None \<Rightarrow> andthen (fork_session_cleanup_unattached (e_tech e) g1) (\<lambda>g2. Inr (None, g2))
          | Some bug \<Rightarrow> Inr (Some (e_tech e), g1\<lparr>g_bugs := (g_bugs g1)(bug := Some (e_uuid e, e_tech e))\<rparr>)))"

definition start_capture_set_private :: "string \<Rightarrow> string \<Rightarrow> ptr \<Rightarrow> glue \<Rightarrow> glue" where
  "start_capture_set_private s bugname bug g =
     g\<lparr>g_private := (g_private g)(s := (g_private g s)(bugname := Some bug))\<rparr>"

definition start_capture ::
  "'j cjson \<Rightarrow> string \<Rightarrow> nat \<Rightarrow> int \<Rightarrow> init_env \<Rightarrow> fork_args \<Rightarrow> int \<Rightarrow> bool \<Rightarrow> ptr option \<Rightarrow> glue
     \<Rightarrow> ub + switch_status \<times> glue" where
  "start_capture J temp_dir LWS_PRE secs e a samples_per_second ready added g =
     andthen (start_capture_begin LWS_PRE secs e a samples_per_second ready added g) (\<lambda>(r, g1).
       case (r, added) of
         (Some tp, Some bug) \<Rightarrow>
           andthen (fork_session_connect J temp_dir tp
               (start_capture_set_private (e_uuid e) (f_bugname a) bug g1)) (\<lambda>g2.
             Inr (SWITCH_STATUS_SUCCESS, g2))
       | _ \<Rightarrow> Inr (SWITCH_STATUS_FALSE, g1))"

text \<open>The unload gate.\<close>

definition fork_sessions_active :: "glue \<Rightarrow> int" where
  "fork_sessions_active g = g_activePipes g"

end
