(* ===== verification/ForkNotes.thy ===== *)
theory ForkNotes
  imports ForkProps
begin

text \<open>
  What the operations on the pipes tell the module: every operation only appends to the
  notifications, a MESSAGE always carries its text, and CONNECT_SUCCESS, MESSAGE and the two ways a
  connection ends are only told by the service thread.
\<close>

definition note_ok :: "ptr \<times> af_note \<Rightarrow> bool" where
  "note_ok n \<longleftrightarrow> (case n of (ap, s, bugname, event, message) \<Rightarrow> event = MESSAGE \<longrightarrow> message \<noteq> None)"

definition notes_grow :: "af_world \<Rightarrow> af_world \<Rightarrow> bool" where
  "notes_grow w w' \<longleftrightarrow> (\<exists>ns. notifications w' = notifications w @ ns \<and> list_all note_ok ns)"

lemma notes_grow_same: "notifications w' = notifications w \<Longrightarrow> notes_grow w w'"
  by (simp add: notes_grow_def)

lemma notes_grow_trans: "notes_grow w w1 \<Longrightarrow> notes_grow w1 w2 \<Longrightarrow> notes_grow w w2"
proof -
  assume "notes_grow w w1" "notes_grow w1 w2"
  then obtain ns ms where "notifications w1 = notifications w @ ns" "list_all note_ok ns"
    "notifications w2 = notifications w1 @ ms" "list_all note_ok ms"
    unfolding notes_grow_def by blast
  then show ?thesis unfolding notes_grow_def by (intro exI [of _ "ns @ ms"]) simp
qed

lemma notify_grow:
  "notify af_notify ap ev msg w = Inr w' \<Longrightarrow> ev \<noteq> MESSAGE \<or> msg \<noteq> None \<Longrightarrow> notes_grow w w'"
  by (auto simp: notify_def andthen_Inr_iff notes_grow_def note_ok_def af_notify_def)

text \<open>Operations that tell nothing.\<close>

lemma modify_notes: "modify ap f w = Inr w' \<Longrightarrow> notifications w' = notifications w"
  by (auto simp: modify_def andthen_Inr_iff set_pipe_def)

lemma adding_notes:
  "addPendingWrite ap w = Inr w' \<Longrightarrow> notifications w' = notifications w"
  "addPendingDisconnect ap w = Inr w' \<Longrightarrow> notifications w' = notifications w"
  by (auto simp: addPendingWrite_def addPendingDisconnect_def andthen_Inr_iff lws_cancel_service_def
      set_pipe_def Let_def split: if_splits)

lemma quiet_ops:
  "bufferForSending t ap w = Inr w' \<Longrightarrow> notifications w' = notifications w"
  "af_close ap w = Inr w' \<Longrightarrow> notifications w' = notifications w"
  "af_do_graceful_shutdown ap w = Inr w' \<Longrightarrow> notifications w' = notifications w"
  "unlockAudioBuffer pre ap w = Inr w' \<Longrightarrow> notifications w' = notifications w"
  "findAndRemovePendingConnect x w = Inr (r, w') \<Longrightarrow> notifications w' = notifications w"
  "destroy_pipe ap w = Inr w' \<Longrightarrow> notifications w' = notifications w"
  by (auto simp: bufferForSending_def af_close_def af_do_graceful_shutdown_def unlockAudioBuffer_def
      findAndRemovePendingConnect_def destroy_pipe_def removeFromPending_def andthen_Inr_iff set_pipe_def
      Let_def dest!: adding_notes split: if_splits)

lemma af_media_notes: "af_media pre channels resampler frames n ap w = Inr (r, w') \<Longrightarrow> notifications w' = notifications w"
  by (auto simp: af_media_def media_frames_def andthen_Inr_iff set_pipe_def dest!: quiet_ops(4))

lemma adopt_idle_notes: "adopt_idle aps w = Inr (cs, w') \<Longrightarrow> notifications w' = notifications w"
  by (induction aps arbitrary: w cs) (fastforce simp: andthen_Inr_iff set_pipe_def split: if_splits)+

lemma request_all_notes: "request_all aps w = Inr w' \<Longrightarrow> notifications w' = notifications w"
  by (induction aps arbitrary: w)
    (fastforce simp: andthen_Inr_iff lws_callback_on_writable_def split: option.splits if_splits)+

lemma processPending_notes:
  "processPendingDisconnects vhd w = Inr w' \<Longrightarrow> notifications w' = notifications w"
  "processPendingWrites vhd w = Inr w' \<Longrightarrow> notifications w' = notifications w"
  by (auto simp: processPendingDisconnects_def processPendingWrites_def andthen_Inr_iff
      dest!: request_all_notes)

text \<open>The others.\<close>

lemma fail_connect_grow: "fail_connect af_notify ap msg w = Inr w' \<Longrightarrow> notes_grow w w'"
  by (auto simp: fail_connect_def andthen_Inr_iff set_state_def setClosed_at_def notes_grow_def
      dest!: modify_notes notify_grow)

lemma connect_all_grow: "connect_all af_notify vhd conn aps w = Inr w' \<Longrightarrow> notes_grow w w'"
proof (induction aps arbitrary: w)
  case (Cons ap aps)
  obtain ok w1 w2 where s: "connect_client vhd conn ap w = Inr (ok, w1)"
    "(if ok then Inr w1 else fail_connect af_notify ap (Some ''connect_client failed'') w1) = Inr w2"
    "connect_all af_notify vhd conn aps w2 = Inr w'"
    using Cons.prems by (auto simp: andthen_Inr_iff)
  have "notes_grow w w1" using s(1)
    by (intro notes_grow_same) (auto simp: connect_client_def andthen_Inr_iff Let_def set_pipe_def
        lws_client_connect_via_info_def split: if_splits option.splits)
  moreover have "notes_grow w1 w2"
    using s(2) fail_connect_grow [of ap "Some ''connect_client failed''" w1 w2] notes_grow_same [of w1 w1]
    by (cases ok) simp_all
  ultimately show ?case using notes_grow_trans Cons.IH [OF s(3)] by blast
qed (simp add: notes_grow_same)

lemma af_closed_grow: "af_closed x w = Inr w' \<Longrightarrow> notes_grow w w'"
  by (auto simp: af_closed_def closed_handle_def on_closed_def andthen_Inr_iff set_state_def setClosed_at_def notes_grow_def
      dest!: modify_notes notify_grow split: option.splits if_splits)

lemma af_on_established_grow: "af_on_established x vhd w = Inr w' \<Longrightarrow> notes_grow w w'"
  by (auto simp: af_on_established_def andthen_Inr_iff notes_grow_def
      dest!: quiet_ops(2,3,5) modify_notes notify_grow split: option.splits if_splits)

lemma af_on_writeable_notes: "af_on_writeable pre ret x w = Inr (rc, w') \<Longrightarrow> notifications w' = notifications w"
  by (auto simp: af_on_writeable_def write_pending_def andthen_Inr_iff lws_write_def lws_callback_on_writable_def set_pipe_def
      Let_def split: option.splits if_splits)

lemma af_exec_grow:
  assumes "af_exec pre a w = Inr w'"
  shows "notes_grow w w'"
proof (cases a)
  case (AConnect ap)
  obtain c w1 where c: "pick_context (numContexts w) w = (c, w1)" by force
  have n: "notifications w1 = notifications w" by (subst af.pick_context_frame [OF c]) simp
  show ?thesis using assms AConnect c n fail_connect_grow
    by (fastforce simp: addPendingConnect_def lws_cancel_service_def notes_grow_def split: option.splits)
next
  case (AWaitCancelled vhd conn)
  then obtain cs w1 w2 w3 where s: "adopt_idle (pendingConnects w) w = Inr (cs, w1)"
    "connect_all af_notify vhd conn cs w1 = Inr w2" "processPendingDisconnects vhd w2 = Inr w3"
    "processPendingWrites vhd w3 = Inr w'"
    using assms by (auto simp: on_wait_cancelled_def processPendingConnects_def andthen_Inr_iff)
  show ?thesis
    using adopt_idle_notes [OF s(1)] connect_all_grow [OF s(2)] processPending_notes(1) [OF s(3)]
      processPending_notes(2) [OF s(4)] by (simp add: notes_grow_def)
next
  case (AEstablished x vhd)
  then show ?thesis using assms af_on_established_grow by (fastforce simp: notes_grow_def)
next
  case (AConnectionError x msg)
  then obtain w1 where w1: "on_connection_error af_notify x msg w = Inr w1" "notifications w' = notifications w1"
    using assms by (auto simp: andthen_Inr_iff)
  then have "notes_grow w w1"
    by (auto simp: on_connection_error_def andthen_Inr_iff notes_grow_def dest!: quiet_ops(5) fail_connect_grow
        split: option.splits)
  then show ?thesis using w1(2) by (simp add: notes_grow_def)
next
  case (AReceive x e)
  then show ?thesis using assms
    by (auto simp: af_on_receive_def on_receive_def andthen_Inr_iff Let_def set_pipe_def notes_grow_def dest!: notify_grow
        split: option.splits)
next
  case (AWriteable x ret)
  then obtain rc w1 where "af_on_writeable pre ret x (w\<lparr>writable := removeAll x (writable w)\<rparr>) = Inr (rc, w1)"
    "(if rc < 0 then af_closed x w1 else Inr w1) = Inr w'"
    using assms by (auto simp: andthen_Inr_iff)
  then show ?thesis using af_on_writeable_notes af_closed_grow notes_grow_same
    by (fastforce simp: notes_grow_def split: if_splits)
next
  case (AClosed x)
  then show ?thesis using assms af_closed_grow by simp
qed (use assms in \<open>auto intro!: notes_grow_same simp: set_pipe_def andthen_Inr_iff
    dest!: quiet_ops af_media_notes\<close>)

end
