(* ===== verification/Owners.thy ===== *)
theory Owners
  imports AudioPipe
begin

text \<open>
  Who owns the pipes of a module: the private data of a session, or a reaper thread. The glue layers
  of both copies keep a map from private data to pipes, a list of reaped pipes and a live-pipe count;
  the invariant on the three and its preservation by each kind of change are stated here once, over
  the heap of pipes, the view \<open>T\<close> of the private data (its pipe and number of channels), the reaped
  pipes \<open>R\<close> and the count \<open>n\<close>.
\<close>

type_synonym owner_view = "ptr \<Rightarrow> (ptr option \<times> nat) option"

text \<open>The buffer of a pipe has room for one stereo frame of its session.\<close>

definition roomy :: "nat \<Rightarrow> nat \<Rightarrow> 'a pipe_scheme \<Rightarrow> bool" where
  "roomy pre channels p \<longleftrightarrow> 0 < channels \<and> pre + binaryMinSpace p * channels \<le> m_audio_buffer_max_len p"

definition owners :: "nat \<Rightarrow> (ptr \<Rightarrow> 'a pipe_scheme option) \<Rightarrow> owner_view \<Rightarrow> ptr list \<Rightarrow> int \<Rightarrow> bool" where
  "owners pre H T R n \<longleftrightarrow>
     finite (dom H) \<and> n = int (card (dom H)) \<and> distinct R \<and> set R \<subseteq> dom H \<and>
     (\<forall>tp ap c. T tp = Some (Some ap, c) \<longrightarrow> ap \<notin> set R \<and> (\<exists>p. H ap = Some p \<and> roomy pre c p)) \<and>
     (\<forall>tp tq ap c d. T tp = Some (Some ap, c) \<longrightarrow> T tq = Some (Some ap, d) \<longrightarrow> tp = tq)"

lemma ownersD:
  assumes "owners pre H T R n"
  shows "finite (dom H)" "n = int (card (dom H))" "distinct R" "set R \<subseteq> dom H"
    and "T tp = Some (Some ap, c) \<Longrightarrow> ap \<notin> set R \<and> (\<exists>p. H ap = Some p \<and> roomy pre c p)"
    and "T tp = Some (Some ap, c) \<Longrightarrow> T tq = Some (Some ap, d) \<Longrightarrow> tp = tq"
proof -
  note a = assms [unfolded owners_def]
  show "finite (dom H)" "n = int (card (dom H))" "distinct R" "set R \<subseteq> dom H" using a by blast+
  show "T tp = Some (Some ap, c) \<Longrightarrow> ap \<notin> set R \<and> (\<exists>p. H ap = Some p \<and> roomy pre c p)"
    using a by blast
  show "T tp = Some (Some ap, c) \<Longrightarrow> T tq = Some (Some ap, d) \<Longrightarrow> tp = tq"
    using a by blast
qed

lemma ownersI:
  assumes "finite (dom H)" "n = int (card (dom H))" "distinct R" "set R \<subseteq> dom H"
    and "\<And>tp ap c. T tp = Some (Some ap, c) \<Longrightarrow> ap \<notin> set R \<and> (\<exists>p. H ap = Some p \<and> roomy pre c p)"
    and "\<And>tp tq ap c d. T tp = Some (Some ap, c) \<Longrightarrow> T tq = Some (Some ap, d) \<Longrightarrow> tp = tq"
  shows "owners pre H T R n"
  unfolding owners_def using assms by blast

lemma owners_empty: "H = Map.empty \<Longrightarrow> T = Map.empty \<Longrightarrow> owners pre H T [] 0"
  by (simp add: owners_def)

text \<open>Pipes change, but none comes or goes and none changes its sizes.\<close>

lemma owners_heap:
  assumes o: "owners pre H T R n" and d: "dom H' = dom H"
    and k: "\<And>ap p c. H ap = Some p \<Longrightarrow> roomy pre c p \<Longrightarrow> \<exists>q. H' ap = Some q \<and> roomy pre c q"
  shows "owners pre H' T R n"
  unfolding owners_def d using ownersD [OF o] k by meson

text \<open>A session gives its pipe to a reaper.\<close>

lemma owners_reap:
  assumes o: "owners pre H T R n" and t: "T tp = Some (Some ap, c)"
  shows "owners pre H (T(tp := Some (None, d))) (R @ [ap]) n"
proof -
  have u: "aq \<noteq> ap" if "T tq = Some (Some aq, e)" "tq \<noteq> tp" for tq aq e
    using ownersD(6) [OF o t] that by blast
  have r: "ap \<notin> set R" "ap \<in> dom H" using ownersD(5) [OF o t] by auto
  have 1: "aq \<notin> set (R @ [ap]) \<and> (\<exists>p. H aq = Some p \<and> roomy pre e p)"
    if a: "(T(tp := Some (None, d))) tq = Some (Some aq, e)" for tq aq e
  proof -
    have "tq \<noteq> tp" "T tq = Some (Some aq, e)" using a by (auto split: if_splits)
    then show ?thesis using u ownersD(5) [OF o, of tq aq e] by auto
  qed
  have 2: "tq = tr" if "(T(tp := Some (None, d))) tq = Some (Some aq, e)"
      "(T(tp := Some (None, d))) tr = Some (Some aq, f)" for tq tr aq e f
    using that ownersD(6) [OF o, of tq aq e tr f] by (auto split: if_splits)
  show ?thesis
    by (rule ownersI; (erule 1 | erule (1) 2)?) (use ownersD(1-4) [OF o] r in auto)
qed

text \<open>A session without a pipe keeps having none.\<close>

lemma owners_none:
  assumes o: "owners pre H T R n" and t: "T tp = Some (None, c)"
  shows "owners pre H (T(tp := Some (None, d))) R n"
proof -
  have same: "(T(tp := Some (None, d))) tq = Some (Some aq, e) \<longleftrightarrow> T tq = Some (Some aq, e)" for tq aq e
    using t by auto
  show ?thesis using o unfolding owners_def same .
qed

text \<open>A pipe nobody but its reaper owns is deleted, or one that nobody owns.\<close>

lemma owners_delete:
  assumes o: "owners pre H T R n" and p: "ap \<in> dom H" and u: "\<And>tp c. T tp \<noteq> Some (Some ap, c)"
  shows "owners pre (H(ap := None)) T (filter (\<lambda>a. a \<noteq> ap) R) (n - 1)"
proof -
  have "n - 1 = int (card (dom (H(ap := None))))"
    using ownersD(1,2) [OF o] p card_gt_0_iff [of "dom H"] by auto
  moreover have "aq \<notin> set (filter (\<lambda>a. a \<noteq> ap) R) \<and> (\<exists>p. (H(ap := None)) aq = Some p \<and> roomy pre c p)"
    if "T tq = Some (Some aq, c)" for tq aq c
    using ownersD(5) [OF o that] u that by auto
  moreover have "tq = tr" if "T tq = Some (Some aq, c)" "T tr = Some (Some aq, d)" for tq tr aq c d
    using ownersD(6) [OF o that] .
  moreover have "set (filter (\<lambda>a. a \<noteq> ap) R) \<subseteq> dom (H(ap := None))" using ownersD(4) [OF o] by auto
  moreover have "finite (dom (H(ap := None)))" "distinct (filter (\<lambda>a. a \<noteq> ap) R)"
    using ownersD(1,3) [OF o] by simp_all
  ultimately show ?thesis unfolding owners_def by blast
qed

text \<open>A session deletes its own pipe.\<close>

lemma owners_delete_own:
  assumes o: "owners pre H T R n" and t: "T tp = Some (Some ap, c)"
  shows "owners pre (H(ap := None)) (T(tp := Some (None, d))) R (n - 1)"
proof -
  have r: "ap \<notin> set R" "ap \<in> dom H" using ownersD(5) [OF o t] by auto
  have "filter (\<lambda>a. a \<noteq> ap) (R @ [ap]) = R" using r(1) by (auto simp: filter_id_conv)
  moreover have "(T(tp := Some (None, d))) tq \<noteq> Some (Some ap, e)" for tq e
    using ownersD(6) [OF o t, of tq e] by auto
  ultimately show ?thesis using owners_delete [OF owners_reap [OF o t, of d] r(2)] by simp
qed

text \<open>A session is created with its pipe.\<close>

lemma owners_new:
  assumes o: "owners pre H T R n" and f: "H ap = None" "T tp = None" and p: "roomy pre c p"
  shows "owners pre (H(ap := Some p)) (T(tp := Some (Some ap, c))) R (n + 1)"
proof -
  have old: "aq \<noteq> ap" if "T tq = Some (Some aq, e)" for tq aq e using ownersD(5) [OF o that] f(1) by auto
  have fresh: "ap \<notin> set R" using ownersD(4) [OF o] f(1) by auto
  have 1: "aq \<notin> set R \<and> (\<exists>q. (H(ap := Some p)) aq = Some q \<and> roomy pre e q)"
    if "(T(tp := Some (Some ap, c))) tq = Some (Some aq, e)" for tq aq e
    using that fresh p old [of tq aq e] ownersD(5) [OF o, of tq aq e] by (auto split: if_splits)
  have 2: "tq = tr" if "(T(tp := Some (Some ap, c))) tq = Some (Some aq, d)"
      "(T(tp := Some (Some ap, c))) tr = Some (Some aq, e)" for tq tr aq d e
    using that old ownersD(6) [OF o, of tq aq d tr e] by (auto split: if_splits)
  have 3: "n + 1 = int (card (dom (H(ap := Some p))))"
    using ownersD(1,2) [OF o] f(1) by (simp add: domIff)
  have 4: "set R \<subseteq> dom (H(ap := Some p))" using ownersD(4) [OF o] by auto
  show ?thesis
    by (rule ownersI; (erule 1 | erule (1) 2 | rule 3 4)?) (use ownersD(1,3) [OF o] in simp_all)
qed

text \<open>A session is created without a pipe.\<close>

lemma owners_new_none:
  assumes o: "owners pre H T R n" and f: "T tp = None"
  shows "owners pre H (T(tp := Some (None, c))) R n"
proof -
  have same: "(T(tp := Some (None, c))) tq = Some (Some aq, e) \<longleftrightarrow> T tq = Some (Some aq, e)" for tq aq e
    using f by auto
  show ?thesis using o unfolding owners_def same .
qed

lemma map_option_upd: "map_option f \<circ> m(a := b) = (map_option f \<circ> m)(a := map_option f b)"
  by (rule ext) simp

end
