(* ===== verification/ForkGlueInv.thy ===== *)
theory ForkGlueInv
  imports ForkSession ForkNotes Owners
begin

text \<open>
  The transition system of the sessions and its invariant: who owns which pipe, what the live-pipe
  count counts, and that no operation of any thread, whatever it read before taking the mutex, goes
  wrong.
\<close>

section \<open>The transition system\<close>

datatype gl_action =
    GStart init_env fork_args int bool "ptr option"
  | GCleanup string string "string option" "ptr option" bool
  | GSendText string string "string option" "ptr option"
  | GPauseResume string string bool "ptr option"
  | GGraceful string string "ptr option"
  | GFrame ptr bool "unit \<Rightarrow> u8 list \<Rightarrow> nat \<Rightarrow> u8 list \<times> unit" "u8 list list"
  | GBugClosed ptr
  | GReaperClose ptr
  | GReaperFinish ptr
  | GLibrary af_action
  | GHangup string

text \<open>The constants of one run: the cJSON functions, the temporary directory, \<open>LWS_PRE\<close> and
  \<open>nAudioBufferSecs\<close>.\<close>

fun gl_exec :: "'j cjson \<Rightarrow> string \<Rightarrow> nat \<Rightarrow> int \<Rightarrow> gl_action \<Rightarrow> glue \<Rightarrow> ub + glue" where
  "gl_exec J tmp pre secs (GStart e a rate ready added) g =
     andthen (start_capture J tmp pre secs e a rate ready added g) (\<lambda>(_, g1). Inr g1)"
| "gl_exec J tmp pre secs (GCleanup s bugname t seen closing) g =
     andthen (fork_session_cleanup s bugname t seen closing g) (\<lambda>(_, g1). Inr g1)"
| "gl_exec J tmp pre secs (GSendText s bugname t seen) g =
     andthen (fork_session_send_text s bugname t seen g) (\<lambda>(_, g1). Inr g1)"
| "gl_exec J tmp pre secs (GPauseResume s bugname pause seen) g =
     andthen (fork_session_pauseresume s bugname pause seen g) (\<lambda>(_, g1). Inr g1)"
| "gl_exec J tmp pre secs (GGraceful s bugname seen) g =
     andthen (fork_session_graceful_shutdown s bugname seen g) (\<lambda>(_, g1). Inr g1)"
| "gl_exec J tmp pre secs (GFrame bug locked f frames) g = fork_frame pre bug locked f frames g"
| "gl_exec J tmp pre secs (GBugClosed bug) g = capture_close bug g"
| "gl_exec J tmp pre secs (GReaperClose ap) g = reaper_close ap g"
| "gl_exec J tmp pre secs (GReaperFinish ap) g = reaper_finish ap g"
| "gl_exec J tmp pre secs (GLibrary a) g = with_callbacks J tmp (af_exec pre a) g"
| "gl_exec J tmp pre secs (GHangup s) g = Inr (g\<lparr>g_sessions := (g_sessions g)(s := False)\<rparr>)"

definition seen_ok :: "ptr option \<Rightarrow> glue \<Rightarrow> bool" where
  "seen_ok seen g \<longleftrightarrow> (case seen of None \<Rightarrow> True | Some bug \<Rightarrow> g_bugs g bug \<noteq> None)"

fun library_action :: "af_action \<Rightarrow> bool" where
  "library_action (AWaitCancelled vhd conn) = True"
| "library_action (AEstablished x vhd) = True"
| "library_action (AConnectionError x msg) = True"
| "library_action (AReceive x e) = True"
| "library_action (AWriteable x ret) = True"
| "library_action (AClosed x) = True"
| "library_action _ = False"

text \<open>The pipe of the bug's session, if it has one.\<close>

definition bug_pipe :: "ptr \<Rightarrow> glue \<Rightarrow> (private_t \<times> af_pipe) option" where
  "bug_pipe bug g =
     (case g_bugs g bug of None \<Rightarrow> None
      | Some (s, tp) \<Rightarrow> (case g_tech g tp of None \<Rightarrow> None
        | Some t \<Rightarrow> (case t_pAudioPipe t of None \<Rightarrow> None
          | Some ap \<Rightarrow> (case heap (g_world g) ap of None \<Rightarrow> None | Some p \<Rightarrow> Some (t, p)))))"

text \<open>When a step may be taken. A start has fresh addresses, the values \<open>fork_function\<close> lets
  through, and a codec whose packet fits the buffer; frames are within what the codec announced; a
  bug read earlier is one that existed; the reaper's thread runs in order.\<close>

fun gl_enabled :: "nat \<Rightarrow> int \<Rightarrow> gl_action \<Rightarrow> glue \<Rightarrow> bool" where
  "gl_enabled pre secs (GStart e a rate ready added) g \<longleftrightarrow>
     g_tech g (e_tech e) = None \<and> heap (g_world g) (e_pipe e) = None \<and>
     (case added of None \<Rightarrow> True | Some bug \<Rightarrow> g_bugs g bug = None) \<and>
     0 < f_channels a \<and> e_bytes_per_packet e * f_channels a + pre \<le> length (e_block e) \<and>
     fork_buflen pre (f_sampling a) (int (f_channels a)) secs = Inr (length (e_block e))"
| "gl_enabled pre secs (GCleanup s bugname t seen closing) g \<longleftrightarrow> seen_ok seen g"
| "gl_enabled pre secs (GSendText s bugname t seen) g \<longleftrightarrow> seen_ok seen g"
| "gl_enabled pre secs (GPauseResume s bugname pause seen) g \<longleftrightarrow> seen_ok seen g"
| "gl_enabled pre secs (GGraceful s bugname seen) g \<longleftrightarrow> seen_ok seen g"
| "gl_enabled pre secs (GFrame bug locked f frames) g \<longleftrightarrow>
     g_bugs g bug \<noteq> None \<and>
     (case bug_pipe bug g of None \<Rightarrow> True
      | Some (t, p) \<Rightarrow> list_all (\<lambda>d. length d \<le> binaryMinSpace p * t_channels t) frames \<and>
          resampler_ok (t_channels t) f)"
| "gl_enabled pre secs (GBugClosed bug) g \<longleftrightarrow> g_bugs g bug \<noteq> None"
| "gl_enabled pre secs (GReaperClose ap) g \<longleftrightarrow> (ap, False) \<in> set (g_reapers g)"
| "gl_enabled pre secs (GReaperFinish ap) g \<longleftrightarrow>
     (ap, True) \<in> set (g_reapers g) \<and>
     (case heap (g_world g) ap of None \<Rightarrow> True | Some p \<Rightarrow> waitForClose_returns p)"
| "gl_enabled pre secs (GLibrary a) g \<longleftrightarrow> library_action a \<and> af_enabled pre a (g_world g)"
| "gl_enabled pre secs (GHangup s) g \<longleftrightarrow> True"

definition gl_start :: "glue \<Rightarrow> bool" where
  "gl_start g \<longleftrightarrow> af_start (g_world g) \<and> g_tech g = (\<lambda>_. None) \<and> g_bugs g = (\<lambda>_. None) \<and>
     g_private g = (\<lambda>_ _. None) \<and> g_activePipes g = 0 \<and> g_reapers g = []"

inductive gl_reach :: "'j cjson \<Rightarrow> string \<Rightarrow> nat \<Rightarrow> int \<Rightarrow> glue \<Rightarrow> bool" for J tmp pre secs where
  start: "gl_start g \<Longrightarrow> gl_reach J tmp pre secs g"
| step: "gl_reach J tmp pre secs g \<Longrightarrow> gl_enabled pre secs a g \<Longrightarrow> gl_exec J tmp pre secs a g = Inr g'
    \<Longrightarrow> gl_reach J tmp pre secs g'"

section \<open>The invariant\<close>

definition gl_view :: "glue \<Rightarrow> owner_view" where
  "gl_view g tp = map_option (\<lambda>t. (t_pAudioPipe t, t_channels t)) (g_tech g tp)"

definition gl_inv :: "nat \<Rightarrow> glue \<Rightarrow> bool" where
  "gl_inv pre g \<longleftrightarrow>
     af_inv pre (g_world g) \<and>
     owners pre (heap (g_world g)) (gl_view g) (map fst (g_reapers g)) (g_activePipes g) \<and>
     (\<forall>bug s tp. g_bugs g bug = Some (s, tp) \<longrightarrow> g_tech g tp \<noteq> None) \<and>
     (\<forall>s n bug. g_private g s n = Some bug \<longrightarrow> g_bugs g bug \<noteq> None)"

lemma gl_view_cong: "g_tech g' = g_tech g \<Longrightarrow> gl_view g' = gl_view g"
  by (simp add: gl_view_def fun_eq_iff)

lemma gl_view_updates [simp]:
  "gl_view (g\<lparr>g_world := w\<rparr>) = gl_view g" "gl_view (g\<lparr>g_reapers := r\<rparr>) = gl_view g"
  "gl_view (g\<lparr>g_activePipes := n\<rparr>) = gl_view g" "gl_view (g\<lparr>g_private := pr\<rparr>) = gl_view g"
  "gl_view (g\<lparr>g_bugs := b\<rparr>) = gl_view g" "gl_view (g\<lparr>g_events := ev\<rparr>) = gl_view g"
  "gl_view (g\<lparr>g_breaks := br\<rparr>) = gl_view g" "gl_view (g\<lparr>g_files := fs\<rparr>) = gl_view g"
  "gl_view (g\<lparr>g_playCount := k\<rparr>) = gl_view g" "gl_view (g\<lparr>g_sessions := ss\<rparr>) = gl_view g"
  "gl_view (g\<lparr>g_idxCallCount := j\<rparr>) = gl_view g"
  by (rule gl_view_cong, simp)+

lemma gl_view_set_tech:
  "gl_view (set_tech tp t g) = (gl_view g)(tp := Some (t_pAudioPipe t, t_channels t))"
  by (simp add: gl_view_def set_tech_def fun_eq_iff)

lemma gl_view_pipe:
  "g_tech g tp = Some t \<Longrightarrow> t_pAudioPipe t = r \<Longrightarrow> gl_view g tp = Some (r, t_channels t)"
  by (simp add: gl_view_def)

lemma gl_inv_owners:
  "gl_inv pre g \<Longrightarrow> owners pre (heap (g_world g)) (gl_view g) (map fst (g_reapers g)) (g_activePipes g)"
  by (simp add: gl_inv_def)

lemma gl_inv_updates [simp]:
  "gl_inv pre (g\<lparr>g_events := ev\<rparr>) = gl_inv pre g" "gl_inv pre (g\<lparr>g_breaks := br\<rparr>) = gl_inv pre g"
  "gl_inv pre (g\<lparr>g_files := fs\<rparr>) = gl_inv pre g" "gl_inv pre (g\<lparr>g_playCount := n\<rparr>) = gl_inv pre g"
  "gl_inv pre (g\<lparr>g_sessions := ss\<rparr>) = gl_inv pre g" "gl_inv pre (send_event s e b g) = gl_inv pre g"
  "gl_inv pre (g\<lparr>g_idxCallCount := k\<rparr>) = gl_inv pre g"
  by (simp_all add: gl_inv_def send_event_def)

lemma gl_inv_same:
  assumes "g_tech g' = g_tech g" "g_world g' = g_world g" "g_reapers g' = g_reapers g"
    "g_bugs g' = g_bugs g" "g_private g' = g_private g" "g_activePipes g' = g_activePipes g"
  shows "gl_inv pre g' = gl_inv pre g"
  by (simp only: gl_inv_def gl_view_cong [OF assms(1)] assms)

text \<open>A change of the pipes that keeps them all.\<close>

lemma gl_inv_world:
  assumes g: "gl_inv pre g" and w: "af_inv pre w" "heap_evolves (g_world g) w"
  shows "gl_inv pre (g\<lparr>g_world := w\<rparr>)"
proof -
  have "owners pre (heap w) (gl_view g) (map fst (g_reapers g)) (g_activePipes g)"
    by (rule owners_heap [OF gl_inv_owners [OF g]])
      (use w(2) in \<open>fastforce simp: heap_evolves_def evolves_def binaryMinSpace_def roomy_def\<close>)+
  then show ?thesis using g w(1) by (simp add: gl_inv_def)
qed

text \<open>A change of the private data that keeps the pipe and the number of channels.\<close>

lemma gl_inv_set_tech:
  assumes "gl_inv pre g" "g_tech g tp = Some t" "t_pAudioPipe t' = t_pAudioPipe t"
    "t_channels t' = t_channels t"
  shows "gl_inv pre (set_tech tp t' g)"
proof -
  have "gl_view (set_tech tp t' g) = gl_view g"
    using assms(2-4) by (auto simp: gl_view_set_tech gl_view_def fun_eq_iff)
  then show ?thesis using assms(1) by (auto simp: gl_inv_def set_tech_def split: if_splits)
qed

lemma gl_inv_tech:
  "gl_inv pre g \<Longrightarrow> g_bugs g bug = Some (s, tp) \<Longrightarrow> \<exists>t. g_tech g tp = Some t"
  by (auto simp: gl_inv_def)

lemma gl_inv_private:
  "gl_inv pre g \<Longrightarrow> g_private g s n = Some bug \<Longrightarrow> \<exists>s' tp. g_bugs g bug = Some (s', tp)"
proof -
  assume "gl_inv pre g" "g_private g s n = Some bug"
  then have "g_bugs g bug \<noteq> None" unfolding gl_inv_def by blast
  then show ?thesis by auto
qed

lemma gl_inv_pipe:
  "gl_inv pre g \<Longrightarrow> g_tech g tp = Some t \<Longrightarrow> t_pAudioPipe t = Some ap \<Longrightarrow>
     \<exists>p. heap (g_world g) ap = Some p \<and> 0 < t_channels t \<and>
       pre + binaryMinSpace p * t_channels t \<le> m_audio_buffer_max_len p"
  using ownersD(5) [OF gl_inv_owners, of pre g tp ap "t_channels t"] by (auto simp: gl_view_def roomy_def)

lemma gl_inv_reaper:
  "gl_inv pre g \<Longrightarrow> (ap, c) \<in> set (g_reapers g) \<Longrightarrow> \<exists>p. heap (g_world g) ap = Some p"
proof -
  assume "gl_inv pre g" "(ap, c) \<in> set (g_reapers g)"
  then have "ap \<in> set (map fst (g_reapers g))" by force
  with ownersD(4) [OF gl_inv_owners [OF \<open>gl_inv pre g\<close>]] show ?thesis by auto
qed

section \<open>Operations on the pipes of a session\<close>

lemma on_pipes_ok:
  assumes "gl_inv pre g" "f (g_world g) = Inr w" "af_inv pre w" "heap_evolves (g_world g) w"
  shows "\<exists>g'. on_pipes f g = Inr g' \<and> gl_inv pre g' \<and> g' = g\<lparr>g_world := g_world g'\<rparr>"
  using assms gl_inv_world by (auto simp: on_pipes_def)

lemma buffer_ok:
  assumes "gl_inv pre g" "heap (g_world g) ap = Some p"
  shows "\<exists>g'. on_pipes (bufferForSending x ap) g = Inr g' \<and> gl_inv pre g' \<and> g' = g\<lparr>g_world := g_world g'\<rparr>"
proof -
  have w: "af_inv pre (g_world g)" using assms(1) by (simp add: gl_inv_def)
  obtain w' where w': "bufferForSending x ap (g_world g) = Inr w'" "af_inv pre w'"
    using af.bufferForSending_ok [OF w assms(2)] by blast
  moreover have "heap_evolves (g_world g) w'"
    using af_step_evolves [OF w, of "ABufferForSending ap x" w'] w'(1) assms(2) by simp
  ultimately show ?thesis using on_pipes_ok [OF assms(1)] by blast
qed

lemma graceful_ok:
  assumes "gl_inv pre g" "heap (g_world g) ap = Some p"
  shows "\<exists>g'. on_pipes (af_do_graceful_shutdown ap) g = Inr g' \<and> gl_inv pre g'"
proof -
  have w: "af_inv pre (g_world g)" using assms(1) by (simp add: gl_inv_def)
  obtain w' where w': "af_do_graceful_shutdown ap (g_world g) = Inr w'" "af_inv pre w'"
    using af_do_graceful_ok [OF w assms(2)] by blast
  moreover have "heap_evolves (g_world g) w'"
    using af_step_evolves [OF w, of "AGracefulShutdown ap" w'] w'(1) assms(2) by simp
  ultimately show ?thesis using on_pipes_ok [OF assms(1)] by blast
qed

lemma close_ok:
  assumes "gl_inv pre g" "heap (g_world g) ap = Some p"
  shows "\<exists>g'. on_pipes (af_close ap) g = Inr g' \<and> gl_inv pre g' \<and> g' = g\<lparr>g_world := g_world g'\<rparr>"
proof -
  have w: "af_inv pre (g_world g)" using assms(1) by (simp add: gl_inv_def)
  obtain w' where w': "af_close ap (g_world g) = Inr w'" "af_inv pre w'"
    using af_close_ok [OF w assms(2)] by blast
  moreover have "heap_evolves (g_world g) w'"
    using af_step_evolves [OF w, of "AClose ap" w'] w'(1) assms(2) by simp
  ultimately show ?thesis using on_pipes_ok [OF assms(1)] by blast
qed

section \<open>Callbacks\<close>

lemma processIncomingMessage_ok:
  assumes "gl_inv pre g" "g_tech g tp = Some t"
  shows "\<exists>g'. processIncomingMessage J tmp tp s m g = Inr g' \<and> gl_inv pre g'"
proof -
  have "\<exists>g'. play_audio J tmp tp s d g = Inr g' \<and> gl_inv pre g'" for d
  proof -
    have "gl_inv pre (set_tech tp (t\<lparr>t_playout := l\<rparr>) (g\<lparr>g_playCount := n, g_files := fs\<rparr>))" for l n fs
      using assms by (intro gl_inv_set_tech [of _ _ _ t]) simp_all
    then show ?thesis using assms
      by (auto simp: play_audio_def get_tech_def Let_def split: prod.splits option.splits)
  qed
  then show ?thesis using assms(1)
    by (auto simp: processIncomingMessage_def Let_def split: prod.splits option.splits)
qed

lemma eventCallback_ok:
  assumes g: "gl_inv pre g" and n: "note_ok (ap, n)"
  shows "\<exists>g'. eventCallback J tmp n g = Inr g' \<and> gl_inv pre g'"
proof -
  obtain s bugname event message where e: "n = (s, bugname, event, message)" by (cases n) auto
  show ?thesis
  proof (cases "g_sessions g s \<and> g_private g s bugname \<noteq> None")
    case False
    then show ?thesis using g e by (auto simp: eventCallback_def)
  next
    case True
    then obtain bug where bug: "g_private g s bugname = Some bug" by auto
    then obtain s' tp t where t: "g_bugs g bug = Some (s', tp)" "g_tech g tp = Some t"
      using gl_inv_private [OF g] gl_inv_tech [OF g] by metis
    have meta: "\<exists>g'. on_pipes (bufferForSending (t_initialMetadata t) aq) (send_event s EVENT_CONNECT_SUCCESS None g)
        = Inr g' \<and> gl_inv pre g'" if aq: "t_pAudioPipe t = Some aq" for aq
    proof -
      obtain p where "heap (g_world g) aq = Some p" using gl_inv_pipe [OF g t(2) aq] by blast
      then show ?thesis using buffer_ok [of pre "send_event s EVENT_CONNECT_SUCCESS None g" aq p] g
        by (auto simp: send_event_def)
    qed
    show ?thesis using True bug t g n meta processIncomingMessage_ok [OF g t(2)]
      by (cases event) (auto simp: e eventCallback_def bug_user_data_def get_tech_def note_ok_def Let_def
          split: option.splits)
  qed
qed

lemma run_callbacks_ok:
  "gl_inv pre g \<Longrightarrow> list_all note_ok ns \<Longrightarrow> \<exists>g'. run_callbacks J tmp ns g = Inr g' \<and> gl_inv pre g'"
proof (induction ns arbitrary: g)
  case (Cons n ns)
  obtain ap m where n: "n = (ap, m)" by (cases n)
  obtain g1 where "eventCallback J tmp m g = Inr g1" "gl_inv pre g1"
    using eventCallback_ok [OF Cons.prems(1), of ap m] Cons.prems(2) n by auto
  then show ?case using Cons.IH [of g1] Cons.prems(2) n by auto
qed simp

lemma with_callbacks_ok:
  assumes "gl_inv pre g" "f (g_world g) = Inr w" "af_inv pre w" "heap_evolves (g_world g) w"
    "notes_grow (g_world g) w"
  shows "\<exists>g'. with_callbacks J tmp f g = Inr g' \<and> gl_inv pre g'"
proof -
  obtain ns where "notifications w = notifications (g_world g) @ ns" "list_all note_ok ns"
    using assms(5) by (auto simp: notes_grow_def)
  then show ?thesis using run_callbacks_ok [OF gl_inv_world [OF assms(1,3,4)]] assms(2)
    by (simp add: with_callbacks_def on_pipes_def)
qed


section \<open>Tearing a session down\<close>

lemma gl_inv_unprivate:
  "gl_inv pre g \<Longrightarrow> gl_inv pre (g\<lparr>g_private := (g_private g)(s := (g_private g s)(n := None))\<rparr>)"
  by (auto simp: gl_inv_def)

lemma reaper_ok:
  assumes g: "gl_inv pre g" and t: "g_tech g tp = Some t" "t_pAudioPipe t = Some ap"
  shows "gl_inv pre (reaper tp ap u g)"
proof -
  have "owners pre (heap (g_world g)) ((gl_view g)(tp := Some (None, t_channels u))) (map fst (g_reapers g) @ [ap])
      (g_activePipes g)"
    by (rule owners_reap [OF gl_inv_owners [OF g] gl_view_pipe [OF t]])
  moreover have "gl_view (reaper tp ap u g) = (gl_view g)(tp := Some (None, t_channels u))"
    by (simp add: reaper_def gl_view_set_tech)
  ultimately have "owners pre (heap (g_world (reaper tp ap u g))) (gl_view (reaper tp ap u g))
      (map fst (g_reapers (reaper tp ap u g))) (g_activePipes (reaper tp ap u g))"
    by (simp add: reaper_def set_tech_def)
  then show ?thesis using g unfolding gl_inv_def by (simp add: reaper_def set_tech_def)
qed

lemma destroy_none_ok:
  assumes "gl_inv pre g" "g_tech g tp = Some t" "t_pAudioPipe t = None"
  shows "\<exists>g'. destroy_tech_pvt tp g = Inr g' \<and> gl_inv pre g' \<and> g_bugs g' = g_bugs g"
  using assms gl_inv_set_tech [OF assms(1,2), of "t\<lparr>t_pAudioPipe := None, t_resampler := False\<rparr>"]
  by (simp add: destroy_tech_pvt_def get_tech_def set_tech_def)

lemma cleanup_locked_ok:
  assumes g: "gl_inv pre g" and s: "seen_ok seen g"
  shows "\<exists>r g'. fork_session_cleanup_locked s n text seen g = Inr (r, g') \<and> gl_inv pre g' \<and>
    g_bugs g' = g_bugs g \<and> (case snd r of None \<Rightarrow> True | Some b \<Rightarrow> g_bugs g b \<noteq> None)"
proof (cases seen)
  case None
  then show ?thesis using g by (simp add: fork_session_cleanup_locked_def)
next
  case (Some bug0)
  then obtain s0 tp where b0: "g_bugs g bug0 = Some (s0, tp)" using s by (auto simp: seen_ok_def)
  then obtain t where t: "g_tech g tp = Some t" using gl_inv_tech [OF g] by blast
  show ?thesis
  proof (cases "g_private g s n")
    case None
    then show ?thesis using g Some b0 t
      by (simp add: fork_session_cleanup_locked_def bug_user_data_def get_tech_def)
  next
    case bug: (Some bug)
    let ?u = "t\<lparr>t_playout := []\<rparr>"
    let ?g1 = "set_tech tp ?u (g\<lparr>g_private := (g_private g)(s := (g_private g s)(n := None)),
        g_files := (\<lambda>f. if f \<in> set (t_playout t) then None else g_files g f)\<rparr>)"
    have g1: "gl_inv pre ?g1"
      using gl_inv_set_tech [of pre "g\<lparr>g_private := (g_private g)(s := (g_private g s)(n := None)),
        g_files := (\<lambda>f. if f \<in> set (t_playout t) then None else g_files g f)\<rparr>" tp t ?u]
        gl_inv_unprivate [OF g] t by simp
    have t1: "g_tech ?g1 tp = Some ?u" by (simp add: set_tech_def)
    have bugok: "g_bugs g bug \<noteq> None" using gl_inv_private [OF g bug] by auto
    show ?thesis
    proof (cases "t_pAudioPipe t")
      case None
      have "gl_inv pre (set_tech tp (?u\<lparr>t_pAudioPipe := None, t_resampler := False\<rparr>) ?g1)"
        using gl_inv_set_tech [OF g1 t1] None by simp
      then show ?thesis using Some b0 t bug None bugok
        by (simp add: fork_session_cleanup_locked_def bug_user_data_def get_tech_def destroy_tech_pvt_def
            set_tech_def)
    next
      case (Some ap)
      obtain p where p: "heap (g_world ?g1) ap = Some p"
        using gl_inv_pipe [OF g t Some] by (auto simp: set_tech_def)
      obtain g2 where g2: "(case text of None \<Rightarrow> Inr ?g1 | Some x \<Rightarrow> on_pipes (bufferForSending x ap) ?g1) = Inr g2"
        "gl_inv pre g2" "g2 = ?g1\<lparr>g_world := g_world g2\<rparr>"
        using buffer_ok [OF g1 p] g1 by (cases "text") force+
      have t2: "g_tech g2 tp = Some ?u" by (subst g2(3)) (simp add: set_tech_def)
      have b2: "g_bugs g2 = g_bugs g" by (subst g2(3)) (simp add: set_tech_def)
      have g3: "gl_inv pre (reaper tp ap ?u g2)" using reaper_ok [OF g2(2) t2] Some by simp
      have t3: "g_tech (reaper tp ap ?u g2) tp = Some (?u\<lparr>t_pAudioPipe := None\<rparr>)"
        by (simp add: reaper_def set_tech_def)
      obtain g4 where g4: "destroy_tech_pvt tp (reaper tp ap ?u g2) = Inr g4" "gl_inv pre g4"
        "g_bugs g4 = g_bugs (reaper tp ap ?u g2)"
        using destroy_none_ok [OF g3 t3] by auto
      have "fork_session_cleanup_locked s n text seen g = Inr ((SWITCH_STATUS_SUCCESS, Some bug), g4)"
        using \<open>seen = Some bug0\<close> b0 t bug Some g2(1) g4(1)
        by (simp add: fork_session_cleanup_locked_def bug_user_data_def get_tech_def cong: option.case_cong)
      then show ?thesis using g4 b2 bugok by (simp add: reaper_def set_tech_def)
    qed
  qed
qed

lemma capture_close_ok:
  assumes g: "gl_inv pre g" and b: "g_bugs g bug \<noteq> None"
  shows "\<exists>g'. capture_close bug g = Inr g' \<and> gl_inv pre g'"
proof -
  obtain s tp where b: "g_bugs g bug = Some (s, tp)" using b by auto
  obtain t where t: "g_tech g tp = Some t" using gl_inv_tech [OF g b] by blast
  have "seen_ok (g_private g s (t_bugname t)) g"
    using gl_inv_private [OF g] by (auto simp: seen_ok_def split: option.splits)
  then show ?thesis using cleanup_locked_ok [OF g, of "g_private g s (t_bugname t)" s "t_bugname t" None] b t
    by (auto simp: capture_close_def get_tech_def)
qed

lemma fork_session_cleanup_ok:
  assumes "gl_inv pre g" "seen_ok seen g"
  shows "\<exists>r g'. fork_session_cleanup s n text seen closing g = Inr (r, g') \<and> gl_inv pre g'"
proof -
  obtain r g1 where 1: "fork_session_cleanup_locked s n text seen g = Inr (r, g1)" "gl_inv pre g1"
    "g_bugs g1 = g_bugs g" "case snd r of None \<Rightarrow> True | Some b \<Rightarrow> g_bugs g b \<noteq> None"
    using cleanup_locked_ok [OF assms] by blast
  then show ?thesis using capture_close_ok [OF 1(2)]
    by (cases r; cases "snd r"; cases closing) (fastforce simp: fork_session_cleanup_def)+
qed

section \<open>Requests\<close>

lemma with_session_ok:
  assumes "gl_inv pre g" "seen_ok seen g"
    and "\<And>tp t. g_tech g tp = Some t \<Longrightarrow> \<exists>g'. f tp t g = Inr g' \<and> gl_inv pre g'"
  shows "\<exists>r g'. with_session s n seen f g = Inr (r, g') \<and> gl_inv pre g'"
proof (cases seen)
  case (Some bug)
  then obtain s0 tp where b: "g_bugs g bug = Some (s0, tp)" using assms(2) by (auto simp: seen_ok_def)
  obtain t where t: "g_tech g tp = Some t" using gl_inv_tech [OF assms(1) b] by blast
  then show ?thesis using Some b assms(1) assms(3) [OF t]
    by (auto simp: with_session_def bug_user_data_def get_tech_def)
qed (use assms(1) in \<open>simp add: with_session_def\<close>)

lemma send_text_ok:
  assumes g: "gl_inv pre g" and s: "seen_ok seen g"
  shows "\<exists>r g'. fork_session_send_text s n text seen g = Inr (r, g') \<and> gl_inv pre g'"
  unfolding fork_session_send_text_def
proof (rule with_session_ok [OF g s])
  fix tp t assume t: "g_tech g tp = Some t"
  show "\<exists>g'. (case (t_pAudioPipe t, text) of (Some ap, Some x) \<Rightarrow> on_pipes (bufferForSending x ap) g
      | _ \<Rightarrow> Inr g) = Inr g' \<and> gl_inv pre g'"
    using gl_inv_pipe [OF g t] buffer_ok [OF g] g by (fastforce split: option.splits)
qed

lemma pauseresume_ok:
  assumes g: "gl_inv pre g" and s: "seen_ok seen g"
  shows "\<exists>r g'. fork_session_pauseresume s n pause seen g = Inr (r, g') \<and> gl_inv pre g'"
  unfolding fork_session_pauseresume_def
  by (rule with_session_ok [OF g s]) (use gl_inv_set_tech [OF g] in fastforce)

lemma graceful_shutdown_ok:
  assumes g: "gl_inv pre g" and s: "seen_ok seen g"
  shows "\<exists>r g'. fork_session_graceful_shutdown s n seen g = Inr (r, g') \<and> gl_inv pre g'"
  unfolding fork_session_graceful_shutdown_def
proof (rule with_session_ok [OF g s])
  fix tp t assume t: "g_tech g tp = Some t"
  let ?g = "set_tech tp (t\<lparr>t_graceful_shutdown := True\<rparr>) g"
  have g': "gl_inv pre ?g" using gl_inv_set_tech [OF g t] by simp
  have "\<exists>p. heap (g_world ?g) ap = Some p" if "t_pAudioPipe t = Some ap" for ap
    using gl_inv_pipe [OF g t that] by (auto simp: set_tech_def)
  then show "\<exists>g'. (let g1 = ?g in case t_pAudioPipe t of
      Some ap \<Rightarrow> on_pipes (af_do_graceful_shutdown ap) g1 | None \<Rightarrow> Inr g1) = Inr g' \<and> gl_inv pre g'"
    using graceful_ok [OF g'] g' by (cases "t_pAudioPipe t") (auto simp: Let_def)
qed


section \<open>Deleting pipes\<close>

lemma gl_inv_delete:
  assumes g: "gl_inv pre g" and p: "heap (g_world g) ap = Some p" "\<not> attached (m_state p)"
    and u: "\<And>tp t. g_tech g tp = Some t \<Longrightarrow> t_pAudioPipe t \<noteq> Some ap"
    and r: "r = filter (\<lambda>(a, c). a \<noteq> ap) (g_reapers g)"
  shows "\<exists>w. destroy_pipe ap (g_world g) = Inr w \<and>
    gl_inv pre (g\<lparr>g_world := w, g_reapers := r, g_activePipes := g_activePipes g - 1\<rparr>)"
proof -
  have i: "af_inv pre (g_world g)" using g by (simp add: gl_inv_def)
  obtain w where w: "destroy_pipe ap (g_world g) = Inr w" "af_inv pre w"
    "heap w = (heap (g_world g))(ap := None)"
    using af.destroy_pipe_ok [OF i p] by blast
  have "owners pre ((heap (g_world g))(ap := None)) (gl_view g)
      (filter (\<lambda>a. a \<noteq> ap) (map fst (g_reapers g))) (g_activePipes g - 1)"
    by (rule owners_delete [OF gl_inv_owners [OF g]]) (use p(1) u in \<open>auto simp: gl_view_def\<close>)
  moreover have "filter (\<lambda>a. a \<noteq> ap) (map fst l) = map fst (filter (\<lambda>(a, c). a \<noteq> ap) l)"
    for l :: "(ptr \<times> bool) list" by (induction l) auto
  ultimately have "gl_inv pre (g\<lparr>g_world := w, g_reapers := r, g_activePipes := g_activePipes g - 1\<rparr>)"
    using g w(2,3) r unfolding gl_inv_def by (simp add:)
  with w(1) show ?thesis by blast
qed

lemma destroy_owned_ok:
  assumes g: "gl_inv pre g" and t: "g_tech g tp = Some t" "t_pAudioPipe t = Some ap"
    and p: "heap (g_world g) ap = Some p" "\<not> attached (m_state p)"
  shows "\<exists>w. destroy_tech_pvt tp g = Inr (set_tech tp (t\<lparr>t_pAudioPipe := None, t_resampler := False\<rparr>)
      (g\<lparr>g_world := w\<rparr>)) \<and>
    gl_inv pre (set_tech tp (t\<lparr>t_pAudioPipe := None, t_resampler := False\<rparr>)
      (g\<lparr>g_world := w, g_activePipes := g_activePipes g - 1\<rparr>))"
proof -
  let ?u = "t\<lparr>t_pAudioPipe := None, t_resampler := False\<rparr>"
  have i: "af_inv pre (g_world g)" using g by (simp add: gl_inv_def)
  obtain w where w: "destroy_pipe ap (g_world g) = Inr w" "af_inv pre w"
    "heap w = (heap (g_world g))(ap := None)"
    using af.destroy_pipe_ok [OF i p] by blast
  have o: "owners pre ((heap (g_world g))(ap := None)) ((gl_view g)(tp := Some (None, t_channels t)))
      (map fst (g_reapers g)) (g_activePipes g - 1)"
    by (rule owners_delete_own [OF gl_inv_owners [OF g] gl_view_pipe [OF t]])
  let ?g = "set_tech tp ?u (g\<lparr>g_world := w, g_activePipes := g_activePipes g - 1\<rparr>)"
  have "gl_view ?g = (gl_view g)(tp := Some (None, t_channels t))"
    by (simp add: gl_view_set_tech)
  then have "gl_inv pre ?g" using g w(2,3) o unfolding gl_inv_def by (simp add: set_tech_def)
  then show ?thesis using w(1) t by (auto simp: destroy_tech_pvt_def get_tech_def on_pipes_def)
qed

lemma reaper_close_ok:
  assumes g: "gl_inv pre g" and r: "(ap, False) \<in> set (g_reapers g)"
  shows "\<exists>g'. reaper_close ap g = Inr g' \<and> gl_inv pre g'"
proof -
  let ?g = "g\<lparr>g_reapers := map (\<lambda>(a, c). if a = ap then (a, True) else (a, c)) (g_reapers g)\<rparr>"
  have "map fst (map (\<lambda>(a, c). if a = ap then (a, True) else (a, c)) l) = map fst l" for l :: "(ptr \<times> bool) list"
    by (induction l) auto
  then have "gl_inv pre ?g" using g by (simp add: gl_inv_def del: map_map)
  moreover obtain p where "heap (g_world g) ap = Some p" using gl_inv_reaper [OF g r] by blast
  ultimately show ?thesis using close_ok [of pre ?g ap p] by (auto simp: reaper_close_def)
qed

lemma reaper_finish_ok:
  assumes g: "gl_inv pre g" and r: "(ap, c) \<in> set (g_reapers g)"
    and p: "heap (g_world g) ap = Some p" "waitForClose_returns p"
  shows "\<exists>g'. reaper_finish ap g = Inr g' \<and> gl_inv pre g'"
proof -
  have "\<not> attached (m_state p)"
    using over_unattached [of pre "g_world g" ap p] g p by (simp add: gl_inv_def waitForClose_returns_def)
  moreover have "ap \<in> set (map fst (g_reapers g))" using r by force
  then have "t_pAudioPipe t \<noteq> Some ap" if "g_tech g tp = Some t" for tp t
    using ownersD(5) [OF gl_inv_owners [OF g] gl_view_pipe [OF that], of ap] by auto
  ultimately obtain w where w: "destroy_pipe ap (g_world g) = Inr w"
    "gl_inv pre (g\<lparr>g_world := w, g_reapers := filter (\<lambda>(a, c). a \<noteq> ap) (g_reapers g),
       g_activePipes := g_activePipes g - 1\<rparr>)"
    using gl_inv_delete [OF g p(1) _ _ refl] by blast
  have "reaper_finish ap g = Inr (g\<lparr>g_world := w, g_reapers := filter (\<lambda>(a, c). a \<noteq> ap) (g_reapers g),
      g_activePipes := g_activePipes g - 1\<rparr>)"
    using w(1) by (simp add: reaper_finish_def on_pipes_def)
  then show ?thesis using w(2) by blast
qed


section \<open>Starting a capture\<close>

lemma new_session_ok:
  assumes g: "gl_inv pre g" and f: "g_tech g tp = None" "heap (g_world g) ap = None"
    and t: "t_pAudioPipe t = Some ap" "0 < t_channels t"
      "pre + binaryMinSpace p * t_channels t \<le> m_audio_buffer_max_len p"
    and p: "pipe_ok pre p" "af_extra p" "m_state p = LWS_CLIENT_IDLE"
  shows "gl_inv pre (set_tech tp t (g\<lparr>g_world := set_pipe ap p (g_world g), g_activePipes := g_activePipes g + 1\<rparr>))"
    (is "gl_inv pre ?g")
proof -
  have i: "af_inv pre (g_world g)" using g by (simp add: gl_inv_def)
  have "owners pre ((heap (g_world g))(ap := Some p)) ((gl_view g)(tp := Some (Some ap, t_channels t)))
      (map fst (g_reapers g)) (g_activePipes g + 1)"
    by (rule owners_new [OF gl_inv_owners [OF g] f(2)]) (use f(1) t in \<open>simp_all add: gl_view_def roomy_def\<close>)
  moreover have "gl_view ?g = (gl_view g)(tp := Some (Some ap, t_channels t))"
    using t(1) by (simp add: gl_view_set_tech)
  moreover have "af_inv pre (g_world ?g)" using af.new_pipe_ok [OF i f(2) p] by (simp add: set_tech_def)
  ultimately show ?thesis using g unfolding gl_inv_def by (simp add: set_tech_def set_pipe_def)
qed

lemma connect_ok:
  assumes g: "gl_inv pre g" and t: "g_tech g tp = Some t" "t_pAudioPipe t = Some ap"
    and p: "heap (g_world g) ap = Some p" "m_state p = LWS_CLIENT_IDLE"
  shows "\<exists>g'. fork_session_connect J tmp tp g = Inr g' \<and> gl_inv pre g'"
proof -
  have w: "af_inv pre (g_world g)" using g by (simp add: gl_inv_def)
  obtain w' where w': "addPendingConnect af_notify ap (g_world g) = Inr w'" "af_inv pre w'"
    using af_step_ok [OF w, of "AConnect ap"] p by auto
  moreover have "heap_evolves (g_world g) w'" "notes_grow (g_world g) w'"
    using af_step_evolves [OF w, of "AConnect ap" w'] af_exec_grow [of pre "AConnect ap" "g_world g" w'] w' p
    by simp_all
  ultimately show ?thesis using with_callbacks_ok [OF g] t by (simp add: fork_session_connect_def get_tech_def)
qed

lemma start_capture_ok:
  assumes g: "gl_inv pre g" and e: "gl_enabled pre secs (GStart e a rate ready added) g"
  shows "\<exists>r g'. start_capture J tmp pre secs e a rate ready added g = Inr (r, g') \<and> gl_inv pre g'"
proof (cases "g_private g (e_uuid e) (f_bugname a) = None \<and> ready \<and> e_alloc_ok e")
  case False
  then show ?thesis using g
    by (auto simp: start_capture_def start_capture_begin_def fork_session_init_def)
next
  case True
  have en: "g_tech g (e_tech e) = None" "heap (g_world g) (e_pipe e) = None" "0 < f_channels a"
    "\<And>bug. added = Some bug \<Longrightarrow> g_bugs g bug = None"
    "e_bytes_per_packet e * f_channels a + pre \<le> length (e_block e)"
    "fork_buflen pre (f_sampling a) (int (f_channels a)) secs = Inr (length (e_block e))"
    using e by (auto split: option.splits)
  obtain status g1 where d: "fork_data_init pre secs e a rate g = Inr (status, g1)"
    using en(6) by (simp add: fork_data_init_def Let_def)
  let ?P = "AudioPipe_new pre (fork_pipe_args e a (length (e_block e)))"
  obtain t where t: "g1 = set_tech (e_tech e) t (g\<lparr>g_idxCallCount := g_idxCallCount g + 1,
      g_world := set_pipe (e_pipe e) ?P (g_world g)\<rparr>)" "t_pAudioPipe t = Some (e_pipe e)"
      "t_channels t = f_channels a"
    using d en(6) by (auto simp: fork_data_init_def Let_def)
  have P: "pipe_ok pre ?P" "af_extra ?P" "m_state ?P = LWS_CLIENT_IDLE"
    using AudioPipe_new_ok [of "fork_pipe_args e a (length (e_block e))" pre] en(5)
    by (simp_all add: fork_pipe_args_def)
  have fits: "pre + binaryMinSpace ?P * t_channels t \<le> m_audio_buffer_max_len ?P"
    using en(5) t(3) by (simp add: AudioPipe_new_def pipe_init_def pipe.defs binaryMinSpace_def fork_pipe_args_def)
  let ?G = "g1\<lparr>g_activePipes := g_activePipes g1 + 1\<rparr>"
  have "?G = (set_tech (e_tech e) t (g\<lparr>g_world := set_pipe (e_pipe e) ?P (g_world g),
      g_activePipes := g_activePipes g + 1\<rparr>))\<lparr>g_idxCallCount := g_idxCallCount g + 1\<rparr>"
    by (simp add: t(1) set_tech_def)
  then have G: "gl_inv pre ?G"
    using new_session_ok [OF g en(1,2) t(2) _ fits P] en(3) t(3) by (simp only: gl_inv_updates)
  have tG: "g_tech ?G (e_tech e) = Some t" "heap (g_world ?G) (e_pipe e) = Some ?P"
    by (simp_all add: t(1) set_tech_def set_pipe_def)
  have idle: "\<not> attached (m_state ?P)" using P(3) by simp
  let ?u = "t\<lparr>t_pAudioPipe := None, t_resampler := False\<rparr>"
  obtain w where w: "destroy_tech_pvt (e_tech e) ?G = Inr (set_tech (e_tech e) ?u (?G\<lparr>g_world := w\<rparr>))"
    "gl_inv pre (set_tech (e_tech e) ?u (?G\<lparr>g_world := w, g_activePipes := g_activePipes ?G - 1\<rparr>))"
    using destroy_owned_ok [OF G tG(1) t(2) tG(2) idle] by blast
  have w1: "destroy_tech_pvt (e_tech e) g1 = Inr (set_tech (e_tech e) ?u (g1\<lparr>g_world := w\<rparr>))"
    using w(1) t(2) by (auto simp: t(1) destroy_tech_pvt_def get_tech_def set_tech_def on_pipes_def andthen_Inr_iff
        dest!: arg_cong [where f = g_world])
  have gone: "gl_inv pre (set_tech (e_tech e) ?u (g1\<lparr>g_world := w\<rparr>))"
    using w(2) by (simp add: t(1) set_tech_def)
  show ?thesis
  proof (cases "status = SWITCH_STATUS_SUCCESS")
    case False
    then show ?thesis using True d w1 gone
      by (auto simp: start_capture_def start_capture_begin_def fork_session_init_def)
  next
    case ok: True
    show ?thesis
    proof (cases added)
      case None
      then show ?thesis using True d ok w
        by (auto simp: start_capture_def start_capture_begin_def fork_session_init_def
            fork_session_cleanup_unattached_def set_tech_def)
    next
      case (Some bug)
      let ?H = "start_capture_set_private (e_uuid e) (f_bugname a) bug
        (?G\<lparr>g_bugs := (g_bugs ?G)(bug := Some (e_uuid e, e_tech e))\<rparr>)"
      have "gl_inv pre ?H" using G tG(1) en(4) [OF Some]
        unfolding gl_inv_def start_capture_set_private_def by (simp split: if_splits)
      moreover have "g_tech ?H (e_tech e) = Some t" "heap (g_world ?H) (e_pipe e) = Some ?P"
        using tG by (simp_all add: start_capture_set_private_def)
      ultimately obtain g' where "fork_session_connect J tmp (e_tech e) ?H = Inr g'" "gl_inv pre g'"
        using connect_ok t(2) P(3) by blast
      then show ?thesis using True d ok Some
        by (simp add: start_capture_def start_capture_begin_def fork_session_init_def)
    qed
  qed
qed


section \<open>Frames, library events, and every step\<close>

lemma fork_frame_ok:
  assumes g: "gl_inv pre g" and e: "gl_enabled pre secs (GFrame bug locked f frames) g"
  shows "\<exists>g'. fork_frame pre bug locked f frames g = Inr g' \<and> gl_inv pre g'"
proof -
  obtain s tp where b: "g_bugs g bug = Some (s, tp)" using e by auto
  obtain t where t: "g_tech g tp = Some t" using gl_inv_tech [OF g b] by blast
  note base = bug_user_data_def get_tech_def fork_frame_def b t
  show ?thesis
  proof (cases "t_audio_paused t \<or> t_graceful_shutdown t \<or> \<not> locked \<or> t_pAudioPipe t = None")
    case True
    then show ?thesis using g by (auto simp: base)
  next
    case False
    then obtain ap where ap: "t_pAudioPipe t = Some ap" by auto
    obtain p where p: "heap (g_world g) ap = Some p" "0 < t_channels t"
      "pre + binaryMinSpace p * t_channels t \<le> m_audio_buffer_max_len p"
      using gl_inv_pipe [OF g t ap] by blast
    show ?thesis
    proof (cases "m_state p = LWS_CLIENT_CONNECTED")
      case False
      then show ?thesis using ap p(1) g by (auto simp: base deref_def)
    next
      case True
      have w: "af_inv pre (g_world g)" using g by (simp add: gl_inv_def)
      have "m_vhd p \<noteq> None" using world_okD(1) [OF w p(1)] True by (simp add: pipe_ok_def)
      let ?r = "if t_resampler t then Some f else None"
      have en: "af_enabled pre (AMedia ap (t_channels t) ?r frames (t_buffer_overrun_notified t)) (g_world g)"
        using e b t ap p \<open>m_vhd p \<noteq> None\<close> by (auto simp: bug_pipe_def media_enabled_def)
      obtain nt n w' where m: "af_media pre (t_channels t) ?r frames (t_buffer_overrun_notified t) ap (g_world g)
          = Inr ((nt, n), w')" "af_inv pre w'"
        using af_media_ok [OF w en] by auto
      have "heap_evolves (g_world g) w'" using af_step_evolves [OF w en, of w'] m(1) by simp
      from gl_inv_world [OF g m(2) this] have g1: "gl_inv pre (g\<lparr>g_world := w'\<rparr>)" .
      have "gl_inv pre ((set_tech tp (t\<lparr>t_buffer_overrun_notified := nt\<rparr>) (g\<lparr>g_world := w'\<rparr>))
          \<lparr>g_events := ev\<rparr>)" for ev
        using gl_inv_set_tech [OF g1, of tp t "t\<lparr>t_buffer_overrun_notified := nt\<rparr>"] t by simp
      then have "gl_inv pre ((set_tech tp (t\<lparr>t_buffer_overrun_notified := nt\<rparr>) g)
          \<lparr>g_world := w', g_events := ev\<rparr>)" for ev
        by (rule gl_inv_same [THEN iffD1, rotated 6]) (simp_all add: set_tech_def)
      then show ?thesis using False True ap p(1) m(1) by (simp add: base deref_def)
    qed
  qed
qed

lemma library_ok:
  assumes g: "gl_inv pre g" and e: "library_action a" "af_enabled pre a (g_world g)"
  shows "\<exists>g'. with_callbacks J tmp (af_exec pre a) g = Inr g' \<and> gl_inv pre g'"
proof -
  have w: "af_inv pre (g_world g)" using g by (simp add: gl_inv_def)
  obtain w' where w': "af_exec pre a (g_world g) = Inr w'" "af_inv pre w'" using af_step_ok [OF w e(2)] by blast
  have "a \<noteq> ADelete ap" "a \<noteq> ANew ap args" for ap args using e(1) by auto
  from af_step_evolves [OF w e(2) w'(1) this] af_exec_grow [OF w'(1)]
  show ?thesis by (intro with_callbacks_ok [where f = "af_exec pre a", OF g w'(1,2)]) simp_all
qed

lemma gl_step_ok:
  assumes g: "gl_inv pre g" and e: "gl_enabled pre secs a g"
  shows "\<exists>g'. gl_exec J tmp pre secs a g = Inr g' \<and> gl_inv pre g'"
proof (cases a)
  case (GStart en fa rate ready added)
  then show ?thesis using start_capture_ok [OF g, of secs en fa rate ready added J tmp] e by auto
next
  case (GCleanup s n t seen closing)
  then show ?thesis using fork_session_cleanup_ok [OF g, of seen s n t closing] e by auto
next
  case (GSendText s n t seen)
  then show ?thesis using send_text_ok [OF g, of seen s n t] e by auto
next
  case (GPauseResume s n b seen)
  then show ?thesis using pauseresume_ok [OF g, of seen s n b] e by auto
next
  case (GGraceful s n seen)
  then show ?thesis using graceful_shutdown_ok [OF g, of seen s n] e by auto
next
  case (GFrame bug locked f frames)
  then show ?thesis using fork_frame_ok [OF g] e by (simp only: gl_exec.simps)
next
  case (GBugClosed bug)
  then show ?thesis using capture_close_ok [OF g, of bug] e by simp
next
  case (GReaperClose ap)
  then show ?thesis using reaper_close_ok [OF g] e by simp
next
  case (GReaperFinish ap)
  then have r: "(ap, True) \<in> set (g_reapers g)" using e by simp
  then obtain p where "heap (g_world g) ap = Some p" using gl_inv_reaper [OF g] by blast
  then show ?thesis using reaper_finish_ok [OF g r] e GReaperFinish by simp
next
  case (GLibrary b)
  then show ?thesis using library_ok [OF g, of b J tmp] e by simp
next
  case (GHangup s)
  then show ?thesis using g by simp
qed

lemma gl_start_inv: "gl_start g \<Longrightarrow> gl_inv pre g"
proof -
  assume a: "gl_start g"
  then have "heap (g_world g) = Map.empty" by (auto simp: gl_start_def af_start_def)
  then show ?thesis using a af_start_inv [of "g_world g" pre]
    by (simp add: gl_start_def gl_inv_def gl_view_def [abs_def] owners_empty)
qed

lemma gl_reach_inv: "gl_reach J tmp pre secs g \<Longrightarrow> gl_inv pre g"
proof (induction rule: gl_reach.induct)
  case (step g a g')
  then show ?case using gl_step_ok [OF step.IH step.hyps(2), of J tmp] by simp
qed (rule gl_start_inv)

end
