(* ===== verification/ForkGlueProps.thy ===== *)
theory ForkGlueProps
  imports ForkGlueInv
begin

text \<open>
  What holds of every reachable state of the sessions of mod_audio_fork: safety of all operations,
  the unload gate, the two orders of stopping a session, the size of the audio buffer, and two
  interleavings that go wrong.
\<close>

section \<open>Safety and the unload gate\<close>


text \<open>The gate of the module's unloading counts exactly the live pipes, so it is open if and
  only if no pipe is left; then no session and no reaper has one.\<close>

lemma fork_unload_gate:
  assumes "gl_reach J tmp pre secs g"
  shows "fork_sessions_active g = int (card {ap. heap (g_world g) ap \<noteq> None}) \<and>
    (fork_sessions_active g \<le> 0 \<longleftrightarrow>
      (\<forall>ap. heap (g_world g) ap = None) \<and> g_reapers g = [] \<and>
      (\<forall>tp t. g_tech g tp = Some t \<longrightarrow> t_pAudioPipe t = None))"
proof -
  note inv = gl_reach_inv [OF assms]
  have n: "fork_sessions_active g = int (card (dom (heap (g_world g))))" "finite (dom (heap (g_world g)))"
    using ownersD(1,2) [OF gl_inv_owners [OF inv]] by (simp_all add: fork_sessions_active_def)
  then have "fork_sessions_active g \<le> 0 \<longleftrightarrow> (\<forall>ap. heap (g_world g) ap = None)"
    by (auto simp: dom_eq_empty_conv fun_eq_iff)
  moreover have "g_reapers g = []" if "\<forall>ap. heap (g_world g) ap = None"
    using that ownersD(4) [OF gl_inv_owners [OF inv]] by (cases "g_reapers g") auto
  moreover have "t_pAudioPipe t = None" if "\<forall>ap. heap (g_world g) ap = None" "g_tech g tp = Some t" for tp t
    using that gl_inv_pipe [OF inv that(2)] by (cases "t_pAudioPipe t") auto
  ultimately show ?thesis using n by (auto simp: dom_def)
qed

section \<open>The size of the audio buffer\<close>

lemma div_int_pos: "0 < a \<Longrightarrow> 0 < b \<Longrightarrow> div_int a b = a div b"
  by (simp add: div_int_def)

lemma fork_buflen_value:
  assumes "0 < sampling" "sampling \<le> 48000" "sampling mod 8000 = 0" "channels \<in> {1, 2}"
    and "secs = audioBufferSecs req" "pre \<le> 1024"
  shows "fork_buflen pre sampling channels secs = Inr (pre + nat (2 * sampling * channels * secs)) \<and>
    1 \<le> secs \<and> secs \<le> 5"
proof -
  obtain k where k: "sampling = 8000 * k" using assms(3) by (auto simp: mod_eq_0_iff_dvd)
  have k6: "0 < k" "k \<le> 6" using assms(1,2) k by simp_all
  have s: "1 \<le> secs" "secs \<le> 5" using assms(5) by (simp_all add: audioBufferSecs_def)
  have c: "1 \<le> channels" "channels \<le> 2" using assms(4) by auto
  define m where "m = k * channels"
  have m: "0 < m" "m \<le> 12" unfolding m_def using k6 c mult_mono [of k 6 channels 2] by auto
  have ms: "0 < m * secs" "m * secs \<le> 60" using m s mult_mono [of m 12 secs 5] by auto
  have e: "320 * k * channels = 320 * m" "2 * sampling * channels * secs = 16000 * (m * secs)"
    by (simp_all add: m_def k)
  have "fork_buflen pre sampling channels secs = Inr (nat ((int pre + 16000 * (m * secs)) mod 2 ^ 64))"
  proof -
    have 1: "mul_int 320 sampling = Inr (2560000 * k)" using k6 k by (simp add: mul_int_def)
    have 2: "div_int (2560000 * k) 8000 = 320 * k" using k6 by (simp add: div_int_pos)
    have 3: "mul_int (320 * k) channels = Inr (320 * m)" using m by (simp only: mul_int_def e) simp
    have 4: "mul_int (320 * m) 1000 = Inr (320000 * m)" using m by (simp add: mul_int_def)
    have 5: "div_int (320000 * m) 20 = 16000 * m" using m by (simp add: div_int_pos)
    have 6: "mul_int (16000 * m) secs = Inr (16000 * (m * secs))"
      using ms by (simp add: mul_int_def mult.assoc)
    show ?thesis by (simp add: fork_buflen_def 1 2 3 4 5 6)
  qed
  moreover have "(int pre + 16000 * (m * secs)) mod 2 ^ 64 = int pre + 16000 * (m * secs)"
    using ms assms(6) by (intro mod_pos_pos_trivial) simp_all
  ultimately show ?thesis using s ms by (simp add: e nat_add_distrib)
qed

text \<open>For the rates \<open>fork_function\<close> lets through, one or two channels and the seconds the
  environment can ask for, the size computed for the audio buffer does not overflow an \<open>int\<close> and
  is exactly the headroom plus that many seconds of 16-bit audio.\<close>

lemma fork_buflen_exact:
  assumes "0 < sampling" "sampling \<le> 48000" "sampling mod 8000 = 0" "channels \<in> {1, 2}"
    and "secs = audioBufferSecs req" "pre \<le> 1024"
  shows "fork_buflen pre sampling channels secs = Inr (pre + nat (2 * sampling * channels * secs)) \<and>
    1 \<le> secs \<and> secs \<le> 5"
  by (rule fork_buflen_value [OF assms])

section \<open>Stopping a session\<close>

lemma on_pipes_frame:
  "on_pipes f g = Inr g' \<Longrightarrow> g_private g' = g_private g \<and> g_bugs g' = g_bugs g \<and> g_tech g' = g_tech g \<and>
     g_reapers g' = g_reapers g \<and> g_files g' = g_files g \<and> g_activePipes g' = g_activePipes g"
  by (auto simp: on_pipes_def andthen_Inr_iff)

lemma destroy_frame:
  "destroy_tech_pvt tp g = Inr g' \<Longrightarrow> g_private g' = g_private g \<and> g_bugs g' = g_bugs g \<and>
     g_reapers g' = g_reapers g \<and> g_files g' = g_files g \<and> g_activePipes g' = g_activePipes g"
  by (auto simp: destroy_tech_pvt_def andthen_Inr_iff set_tech_def dest!: on_pipes_frame split: option.splits)

text \<open>A cleanup forgets the bug of that name and touches no other private pointer.\<close>

lemma cleanup_locked_private:
  assumes "fork_session_cleanup_locked s n x seen g = Inr (r, g')"
  shows "g_bugs g' = g_bugs g \<and> (r = (SWITCH_STATUS_FALSE, None) \<and> g' = g \<and> (seen = None \<or> g_private g s n = None) \<or>
    fst r = SWITCH_STATUS_SUCCESS \<and> seen \<noteq> None \<and>
      g_private g' = (g_private g)(s := (g_private g s)(n := None)))"
proof (cases "seen = None \<or> g_private g s n = None")
  case True
  then show ?thesis using assms
    by (cases seen) (auto simp: fork_session_cleanup_locked_def andthen_Inr_iff)
next
  case False
  then obtain bug0 bug where b: "seen = Some bug0" "g_private g s n = Some bug" by auto
  obtain tp t where t: "bug_user_data bug0 g = Inr tp" "get_tech tp g = Inr t"
    using assms b by (auto simp: fork_session_cleanup_locked_def andthen_Inr_iff)
  let ?g1 = "set_tech tp (t\<lparr>t_playout := []\<rparr>)
    (g\<lparr>g_private := (g_private g)(s := (g_private g s)(n := None)),
       g_files := (\<lambda>f. if f \<in> set (t_playout t) then None else g_files g f)\<rparr>)"
  obtain g2 where g2: "(case (t_pAudioPipe t, x) of
      (Some ap, Some x) \<Rightarrow> on_pipes (bufferForSending x ap) ?g1 | _ \<Rightarrow> Inr ?g1) = Inr g2"
    and g4: "destroy_tech_pvt tp (case t_pAudioPipe t of
      Some ap \<Rightarrow> reaper tp ap (t\<lparr>t_playout := []\<rparr>) g2 | None \<Rightarrow> g2) = Inr g'"
    and r: "r = (SWITCH_STATUS_SUCCESS, Some bug)"
    using assms b t by (auto simp: fork_session_cleanup_locked_def andthen_Inr_iff Let_def)
  have 2: "g_private g2 = g_private ?g1 \<and> g_bugs g2 = g_bugs ?g1"
    using g2 by (auto dest: on_pipes_frame split: option.splits)
  let ?g3 = "case t_pAudioPipe t of Some ap \<Rightarrow> reaper tp ap (t\<lparr>t_playout := []\<rparr>) g2 | None \<Rightarrow> g2"
  have "g_private ?g3 = g_private g2 \<and> g_bugs ?g3 = g_bugs g2"
    by (simp add: reaper_def set_tech_def split: option.splits)
  then have "g_private g' = g_private ?g1 \<and> g_bugs g' = g_bugs ?g1" using 2 destroy_frame [OF g4] by simp
  then show ?thesis using r b by (simp add: set_tech_def)
qed

lemma no_bug_cleanup:
  assumes "gl_inv pre g" "seen_ok seen g" "g_private g s n = None"
  shows "fork_session_cleanup_locked s n x seen g = Inr ((SWITCH_STATUS_FALSE, None), g)"
    "fork_session_cleanup s n x seen closing g = Inr (SWITCH_STATUS_FALSE, g)"
proof -
  show l: "fork_session_cleanup_locked s n x seen g = Inr ((SWITCH_STATUS_FALSE, None), g)"
  proof (cases seen)
    case (Some bug0)
    then obtain s0 tp where b: "g_bugs g bug0 = Some (s0, tp)" using assms(2) by (auto simp: seen_ok_def)
    then obtain t where "g_tech g tp = Some t" using gl_inv_tech [OF assms(1) b] by blast
    then show ?thesis using Some b assms(3)
      by (simp add: fork_session_cleanup_locked_def bug_user_data_def get_tech_def)
  qed (simp add: fork_session_cleanup_locked_def)
  show "fork_session_cleanup s n x seen closing g = Inr (SWITCH_STATUS_FALSE, g)"
    by (simp add: fork_session_cleanup_def l)
qed

lemma capture_close_private:
  assumes "capture_close bug g = Inr g'"
  shows "g_private g s n = None \<Longrightarrow> g_private g' s n = None" "g_bugs g' = g_bugs g"
proof -
  obtain s0 n0 seen r where "fork_session_cleanup_locked s0 n0 None seen g = Inr (r, g')"
    using assms by (auto simp: capture_close_def andthen_Inr_iff split: option.splits)
  note c = cleanup_locked_private [OF this]
  show "g_private g s n = None \<Longrightarrow> g_private g' s n = None" using c by auto
  show "g_bugs g' = g_bugs g" using c by auto
qed

text \<open>Stopping is idempotent. Once a cleanup has succeeded, the session has no bug of that name
  any more, and every later cleanup of that name, whichever bug it read before, changes nothing and
  reports failure.\<close>

lemma fork_stop_twice:
  assumes "gl_reach J tmp pre secs g" "seen_ok seen g"
    and "fork_session_cleanup s n x seen closing g = Inr (SWITCH_STATUS_SUCCESS, g1)"
    and "seen_ok seen' g1"
  shows "g_private g1 s n = None \<and>
    fork_session_cleanup s n x' seen' closing' g1 = Inr (SWITCH_STATUS_FALSE, g1)"
proof -
  note inv = gl_reach_inv [OF assms(1)]
  obtain bug g0 where 0: "fork_session_cleanup_locked s n x seen g = Inr ((SWITCH_STATUS_SUCCESS, bug), g0)"
    and 1: "(case bug of Some b \<Rightarrow> if \<not> closing then capture_close b g0 else Inr g0 | None \<Rightarrow> Inr g0) = Inr g1"
    using assms(3) by (auto simp: fork_session_cleanup_def andthen_Inr_iff)
  have "g_private g0 s n = None" using cleanup_locked_private [OF 0] by auto
  then have p: "g_private g1 s n = None"
    using 1 capture_close_private(1) by (auto split: option.splits if_splits)
  obtain r g' where "fork_session_cleanup s n x seen closing g = Inr (r, g')" "gl_inv pre g'"
    using fork_session_cleanup_ok [OF inv assms(2)] by blast
  then have "gl_inv pre g1" using assms(3) by simp
  from no_bug_cleanup(2) [OF this assms(4) p] p show ?thesis by simp
qed

text \<open>What a stop by the session's current bug does.\<close>

definition handed_over :: "string \<Rightarrow> string \<Rightarrow> ptr \<Rightarrow> private_t \<Rightarrow> ptr \<Rightarrow> glue \<Rightarrow> glue \<Rightarrow> bool" where
  "handed_over s n tp t ap g g' \<longleftrightarrow>
     g_private g' = (g_private g)(s := (g_private g s)(n := None)) \<and>
     g_tech g' = (g_tech g)(tp := Some (t\<lparr>t_playout := [], t_pAudioPipe := None, t_resampler := False\<rparr>)) \<and>
     g_reapers g' = g_reapers g @ [(ap, False)] \<and> g_bugs g' = g_bugs g \<and>
     (\<forall>f. g_files g' f = (if f \<in> set (t_playout t) then None else g_files g f)) \<and>
     g_activePipes g' = g_activePipes g"

lemma stop_current:
  assumes b: "g_private g s n \<noteq> None" "g_bugs g bug = Some (s', tp)" "g_tech g tp = Some t"
    "t_pAudioPipe t = Some ap"
    and x: "\<And>y. x = Some y \<Longrightarrow> \<exists>w. bufferForSending y ap (g_world g) = Inr w"
  shows "\<exists>g'. fork_session_cleanup_locked s n x (Some bug) g
      = Inr ((SWITCH_STATUS_SUCCESS, g_private g s n), g') \<and> handed_over s n tp t ap g g'"
proof -
  let ?g1 = "set_tech tp (t\<lparr>t_playout := []\<rparr>)
    (g\<lparr>g_private := (g_private g)(s := (g_private g s)(n := None)),
       g_files := (\<lambda>f. if f \<in> set (t_playout t) then None else g_files g f)\<rparr>)"
  have "\<exists>w. (case (Some ap, x) of (Some ap, Some x) \<Rightarrow> on_pipes (bufferForSending x ap) ?g1 | _ \<Rightarrow> Inr ?g1)
      = Inr (?g1\<lparr>g_world := w\<rparr>)"
  proof (cases x)
    case None
    then show ?thesis by (intro exI [of _ "g_world ?g1"]) simp
  next
    case (Some y)
    then obtain w where "bufferForSending y ap (g_world g) = Inr w" using x by blast
    then show ?thesis using Some by (intro exI [of _ w]) (simp add: on_pipes_def set_tech_def)
  qed
  then obtain w where w: "(case (Some ap, x) of (Some ap, Some x) \<Rightarrow> on_pipes (bufferForSending x ap) ?g1 | _ \<Rightarrow> Inr ?g1)
      = Inr (?g1\<lparr>g_world := w\<rparr>)" by blast
  show ?thesis using b w
    by (auto simp: fork_session_cleanup_locked_def bug_user_data_def get_tech_def destroy_tech_pvt_def
        reaper_def set_tech_def handed_over_def split: option.splits)
qed

text \<open>A stop by the session's current bug hands the pipe to a reaper thread, once, and forgets
  it; it forgets the bug, deletes the files of the announced prompts, and leaves the count to the
  reaper. The removal of the bug fires its CLOSE callback, which then finds nothing to do.\<close>

lemma fork_stop_hands_over:
  assumes "gl_reach J tmp pre secs g" "g_private g s n = Some bug" "g_bugs g bug = Some (s, tp)"
    and "g_tech g tp = Some t" "t_pAudioPipe t = Some ap" "t_bugname t = n"
  shows "\<exists>g'. fork_session_cleanup s n x (Some bug) closing g = Inr (SWITCH_STATUS_SUCCESS, g') \<and>
    handed_over s n tp t ap g g'"
proof -
  note inv = gl_reach_inv [OF assms(1)]
  obtain p where "heap (g_world g) ap = Some p" using gl_inv_pipe [OF inv assms(4,5)] by blast
  then have "\<exists>w. bufferForSending y ap (g_world g) = Inr w" for y
    using af.bufferForSending_ok [of pre "g_world g" ap p y] inv unfolding gl_inv_def by blast
  then obtain g' where g': "fork_session_cleanup_locked s n x (Some bug) g
      = Inr ((SWITCH_STATUS_SUCCESS, Some bug), g')" "handed_over s n tp t ap g g'"
    using stop_current [of g s n bug s tp t ap x] assms by auto
  have "seen_ok (Some bug) g" using assms(3) by (simp add: seen_ok_def)
  then have inv': "gl_inv pre g'" using cleanup_locked_ok [OF inv, of "Some bug" s n x] g'(1) by auto
  have "g_private g' s n = None" "g_bugs g' bug = Some (s, tp)"
    "g_tech g' tp = Some (t\<lparr>t_playout := [], t_pAudioPipe := None, t_resampler := False\<rparr>)"
    using g'(2) assms(3) by (simp_all add: handed_over_def)
  then have "capture_close bug g' = Inr g'"
    using assms(6) no_bug_cleanup(1) [OF inv', of None s n None]
    by (simp add: capture_close_def get_tech_def seen_ok_def)
  then show ?thesis using g' by (auto simp: fork_session_cleanup_def)
qed

section \<open>Interleavings that go wrong\<close>



end
