(* ===== verification/ForkGlueDemo.thy ===== *)
theory ForkGlueDemo
  imports ForkGlueProps ForkDemo
begin

text \<open>
  A concrete run of mod_audio_fork: a session is started, stopped, and started again under the same
  name. The properties of the sessions are instantiated on the states it passes through.
\<close>

definition demo_json :: "string cjson" where
  "demo_json = \<lparr>cJSON_Parse = (\<lambda>s. Some s), cJSON_GetObjectCstr = (\<lambda>_ _. None),
     cJSON_GetObjectItem = (\<lambda>_ _. None), cJSON_Detach = (\<lambda>d _. (None, d)), cJSON_valuestring = (\<lambda>s. Some s),
     cJSON_valueint = (\<lambda>_. 0), cJSON_AddString = (\<lambda>d _ _. d), cJSON_CreateObject = [], cJSON_Print = (\<lambda>s. s)\<rparr>"

definition demo_glue :: glue where
  "demo_glue = \<lparr>g_world = demo_start, g_tech = (\<lambda>_. None), g_bugs = (\<lambda>_. None), g_private = (\<lambda>_ _. None),
     g_sessions = (\<lambda>_. True), g_activePipes = 0, g_reapers = [], g_idxCallCount = 0, g_playCount = 0,
     g_events = [], g_breaks = [], g_files = (\<lambda>_. None)\<rparr>"

definition demo_env :: "ptr \<Rightarrow> init_env" where
  "demo_env k = \<lparr>e_uuid = ''u'', e_username = None, e_password = None, e_bytes_per_packet = 320,
     e_tech = k, e_pipe = k, e_block = replicate 16016 0, e_junk = 0, e_alloc_ok = True,
     e_resampler_ok = True\<rparr>"

definition demo_fork :: fork_args where
  "demo_fork = \<lparr>f_host = ''h'', f_port = 80, f_path = ''/'', f_sslFlags = 0, f_sampling = 8000,
     f_channels = 1, f_bugname = ''b'', f_metadata = None\<rparr>"

abbreviation demo_reach :: "glue \<Rightarrow> bool" where
  "demo_reach \<equiv> gl_reach demo_json ''/tmp'' 16 1"

abbreviation demo_exec :: "gl_action \<Rightarrow> glue \<Rightarrow> ub + glue" where
  "demo_exec \<equiv> gl_exec demo_json ''/tmp'' 16 1"

definition demo_start_1 :: gl_action where
  "demo_start_1 = GStart (demo_env 1) demo_fork 8000 True (Some 11)"
definition demo_start_2 :: gl_action where
  "demo_start_2 = GStart (demo_env 2) demo_fork 8000 True (Some 12)"
definition demo_stop_1 :: gl_action where
  "demo_stop_1 = GCleanup ''u'' ''b'' None (Some 11) False"

definition demo_started :: glue where "demo_started = projr (demo_exec demo_start_1 demo_glue)"
definition demo_stopped :: glue where "demo_stopped = projr (demo_exec demo_stop_1 demo_started)"
definition demo_again :: glue where "demo_again = projr (demo_exec demo_start_2 demo_stopped)"

lemma demo_step:
  assumes "demo_reach g" "gl_enabled 16 1 a g"
  shows "demo_exec a g = Inr (projr (demo_exec a g))" "demo_reach (projr (demo_exec a g))"
proof -
  obtain g' where g': "demo_exec a g = Inr g'" using gl_step_ok [OF gl_reach_inv [OF assms(1)] assms(2)] by blast
  then show "demo_exec a g = Inr (projr (demo_exec a g))" by simp
  show "demo_reach (projr (demo_exec a g))" using gl_reach.step [OF assms g'] g' by simp
qed

lemma demo_buflen: "fork_buflen 16 8000 1 1 = Inr 16016"
  by (simp add: fork_buflen_def mul_int_def div_int_def)

lemma demo_glue_reach: "demo_reach demo_glue"
  by (rule gl_reach.start) (simp add: gl_start_def af_start_def demo_glue_def demo_start_def)

lemmas start_defs = start_capture_def start_capture_begin_def fork_session_init_def fork_data_init_def
  fork_session_connect_def with_callbacks_def on_pipes_def get_tech_def set_tech_def
  start_capture_set_private_def addPendingConnect_def lws_cancel_service_def set_pipe_def

lemma demo_started_facts:
  "g_private demo_started ''u'' ''b'' = Some 11" "g_bugs demo_started = [11 \<mapsto> (''u'', 1)]"
  "\<exists>t. g_tech demo_started = [1 \<mapsto> t] \<and> t_pAudioPipe t = Some 1 \<and> t_bugname t = ''b'' \<and> t_playout t = [] \<and>
     t_channels t = 1"
  "\<exists>p. heap (g_world demo_started) = [1 \<mapsto> p]" "contexts (g_world demo_started) = [Some 7]"
  "numContexts (g_world demo_started) = 1" "notifications (g_world demo_started) = []"
  "g_sessions demo_started = (\<lambda>_. True)"
  by (simp_all add: demo_started_def demo_start_1_def start_defs demo_glue_def demo_env_def demo_fork_def
      demo_buflen demo_start_def upd_eq)

lemma demo_started_reach: "demo_reach demo_started"
  unfolding demo_started_def
  by (rule demo_step(2) [OF demo_glue_reach])
    (simp add: demo_start_1_def demo_glue_def demo_start_def demo_env_def demo_fork_def demo_buflen)

lemma demo_stopped_reach: "demo_reach demo_stopped"
  unfolding demo_stopped_def
  by (rule demo_step(2) [OF demo_started_reach])
    (simp add: demo_stop_1_def seen_ok_def demo_started_facts)

lemma demo_stop_run:
  "\<exists>t g. g_tech demo_started 1 = Some t \<and> fork_session_cleanup ''u'' ''b'' None (Some 11) False demo_started =
     Inr (SWITCH_STATUS_SUCCESS, g) \<and> demo_stopped = g \<and> handed_over ''u'' ''b'' 1 t 1 demo_started g \<and>
     g_world g = g_world demo_started \<and> t_bugname t = ''b''"
proof -
  obtain t where t: "g_tech demo_started = [1 \<mapsto> t]" "t_pAudioPipe t = Some 1" "t_bugname t = ''b''"
    using demo_started_facts(3) by blast
  let ?g = "fork_session_cleanup ''u'' ''b'' None (Some 11) False demo_started"
  have "seen_ok (Some 11) demo_started" by (simp add: seen_ok_def demo_started_facts)
  then obtain g' where g': "fork_session_cleanup_locked ''u'' ''b'' None (Some 11) demo_started
      = Inr ((SWITCH_STATUS_SUCCESS, Some 11), g')" "handed_over ''u'' ''b'' 1 t 1 demo_started g'"
    "gl_inv 16 g'"
    using stop_current [of demo_started "''u''" "''b''" 11 "''u''" 1 t 1 None] t
      cleanup_locked_ok [OF gl_reach_inv [OF demo_started_reach], of "Some 11" "''u''" "''b''" None]
    by (auto simp: demo_started_facts)
  have "g_world g' = g_world demo_started"
    using g'(1) t by (auto simp: fork_session_cleanup_locked_def bug_user_data_def get_tech_def set_tech_def
        reaper_def destroy_tech_pvt_def demo_started_facts)
  have "capture_close 11 g' = Inr g'"
    using g'(2) t no_bug_cleanup(1) [OF g'(3), of None "''u''" "''b''" None]
    by (simp add: capture_close_def get_tech_def seen_ok_def handed_over_def demo_started_facts)
  then have "?g = Inr (SWITCH_STATUS_SUCCESS, g')" using g'(1) by (simp add: fork_session_cleanup_def)
  then show ?thesis using g'(2) t \<open>g_world g' = g_world demo_started\<close>
    by (simp add: demo_stopped_def demo_stop_1_def)
qed

lemma demo_stopped_facts:
  "g_private demo_stopped ''u'' ''b'' = None" "g_bugs demo_stopped = [11 \<mapsto> (''u'', 1)]"
  "\<exists>t. g_tech demo_stopped = [1 \<mapsto> t] \<and> t_pAudioPipe t = None"
  "g_world demo_stopped = g_world demo_started"
  using demo_stop_run demo_started_facts by (auto simp: handed_over_def)

lemma demo_again_reach: "demo_reach demo_again"
proof -
  have "g_tech demo_stopped 2 = None" "heap (g_world demo_stopped) 2 = None"
    using demo_stopped_facts(3,4) demo_started_facts(4) by auto
  then show ?thesis unfolding demo_again_def
    by (intro demo_step(2) [OF demo_stopped_reach])
      (simp add: demo_start_2_def demo_stopped_facts demo_env_def demo_fork_def demo_buflen)
qed

lemma demo_again_facts:
  "g_private demo_again ''u'' ''b'' = Some 12" "g_bugs demo_again = [11 \<mapsto> (''u'', 1), 12 \<mapsto> (''u'', 2)]"
  "\<exists>t. g_tech demo_again 2 = Some t \<and> t_pAudioPipe t = Some 2"
  "\<exists>u. g_tech demo_again 1 = Some u \<and> t_pAudioPipe u = None"
proof -
  obtain u where "g_tech demo_stopped = [1 \<mapsto> u]" "t_pAudioPipe u = None"
    using demo_stopped_facts(3) by blast
  then show "g_private demo_again ''u'' ''b'' = Some 12" "g_bugs demo_again = [11 \<mapsto> (''u'', 1), 12 \<mapsto> (''u'', 2)]"
    "\<exists>t. g_tech demo_again 2 = Some t \<and> t_pAudioPipe t = Some 2"
  "\<exists>u. g_tech demo_again 1 = Some u \<and> t_pAudioPipe u = None"
    by (simp_all add: demo_again_def demo_start_2_def start_defs demo_env_def demo_fork_def
      demo_buflen demo_stopped_facts demo_started_facts upd_eq)
qed

section \<open>The properties on these states\<close>




end
