(* ===== verification/PipeService.thy ===== *)
theory PipeService
  imports PipeInv
begin

text \<open>
  The service threads behind the pipes (\<open>initialize\<close>, \<open>lws_service_thread\<close> and \<open>deinitialize\<close> of
  \<^verbatim>\<open>audio_pipe.cpp\<close>), the same text in mod_audio_fork and mod_deepgram_transcribe.
\<close>

section \<open>Service threads\<close>

text \<open>The number of threads started is capped at one; the \<open>contexts\<close> array has ten entries.\<close>

definition initialize :: "nat \<Rightarrow> ('p, 'n) world \<Rightarrow> ub + ('p, 'n) world" where
  "initialize nThreads w =
     (if \<not> (nThreads > 0 \<and> nThreads \<le> 10) then Inl AssertFailed
      else let n = (if nThreads > 1 then 1 else nThreads)
        in Inr (w\<lparr>numContexts := n, stopRequested := False, serviceThreads := serviceThreads w @ [0..<n]\<rparr>))"

text \<open>A service thread: creating its context, then serving until \<open>lws_service\<close> fails or a stop is
  requested. The list holds, for each turn, what \<open>lws_service\<close> returned and whether a stop was
  requested by then; the loop runs on when the list does not end it.\<close>

fun service_loop :: "(int \<times> bool) list \<Rightarrow> bool" where
  "service_loop [] = False"
| "service_loop ((n, stop) # turns) = (if n \<ge> 0 \<and> \<not> stop then service_loop turns else True)"

definition lws_service_thread ::
  "nat \<Rightarrow> ctx option \<Rightarrow> (int \<times> bool) list \<Rightarrow> ('p, 'n) world \<Rightarrow> bool option \<times> ('p, 'n) world" where
  "lws_service_thread nServiceThread myContext turns w =
     (let w1 = w\<lparr>contexts := (contexts w)[nServiceThread := myContext]\<rparr>
      in case myContext of
           None \<Rightarrow> (Some False, w1)
         | Some c \<Rightarrow> (if service_loop turns then Some True else None, w1))"

text \<open>The contexts destroyed are returned.\<close>

definition deinitialize :: "('p, 'n) world \<Rightarrow> ctx list \<times> ('p, 'n) world" where
  "deinitialize w =
     (let live = List.map_filter id (take (numContexts w) (contexts w))
      in (live, w\<lparr>stopRequested := True, wakeups := wakeups w @ live, serviceThreads := [],
            contexts := replicate (min (numContexts w) (length (contexts w))) None
              @ drop (numContexts w) (contexts w)\<rparr>))"

datatype lws_log = LLL_ERR | LLL_WARN | LLL_NOTICE | LLL_INFO | LLL_OTHER
datatype switch_log_level = SWITCH_LOG_ERROR | SWITCH_LOG_WARNING | SWITCH_LOG_NOTICE | SWITCH_LOG_INFO
  | SWITCH_LOG_DEBUG

fun lws_logger :: "lws_log \<Rightarrow> switch_log_level" where
  "lws_logger LLL_ERR = SWITCH_LOG_ERROR"
| "lws_logger LLL_WARN = SWITCH_LOG_WARNING"
| "lws_logger LLL_NOTICE = SWITCH_LOG_NOTICE"
| "lws_logger LLL_INFO = SWITCH_LOG_INFO"
| "lws_logger LLL_OTHER = SWITCH_LOG_DEBUG"

section \<open>Lemmas\<close>

lemma initialize_one:
  assumes "0 < n" "n \<le> 10"
  shows "initialize n w = Inr (w\<lparr>numContexts := 1, stopRequested := False, serviceThreads := serviceThreads w @ [0]\<rparr>)"
proof -
  have "(if n > 1 then 1 else n) = 1" using assms by auto
  then show ?thesis using assms by (simp add: initialize_def Let_def del: One_nat_def) simp
qed

lemma deinitialize_quiet:
  assumes "deinitialize w = (cs, w')"
  shows "pending w' = pending w" "serviceThreads w' = []" "stopRequested w'" "numContexts w' = numContexts w"
    "heap w' = heap w" "set (take (numContexts w) (contexts w')) \<subseteq> {None}"
    "Some c \<in> set (take (numContexts w) (contexts w)) \<Longrightarrow> c \<in> set cs \<and> c \<in> set (wakeups w')"
proof -
  have live: "Some c \<in> set l \<longleftrightarrow> c \<in> set (List.map_filter id l)" for c l
    by (force simp: List.map_filter_def image_iff)
  have none: "set (take k (replicate (min k (length l)) None @ drop k l)) \<subseteq> {None}" for k and l :: "ctx option list"
    by (cases "k \<le> length l") (auto simp: min_def)
  show "pending w' = pending w" "serviceThreads w' = []" "stopRequested w'" "numContexts w' = numContexts w"
    "heap w' = heap w" "set (take (numContexts w) (contexts w')) \<subseteq> {None}"
    "Some c \<in> set (take (numContexts w) (contexts w)) \<Longrightarrow> c \<in> set cs \<and> c \<in> set (wakeups w')"
    using none [of "numContexts w" "contexts w"] assms
    by (auto simp: pending_def deinitialize_def Let_def live [symmetric] subset_iff simp del: take_append)
qed

lemma service_loop_iff: "service_loop turns \<longleftrightarrow> list_ex (\<lambda>turn. fst turn < 0 \<or> snd turn) turns"
  by (induction turns rule: service_loop.induct) auto

text \<open>A service thread ends exactly when \<open>lws_service\<close> fails, or the turn it is in ends after a stop
  was requested; whatever it does, it leaves its context where \<open>connect()\<close> and \<open>deinitialize\<close> find
  it, and nothing else changes. Without a context it ends at once.\<close>

lemma service_thread_ends:
  "(fst (lws_service_thread k ctx turns w) \<noteq> None \<longleftrightarrow>
      ctx = None \<or> list_ex (\<lambda>turn. fst turn < 0 \<or> snd turn) turns) \<and>
    snd (lws_service_thread k ctx turns w) = w\<lparr>contexts := (contexts w)[k := ctx]\<rparr>"
  unfolding service_loop_iff [symmetric]
  by (cases ctx) (auto simp: lws_service_thread_def Let_def)

end
