(* ===== verification/ForkApi.thy ===== *)
theory ForkApi
  imports ForkGlueDemo WsUri PipeService
begin

text \<open>
  The command of mod_audio_fork, \<open>uuid_audio_fork\<close> (\<^verbatim>\<open>mod_audio_fork.c\<close>), and the loading and
  unloading of the module, on the service threads of theory \<open>PipeService\<close>.
\<close>

section \<open>The command\<close>

text \<open>What the rest of FreeSWITCH answers while a command runs: the splitting of the command line,
  the channel variables, and all that a start needs.\<close>

record api_env =
  v_separate :: "string \<Rightarrow> string list"
  v_switch_true :: "string option \<Rightarrow> bool"
  v_variables :: "string \<Rightarrow> string option"
  v_uninitialised :: uri_out
  v_flag_bits :: "ssl_flag set \<Rightarrow> nat"
  v_init :: init_env
  v_rate :: int
  v_ready :: bool
  v_added :: "ptr option"

datatype api_reply = Usage | OkSuccess | ErrFailed | NoReply

definition reply_of :: "switch_status \<Rightarrow> api_reply" where
  "reply_of status = (if status = SWITCH_STATUS_SUCCESS then OkSuccess else ErrFailed)"

text \<open>An unused \<open>argv\<close> entry is null.\<close>

definition argv_at :: "string list \<Rightarrow> nat \<Rightarrow> ub + string" where
  "argv_at argv k = (if k < length argv then Inr (argv ! k) else Inl NullDeref)"

definition MY_BUG_NAME :: string where "MY_BUG_NAME = ''audio_fork''"
definition MAX_BUG_LEN :: nat where "MAX_BUG_LEN = 64"

definition looks_json :: "string \<Rightarrow> bool" where
  "looks_json t \<longleftrightarrow> t \<noteq> [] \<and> (hd t = CHR ''{'' \<or> hd t = CHR ''['')"

text \<open>The bug name and the text of \<open>stop\<close> and \<open>send_text\<close>; with one argument only, its first
  character decides which of the two it is.\<close>

definition name_and_text :: "string list \<Rightarrow> string \<times> string option" where
  "name_and_text argv =
     (if length argv > 3 then (argv ! 2, Some (argv ! 3))
      else if length argv > 2 then
        (if looks_json (argv ! 2) then (MY_BUG_NAME, Some (argv ! 2)) else (argv ! 2, None))
      else (MY_BUG_NAME, None))"

definition name_only :: "string list \<Rightarrow> string" where
  "name_only argv = (if length argv > 2 then argv ! 2 else MY_BUG_NAME)"

text \<open>What \<open>start\<close> does with its arguments: leave at once, fail, or start a capture.\<close>

datatype start_request = StartBail | StartReject | StartGo fork_args

definition start_name :: "string list \<Rightarrow> string \<times> string option" where
  "start_name argv =
     (if length argv > 6 then (argv ! 5, Some (argv ! 6))
      else if length argv > 5 then
        (if looks_json (argv ! 5) then (MY_BUG_NAME, Some (argv ! 5)) else (argv ! 5, None))
      else (MY_BUG_NAME, None))"

definition start_channels :: "string \<Rightarrow> nat option" where
  "start_channels mix =
     (if mix = ''mixed'' then Some 1 else if mix = ''stereo'' then Some 2
      else if mix = ''mono'' then Some 1 else None)"

definition start_sampling :: "string \<Rightarrow> int" where
  "start_sampling rate = (if rate = ''16k'' then 16000 else if rate = ''8k'' then 8000 else atoi rate)"

definition fork_start_request :: "api_env \<Rightarrow> string list \<Rightarrow> ub + start_request" where
  "fork_start_request V argv =
     (case start_name argv of (bugname, metadata) \<Rightarrow>
        if length bugname > MAX_BUG_LEN then Inr StartBail
        else andthen (argv_at argv 3) (\<lambda>mix.
          case start_channels mix of
            None \<Rightarrow> Inr StartBail
          | Some channels \<Rightarrow>
              andthen (argv_at argv 4) (\<lambda>rate.
              andthen (argv_at argv 2) (\<lambda>uri.
                let sampling = start_sampling rate;
                    (ok, u) = parse_ws_uri (v_switch_true V) (v_variables V) uri (v_uninitialised V)
                in if \<not> ok then Inr StartReject
                   else if sampling \<le> 0 \<or> sampling > 48000 \<or> sampling mod 8000 \<noteq> 0 then Inr StartReject
                   else Inr (StartGo \<lparr>f_host = u_host u, f_port = nat (u_port u), f_path = u_path u,
                     f_sslFlags = v_flag_bits V (u_sslFlags u), f_sampling = sampling,
                     f_channels = channels, f_bugname = bugname, f_metadata = metadata\<rparr>)))))"

text \<open>The wrappers around the session operations. Each reads the bug first.\<close>

definition do_stop :: "string \<Rightarrow> string \<Rightarrow> string option \<Rightarrow> glue \<Rightarrow> ub + switch_status \<times> glue" where
  "do_stop s bugname txt g = fork_session_cleanup s bugname txt (g_private g s bugname) False g"

definition do_pauseresume :: "string \<Rightarrow> string \<Rightarrow> bool \<Rightarrow> glue \<Rightarrow> ub + switch_status \<times> glue" where
  "do_pauseresume s bugname pause g = fork_session_pauseresume s bugname pause (g_private g s bugname) g"

definition do_graceful_shutdown :: "string \<Rightarrow> string \<Rightarrow> glue \<Rightarrow> ub + switch_status \<times> glue" where
  "do_graceful_shutdown s bugname g = fork_session_graceful_shutdown s bugname (g_private g s bugname) g"

definition send_text :: "string \<Rightarrow> string \<Rightarrow> string option \<Rightarrow> glue \<Rightarrow> ub + switch_status \<times> glue" where
  "send_text s bugname txt g =
     (if g_private g s bugname \<noteq> None then fork_session_send_text s bugname txt (g_private g s bugname) g
      else Inr (SWITCH_STATUS_FALSE, g))"

definition fork_function ::
  "'j cjson \<Rightarrow> string \<Rightarrow> nat \<Rightarrow> int \<Rightarrow> api_env \<Rightarrow> string option \<Rightarrow> glue \<Rightarrow> ub + api_reply \<times> glue" where
  "fork_function J temp_dir LWS_PRE secs V cmd g =
     (let argv = (case cmd of None \<Rightarrow> [] | Some c \<Rightarrow> if c = [] then [] else v_separate V c);
          zstr = (cmd = None \<or> cmd = Some []);
          replying = (\<lambda>r. andthen r (\<lambda>(status, g1). Inr (reply_of status, g1)))
      in if zstr \<or> length argv < 2 \<or> argv ! 1 = ''start'' \<and> length argv < 5 then Inr (Usage, g)
         else let s = argv ! 0; what = argv ! 1 in
           if \<not> g_sessions g s then Inr (ErrFailed, g)
           else if strcaseeq what ''stop'' then
             (case name_and_text argv of (bugname, txt) \<Rightarrow> replying (do_stop s bugname txt g))
           else if strcaseeq what ''pause'' then replying (do_pauseresume s (name_only argv) True g)
           else if strcaseeq what ''resume'' then replying (do_pauseresume s (name_only argv) False g)
           else if strcaseeq what ''graceful-shutdown'' then replying (do_graceful_shutdown s (name_only argv) g)
           else if strcaseeq what ''send_text'' then
             (if length argv < 3 then Inr (NoReply, g)
              else case name_and_text argv of (bugname, txt) \<Rightarrow> replying (send_text s bugname txt g))
           else if strcaseeq what ''start'' then
             andthen (fork_start_request V argv) (\<lambda>q. case q of
                 StartBail \<Rightarrow> Inr (NoReply, g)
               | StartReject \<Rightarrow> Inr (ErrFailed, g)
               | StartGo a \<Rightarrow> replying (start_capture J temp_dir LWS_PRE secs ((v_init V)\<lparr>e_uuid := s\<rparr>) a
                   (v_rate V) (v_ready V) (v_added V) g))
           else Inr (ErrFailed, g))"

section \<open>Loading and unloading\<close>

definition fork_init :: "string option \<Rightarrow> glue \<Rightarrow> ub + switch_status \<times> glue" where
  "fork_init requestedNumServiceThreads g =
     andthen (initialize (nat (serviceThreadCount requestedNumServiceThreads)) (g_world g)) (\<lambda>w.
       Inr (SWITCH_STATUS_SUCCESS, g\<lparr>g_world := w\<rparr>))"

definition fork_cleanup :: "glue \<Rightarrow> switch_status \<times> ctx list \<times> glue" where
  "fork_cleanup g = (case deinitialize (g_world g) of
     (cs, w) \<Rightarrow> (SWITCH_STATUS_SUCCESS, cs, g\<lparr>g_world := w\<rparr>))"

text \<open>\<open>reserve\<close> stands for \<open>switch_event_reserve_subclass\<close>.\<close>

definition reserved_events :: "fork_event list" where
  "reserved_events = [EVENT_TRANSCRIPTION, EVENT_TRANSFER, EVENT_PLAY_AUDIO, EVENT_KILL_AUDIO,
     EVENT_ERROR, EVENT_DISCONNECT]"

definition mod_audio_fork_load ::
  "(fork_event \<Rightarrow> bool) \<Rightarrow> string option \<Rightarrow> glue \<Rightarrow> ub + switch_status \<times> glue" where
  "mod_audio_fork_load reserve threads g =
     (if \<not> list_all reserve reserved_events then Inr (SWITCH_STATUS_TERM, g)
      else andthen (fork_init threads g) (\<lambda>(_, g1). Inr (SWITCH_STATUS_SUCCESS, g1)))"

definition mod_audio_fork_shutdown :: "glue \<Rightarrow> switch_status \<times> ctx list \<times> glue" where
  "mod_audio_fork_shutdown g =
     (if fork_sessions_active g > 0 then (SWITCH_STATUS_FALSE, [], g)
      else case fork_cleanup g of (_, cs, g1) \<Rightarrow> (SWITCH_STATUS_SUCCESS, cs, g1))"

section \<open>Properties\<close>

text \<open>C15: a start that passes the checks of the command is well formed: one of the six rates, one or
  two channels, a bug name that the hangup path will find again, host and path within their
  buffers; and the size of its audio buffer does not overflow.\<close>

theorem fork_start_validated:
  assumes "fork_start_request V argv = Inr (StartGo a)" "pre \<le> 1024"
  shows "f_sampling a \<in> {8000, 16000, 24000, 32000, 40000, 48000} \<and> f_channels a \<in> {1, 2} \<and>
    length (f_bugname a) \<le> MAX_BUG_LEN \<and> length (f_host a) < MAX_WS_URL_LEN \<and>
    length (f_path a) < MAX_PATH_LEN \<and>
    fork_buflen pre (f_sampling a) (int (f_channels a)) (audioBufferSecs req) =
      Inr (pre + nat (2 * f_sampling a * int (f_channels a) * audioBufferSecs req))"
proof -
  obtain u mix where u: "length (f_bugname a) \<le> MAX_BUG_LEN" "start_channels mix = Some (f_channels a)"
    "fst (parse_ws_uri (v_switch_true V) (v_variables V) u (v_uninitialised V))"
    "f_host a = u_host (snd (parse_ws_uri (v_switch_true V) (v_variables V) u (v_uninitialised V)))"
    "f_path a = u_path (snd (parse_ws_uri (v_switch_true V) (v_variables V) u (v_uninitialised V)))"
    and s: "0 < f_sampling a" "f_sampling a \<le> 48000" "f_sampling a mod 8000 = 0"
  proof -
    obtain n x where n: "start_name argv = (n, x)" by fastforce
    obtain mix ch rate uri where m: "argv_at argv 3 = Inr mix" "start_channels mix = Some ch"
      "argv_at argv 4 = Inr rate" "argv_at argv 2 = Inr uri" "length n \<le> MAX_BUG_LEN"
      using assms(1) n by (auto simp: fork_start_request_def andthen_Inr_iff split: if_splits option.splits)
    obtain ok u where u: "parse_ws_uri (v_switch_true V) (v_variables V) uri (v_uninitialised V) = (ok, u)"
      by fastforce
    have "(if \<not> ok then Inr StartReject
      else if start_sampling rate \<le> 0 \<or> start_sampling rate > 48000 \<or> start_sampling rate mod 8000 \<noteq> 0
      then Inr StartReject
      else Inr (StartGo \<lparr>f_host = u_host u, f_port = nat (u_port u), f_path = u_path u,
        f_sslFlags = v_flag_bits V (u_sslFlags u), f_sampling = start_sampling rate,
        f_channels = ch, f_bugname = n, f_metadata = x\<rparr>)) = (Inr (StartGo a) :: ub + start_request)"
      using assms(1) n m u by (simp add: fork_start_request_def Let_def)
    then have "ok" "a = \<lparr>f_host = u_host u, f_port = nat (u_port u), f_path = u_path u,
        f_sslFlags = v_flag_bits V (u_sslFlags u), f_sampling = start_sampling rate,
        f_channels = ch, f_bugname = n, f_metadata = x\<rparr>" "0 < start_sampling rate"
      "start_sampling rate \<le> 48000" "start_sampling rate mod 8000 = 0"
      by (simp_all split: if_splits)
    then show ?thesis using that [of mix uri] m u by simp
  qed
  have c: "f_channels a \<in> {1, 2}" using u(2) by (auto simp: start_channels_def split: if_splits)
  obtain k where k: "f_sampling a = 8000 * k" using s(3) by (auto simp: mod_eq_0_iff_dvd)
  then have "k \<in> {1, 2, 3, 4, 5, 6}" using s(1,2) by auto
  then have r: "f_sampling a \<in> {8000, 16000, 24000, 32000, 40000, 48000}" using k by auto
  have "length (f_host a) < MAX_WS_URL_LEN" "length (f_path a) < MAX_PATH_LEN"
    using u(3) unfolding u(4,5)
    by (auto simp: parse_ws_uri_def Let_def strncpy_field_def MAX_WS_URL_LEN_def MAX_PATH_LEN_def
        split: option.splits prod.splits if_splits)
  moreover have "int (f_channels a) \<in> {1, 2}" using c by auto
  from fork_buflen_value [OF s this refl assms(2)] have
    "fork_buflen pre (f_sampling a) (int (f_channels a)) (audioBufferSecs req) =
      Inr (pre + nat (2 * f_sampling a * int (f_channels a) * audioBufferSecs req))" by blast
  ultimately show ?thesis using u(1) c r by blast
qed

lemma fork_command_ok:
  assumes "gl_reach J tmp pre secs g"
    and "\<And>c. cmd = Some c \<Longrightarrow> strcaseeq (v_separate V c ! 1) ''start'' \<Longrightarrow> 5 \<le> length (v_separate V c)"
    and "\<And>c a. cmd = Some c \<Longrightarrow> fork_start_request V (v_separate V c) = Inr (StartGo a) \<Longrightarrow>
      gl_enabled pre secs (GStart ((v_init V)\<lparr>e_uuid := v_separate V c ! 0\<rparr>) a (v_rate V) (v_ready V) (v_added V)) g"
  shows "\<exists>r g'. fork_function J tmp pre secs V cmd g = Inr (r, g') \<and> gl_reach J tmp pre secs g'"
proof -
  note inv = gl_reach_inv [OF assms(1)]
  have seen: "seen_ok (g_private g s n) g" for s n
    using gl_inv_private [OF inv] by (auto simp: seen_ok_def split: option.splits)
  have stop: "\<exists>st g'. do_stop s n x g = Inr (st, g') \<and> gl_reach J tmp pre secs g'" for s n x
    using fork_session_cleanup_ok [OF inv seen [of s n], of s n x False] seen [of s n]
      gl_reach.step [OF assms(1), of "GCleanup s n x (g_private g s n) False"] by (auto simp: do_stop_def)
  have pause: "\<exists>st g'. do_pauseresume s n b g = Inr (st, g') \<and> gl_reach J tmp pre secs g'" for s n b
    using pauseresume_ok [OF inv seen [of s n], of s n b] seen [of s n]
      gl_reach.step [OF assms(1), of "GPauseResume s n b (g_private g s n)"] by (auto simp: do_pauseresume_def)
  have shut: "\<exists>st g'. do_graceful_shutdown s n g = Inr (st, g') \<and> gl_reach J tmp pre secs g'" for s n
    using graceful_shutdown_ok [OF inv seen [of s n], of s n] seen [of s n]
      gl_reach.step [OF assms(1), of "GGraceful s n (g_private g s n)"] by (auto simp: do_graceful_shutdown_def)
  have snd: "\<exists>st g'. send_text s n x g = Inr (st, g') \<and> gl_reach J tmp pre secs g'" for s n x
    using send_text_ok [OF inv seen [of s n], of s n x] seen [of s n] assms(1)
      gl_reach.step [OF assms(1), of "GSendText s n x (g_private g s n)"] by (auto simp: send_text_def)
  have start: "\<exists>st g'. start_capture J tmp pre secs e a rate ready added g = Inr (st, g') \<and> gl_reach J tmp pre secs g'"
    if "gl_enabled pre secs (GStart e a rate ready added) g" for e a rate ready added
    using start_capture_ok [OF inv that, of J tmp] gl_reach.step [OF assms(1) that] by auto
  show ?thesis
  proof (cases "cmd = None \<or> cmd = Some []")
    case True
    then show ?thesis using assms(1) by (auto simp: fork_function_def)
  next
    case False
    then obtain c where c: "cmd = Some c" "c \<noteq> []" by auto
    let ?argv = "v_separate V c"
    have ask: "\<exists>q. fork_start_request V ?argv = Inr q" if "5 \<le> length ?argv"
      using that by (auto simp: fork_start_request_def argv_at_def Let_def split: prod.splits option.splits)
    obtain n x where nx: "name_and_text ?argv = (n, x)" by fastforce
    consider (refused) "length ?argv < 2 \<or> ?argv ! 1 = ''start'' \<and> length ?argv < 5 \<or> \<not> g_sessions g (?argv ! 0)"
      | (run) "\<not> (length ?argv < 2 \<or> ?argv ! 1 = ''start'' \<and> length ?argv < 5)" "g_sessions g (?argv ! 0)" by blast
    then show ?thesis
    proof cases
      case refused
      then show ?thesis using c assms(1) by (auto simp: fork_function_def Let_def)
    next
      case run
      note base = fork_function_def Let_def c run nx
      have go: "\<exists>r g'. (if strcaseeq (?argv ! 1) ''start'' then
          andthen (fork_start_request V ?argv) (\<lambda>q. case q of StartBail \<Rightarrow> Inr (NoReply, g)
            | StartReject \<Rightarrow> Inr (ErrFailed, g)
            | StartGo a \<Rightarrow> andthen (start_capture J tmp pre secs ((v_init V)\<lparr>e_uuid := ?argv ! 0\<rparr>) a
               (v_rate V) (v_ready V) (v_added V) g) (\<lambda>(status, g1). Inr (reply_of status, g1)))
          else Inr (ErrFailed, g)) = Inr (r, g') \<and> gl_reach J tmp pre secs g'"
      proof (cases "strcaseeq (?argv ! 1) ''start''")
        case True
        then obtain q where q: "fork_start_request V ?argv = Inr q" using ask assms(2) c(1) by blast
        show ?thesis
        proof (cases q)
          case (StartGo a)
          then obtain st g' where "start_capture J tmp pre secs ((v_init V)\<lparr>e_uuid := ?argv ! 0\<rparr>) a
               (v_rate V) (v_ready V) (v_added V) g = Inr (st, g')" "gl_reach J tmp pre secs g'"
            using start [OF assms(3) [OF c(1)]] q by blast
          then show ?thesis using True q StartGo by simp
        qed (use True q assms(1) in simp_all)
      qed (use assms(1) in simp)
      obtain s1 g1 where 1: "do_stop (?argv ! 0) n x g = Inr (s1, g1)" "gl_reach J tmp pre secs g1" using stop by blast
      obtain s2 g2 where 2: "do_pauseresume (?argv ! 0) (name_only ?argv) True g = Inr (s2, g2)" "gl_reach J tmp pre secs g2"
        using pause by blast
      obtain s3 g3 where 3: "do_pauseresume (?argv ! 0) (name_only ?argv) False g = Inr (s3, g3)" "gl_reach J tmp pre secs g3"
        using pause by blast
      obtain s4 g4 where 4: "do_graceful_shutdown (?argv ! 0) (name_only ?argv) g = Inr (s4, g4)" "gl_reach J tmp pre secs g4"
        using shut by blast
      obtain s5 g5 where 5: "send_text (?argv ! 0) n x g = Inr (s5, g5)" "gl_reach J tmp pre secs g5" using snd by blast
      show ?thesis using run go 1 2 3 4 5 assms(1) by (simp add: base cong: if_cong)
    qed
  qed
qed

lemma fork_start_case_crash:
  assumes "c \<noteq> []" "v_separate V c = argv" "length argv \<in> {2, 3}"
    and "strcaseeq (argv ! 1) ''start''" "argv ! 1 \<noteq> ''start''" "g_sessions g (argv ! 0)"
  shows "fork_function J tmp pre secs V (Some c) g = Inl NullDeref"
proof -
  have n: "start_name argv = (MY_BUG_NAME, None)" "argv_at argv 3 = Inl NullDeref"
    using assms(3) by (auto simp: start_name_def argv_at_def)
  then have "fork_start_request V argv = Inl NullDeref"
    by (simp add: fork_start_request_def MY_BUG_NAME_def MAX_BUG_LEN_def)
  moreover have "\<not> strcaseeq (argv ! 1) x" if "map to_lower x \<noteq> map to_lower ''start''" for x
    using assms(4) that by (simp add: strcaseeq_def)
  then have "\<not> strcaseeq (argv ! 1) ''stop''" "\<not> strcaseeq (argv ! 1) ''pause''"
    "\<not> strcaseeq (argv ! 1) ''resume''" "\<not> strcaseeq (argv ! 1) ''graceful-shutdown''"
    "\<not> strcaseeq (argv ! 1) ''send_text''"
    by (simp_all add: to_lower_def)
  ultimately show ?thesis using assms by (auto simp: fork_function_def Let_def)
qed

text \<open>C16: in every reachable state of the module, every command line the API is given is carried out
  without undefined behaviour, whatever its number of arguments and whatever session, bug or
  operation it names, and leaves a reachable state, provided that a start, in whatever
  capitalisation, has its five arguments. The check of their number is for \<open>start\<close> exactly, the
  dispatcher does not regard case: \<open>START\<close> with fewer than two further arguments dereferences a null
  argument.\<close>

theorem fork_command_safe:
  assumes "gl_reach J tmp pre secs g" "c \<noteq> []"
    and "\<And>a. fork_start_request V (v_separate V c) = Inr (StartGo a) \<Longrightarrow>
      gl_enabled pre secs (GStart ((v_init V)\<lparr>e_uuid := v_separate V c ! 0\<rparr>) a (v_rate V) (v_ready V) (v_added V)) g"
  shows "((strcaseeq (v_separate V c ! 1) ''start'' \<longrightarrow> 5 \<le> length (v_separate V c)) \<longrightarrow>
      (\<exists>r g'. fork_function J tmp pre secs V (Some c) g = Inr (r, g') \<and> gl_reach J tmp pre secs g')) \<and>
    (strcaseeq (v_separate V c ! 1) ''start'' \<and> v_separate V c ! 1 \<noteq> ''start'' \<and>
      length (v_separate V c) \<in> {2, 3} \<and> g_sessions g (v_separate V c ! 0) \<longrightarrow>
      fork_function J tmp pre secs V (Some c) g = Inl NullDeref)"
  using fork_command_ok [OF assms(1), of "Some c" V] fork_start_case_crash [OF assms(2) refl, of V g J tmp pre secs]
    assms(3) by auto

text \<open>Loading the module with any setting of \<open>MOD_AUDIO_FORK_SERVICE_THREADS\<close> satisfies the
  assertion of \<open>initialize\<close> and starts exactly one service thread. Once that thread has its context,
  every \<open>connect()\<close> is queued for it and wakes it; if its context could not be created, every
  \<open>connect()\<close> fails the pipe at once and says so.\<close>

lemma fork_load_one_thread:
  assumes "list_all reserve reserved_events" "contexts (g_world g) \<noteq> []"
  shows "\<exists>g'. mod_audio_fork_load reserve threads g = Inr (SWITCH_STATUS_SUCCESS, g') \<and>
    serviceThreads (g_world g') = serviceThreads (g_world g) @ [0] \<and> \<not> stopRequested (g_world g') \<and>
    (\<forall>c turns w ap. w = snd (lws_service_thread 0 (Some c) turns (g_world g')) \<longrightarrow>
       addPendingConnect af_notify ap w =
         Inr (lws_cancel_service c (w\<lparr>nchild := nchild w + 1, pendingConnects := pendingConnects w @ [ap]\<rparr>))) \<and>
    (\<forall>turns w ap. w = snd (lws_service_thread 0 None turns (g_world g')) \<longrightarrow>
       addPendingConnect af_notify ap w =
         fail_connect af_notify ap (Some ''no lws context available'') (w\<lparr>nchild := nchild w + 1\<rparr>))"
proof -
  let ?n = "nat (serviceThreadCount threads)"
  have one: "0 < ?n" "?n \<le> 10" by (simp_all add: serviceThreadCount_def)
  let ?g = "g\<lparr>g_world := (g_world g)\<lparr>numContexts := 1, stopRequested := False,
    serviceThreads := serviceThreads (g_world g) @ [0..<1]\<rparr>\<rparr>"
  have "mod_audio_fork_load reserve threads g = Inr (SWITCH_STATUS_SUCCESS, ?g)"
    using assms(1) by (simp add: mod_audio_fork_load_def fork_init_def initialize_one [OF one])
  then show ?thesis using assms(2)
    by (intro exI [of _ ?g]) (auto simp: lws_service_thread_def addPendingConnect_def neq_Nil_conv)
qed

text \<open>C17: the gate of the module's unloading counts exactly the live pipes. The module is unloaded
  exactly when no pipe is left, and then no session and no reaper has one either; otherwise nothing
  is touched. When it is unloaded, no pipe is waiting for a service thread, every context that exists
  is woken before it is destroyed, and neither a context nor a service thread is left.\<close>

theorem fork_unload_safe:
  assumes "gl_reach J tmp pre secs g"
  shows "fork_sessions_active g = int (card {ap. heap (g_world g) ap \<noteq> None}) \<and>
    (fst (mod_audio_fork_shutdown g) = SWITCH_STATUS_SUCCESS \<longleftrightarrow>
      (\<forall>ap. heap (g_world g) ap = None) \<and> g_reapers g = [] \<and>
      (\<forall>tp t. g_tech g tp = Some t \<longrightarrow> t_pAudioPipe t = None)) \<and>
    (fst (mod_audio_fork_shutdown g) \<noteq> SWITCH_STATUS_SUCCESS \<longrightarrow> mod_audio_fork_shutdown g = (SWITCH_STATUS_FALSE, [], g)) \<and>
    (\<forall>cs g'. mod_audio_fork_shutdown g = (SWITCH_STATUS_SUCCESS, cs, g') \<longrightarrow>
       pending (g_world g') = {} \<and> serviceThreads (g_world g') = [] \<and> stopRequested (g_world g') \<and>
       set (take (numContexts (g_world g')) (contexts (g_world g'))) \<subseteq> {None} \<and>
       (\<forall>c. Some c \<in> set (take (numContexts (g_world g)) (contexts (g_world g))) \<longrightarrow>
          c \<in> set cs \<and> c \<in> set (wakeups (g_world g'))))"
proof -
  note gate = fork_unload_gate [OF assms]
  have inv: "af_inv pre (g_world g)"
    using gl_reach_inv [OF assms] by (simp add: gl_inv_def)
  have pend: "pending (g_world g) = {}" if "\<forall>ap. heap (g_world g) ap = None"
    using that world_ok_pending [OF inv] by fastforce
  obtain cs w where w: "deinitialize (g_world g) = (cs, w)" by fastforce
  have open_iff: "fst (mod_audio_fork_shutdown g) = SWITCH_STATUS_SUCCESS \<longleftrightarrow> fork_sessions_active g \<le> 0"
    by (auto simp: mod_audio_fork_shutdown_def fork_cleanup_def w)
  show ?thesis
    unfolding open_iff
    using gate pend deinitialize_quiet [OF w]
    by (auto simp: mod_audio_fork_shutdown_def fork_cleanup_def w)
qed

section \<open>The properties on concrete command lines\<close>

fun split_spaces :: "string \<Rightarrow> string list" where
  "split_spaces [] = [[]]"
| "split_spaces (c # cs) = (if c = CHR '' '' then [] # split_spaces cs
     else case split_spaces cs of [] \<Rightarrow> [[c]] | t # ts \<Rightarrow> (c # t) # ts)"

definition demo_api :: api_env where
  "demo_api = \<lparr>v_separate = split_spaces, v_switch_true = (\<lambda>_. False), v_variables = (\<lambda>_. None),
     v_uninitialised = \<lparr>u_host = [], u_path = [], u_port = 0, u_sslFlags = {}\<rparr>, v_flag_bits = (\<lambda>_. 0),
     v_init = demo_env 1, v_rate = 8000, v_ready = True, v_added = Some 11\<rparr>"

lemma demo_request:
  "\<exists>a. fork_start_request demo_api [''u'', ''start'', ''ws://h/x'', ''stereo'', ''16k''] = Inr (StartGo a)"
proof -
  have "parse_ws_uri (\<lambda>_. False) (\<lambda>_. None) ''ws://h/x'' \<lparr>u_host = [], u_path = [], u_port = 0, u_sslFlags = {}\<rparr>
      = (True, \<lparr>u_host = ''h'', u_path = ''/x'', u_port = 80, u_sslFlags = {}\<rparr>)"
    by code_simp
  then show ?thesis
    by (simp add: fork_start_request_def demo_api_def start_name_def start_channels_def start_sampling_def
        argv_at_def MY_BUG_NAME_def MAX_BUG_LEN_def)
qed

lemma fork_start_validated_witness:
  "\<exists>a. fork_start_request demo_api [''u'', ''start'', ''ws://h/x'', ''stereo'', ''16k''] = Inr (StartGo a) \<and>
    f_sampling a \<in> {8000, 16000, 24000, 32000, 40000, 48000} \<and> f_channels a \<in> {1, 2}"
proof -
  obtain a where a: "fork_start_request demo_api [''u'', ''start'', ''ws://h/x'', ''stereo'', ''16k''] = Inr (StartGo a)"
    using demo_request by blast
  from fork_start_validated [OF a, of 16 None] a show ?thesis by auto
qed

lemma fork_command_safe_witness:
  "(\<exists>r g'. fork_function demo_json ''/tmp'' 16 1 demo_api (Some ''u stop b'') demo_started = Inr (r, g') \<and>
     demo_reach g') \<and>
   fork_function demo_json ''/tmp'' 16 1 demo_api (Some ''u START ws://h'') demo_started = Inl NullDeref"
proof -
  have v: "v_separate demo_api ''u stop b'' = [''u'', ''stop'', ''b'']"
    "v_separate demo_api ''u START ws://h'' = [''u'', ''START'', ''ws://h'']" by (simp_all add: demo_api_def)
  have case_eq: "strcaseeq ''START'' ''start''" "\<not> strcaseeq ''stop'' ''start''"
    by code_simp+
  have no: "fork_start_request demo_api argv \<noteq> Inr (StartGo a)" if "length argv = 3" for a argv
    using that by (auto simp: fork_start_request_def start_name_def argv_at_def MY_BUG_NAME_def MAX_BUG_LEN_def)
  show ?thesis
    using fork_command_safe [OF demo_started_reach, of "''u stop b''" demo_api]
      fork_command_safe [OF demo_started_reach, of "''u START ws://h''" demo_api]
    by (simp add: v case_eq no demo_started_facts)
qed

lemma fork_unload_safe_witness:
  "fst (mod_audio_fork_shutdown demo_glue) = SWITCH_STATUS_SUCCESS \<and>
    fst (mod_audio_fork_shutdown demo_started) \<noteq> SWITCH_STATUS_SUCCESS"
proof -
  have "\<exists>ap. heap (g_world demo_started) ap \<noteq> None" using demo_started_facts(4) by auto
  then show ?thesis using fork_unload_safe [OF demo_glue_reach] fork_unload_safe [OF demo_started_reach]
    by (simp add: demo_glue_def demo_start_def)
qed

end
