(* ===== verification/DgPath.thy ===== *)
theory DgPath
  imports Prelude
begin

text \<open>
  The pure part of \<^verbatim>\<open>modules/mod_deepgram_transcribe/dg_transcribe_glue.cpp\<close>: the defaults by
  language, the percent-encoding, the path of the request that starts a transcription, and the test
  for messages whose transcripts are all empty. Channel variables and \<open>switch_separate_string\<close> belong
  to FreeSWITCH and are arguments.
\<close>

section \<open>Defaults by language\<close>

definition languageLookupTable :: "(string \<times> string \<times> string) list" where
  "languageLookupTable =
     [(''zh'', ''base'', ''general''), (''zh-CN'', ''base'', ''general''), (''zh-TW'', ''base'', ''general''),
      (''da'', ''enhanced'', ''general''), (''en'', ''nova'', ''phonecall''), (''en-US'', ''nova'', ''phonecall''),
      (''en-AU'', ''nova'', ''general''), (''en-GB'', ''nova'', ''general''), (''en-IN'', ''nova'', ''general''),
      (''en-NZ'', ''nova'', ''general''), (''nl'', ''enhanced'', ''general''), (''fr'', ''enhanced'', ''general''),
      (''fr-CA'', ''base'', ''general''), (''de'', ''enhanced'', ''general''), (''hi'', ''enhanced'', ''general''),
      (''hi-Latn'', ''base'', ''general''), (''id'', ''base'', ''general''), (''ja'', ''enhanced'', ''general''),
      (''ko'', ''enhanced'', ''general''), (''no'', ''enhanced'', ''general''), (''pl'', ''enhanced'', ''general''),
      (''pt'', ''enhanced'', ''general''), (''pt-BR'', ''enhanced'', ''general''), (''pt-PT'', ''enhanced'', ''general''),
      (''ru'', ''base'', ''general''), (''es'', ''nova'', ''general''), (''es-419'', ''nova'', ''general''),
      (''sv'', ''enhanced'', ''general''), (''ta'', ''enhanced'', ''general''), (''tr'', ''base'', ''general''),
      (''uk'', ''base'', ''general'')]"

definition getLanguageInfo :: "string \<Rightarrow> (string \<times> string) option" where
  "getLanguageInfo language = map_of languageLookupTable language"

section \<open>Percent-encoding\<close>

text \<open>The character class of the regular expression \<^verbatim>\<open>[!'\(\)*-.0-9A-Za-z_~:]\<close>; \<^verbatim>\<open>*-.\<close> is a range.\<close>

definition uri_plain :: "char \<Rightarrow> bool" where
  "uri_plain c \<longleftrightarrow>
     (let n = of_char c :: nat in
      n \<in> {0x21, 0x27, 0x28, 0x29} \<or> 0x2A \<le> n \<and> n \<le> 0x2E \<or> 0x30 \<le> n \<and> n \<le> 0x39 \<or>
      0x41 \<le> n \<and> n \<le> 0x5A \<or> 0x61 \<le> n \<and> n \<le> 0x7A \<or> n \<in> {0x5F, 0x7E, 0x3A})"

definition hex_digit :: "nat \<Rightarrow> char" where
  "hex_digit n = (if n < 10 then char_of (48 + n) else char_of (55 + n))"

text \<open>\<open>std::hex\<close> with \<open>std::uppercase\<close>, no field width, for values below 256.\<close>

definition put_hex :: "nat \<Rightarrow> string" where
  "put_hex n = (if n < 16 then [hex_digit n] else [hex_digit (n div 16), hex_digit (n mod 16)])"

definition encodeURIComponent :: "string \<Rightarrow> string" where
  "encodeURIComponent decoded =
     concat (map (\<lambda>c. if uri_plain c then [c] else CHR ''%'' # put_hex (of_char c)) decoded)"

section \<open>The path of the request\<close>

text \<open>One parameter per phrase of a list.\<close>

definition phrase_params :: "string \<Rightarrow> string list \<Rightarrow> string" where
  "phrase_params key phrases = concat (map (\<lambda>p. ''&'' @ key @ ''='' @ encodeURIComponent p) phrases)"

definition valued :: "string \<Rightarrow> string option \<Rightarrow> string" where
  "valued key var = (case var of None \<Rightarrow> [] | Some v \<Rightarrow> ''&'' @ key @ ''='' @ encodeURIComponent v)"

definition dg_model_params ::
  "string option \<Rightarrow> string option \<Rightarrow> string option \<Rightarrow> string \<Rightarrow> string" where
  "dg_model_params tier model customModel language =
     (if tier = None \<and> model = None \<and> customModel = None then
        (case getLanguageInfo language of
           Some (t, m) \<Rightarrow> ''tier='' @ t @ ''&model='' @ m
         | None \<Rightarrow> ''tier=base&model=general'')
      else
        (case tier of None \<Rightarrow> [] | Some t \<Rightarrow> ''tier='' @ encodeURIComponent t) @
        (case (if customModel \<noteq> None then customModel else model) of
           None \<Rightarrow> []
         | Some m \<Rightarrow> (if tier = None then [] else ''&'') @ ''model='' @ encodeURIComponent m))"

definition constructPath ::
  "(string option \<Rightarrow> bool) \<Rightarrow> (string \<Rightarrow> string list) \<Rightarrow> (string \<Rightarrow> string option) \<Rightarrow> int \<Rightarrow> string \<Rightarrow> bool \<Rightarrow> string" where
  "constructPath switch_true separate vars channels language interim =
     ''/v1/listen?'' @
     dg_model_params (vars ''DEEPGRAM_SPEECH_TIER'') (vars ''DEEPGRAM_SPEECH_MODEL'')
       (vars ''DEEPGRAM_SPEECH_CUSTOM_MODEL'') language @
     valued ''version'' (vars ''DEEPGRAM_SPEECH_MODEL_VERSION'') @
     ''&language='' @ encodeURIComponent language @
     (if channels = 2 then ''&multichannel=true'' @ ''&channels=2'' else []) @
     (if vars ''DEEPGRAM_SPEECH_ENABLE_SMART_FORMAT'' \<noteq> None then ''&smart_format=true'' @ ''&no_delay=true'' else []) @
     (if vars ''DEEPGRAM_SPEECH_ENABLE_AUTOMATIC_PUNCTUATION'' \<noteq> None then ''&punctuate=true'' else []) @
     (if switch_true (vars ''DEEPGRAM_SPEECH_PROFANITY_FILTER'') then ''&profanity_filter=true'' else []) @
     valued ''redact'' (vars ''DEEPGRAM_SPEECH_REDACT'') @
     (if switch_true (vars ''DEEPGRAM_SPEECH_DIARIZE'')
      then ''&diarize=true'' @ valued ''diarize_version'' (vars ''DEEPGRAM_SPEECH_DIARIZE_VERSION'') else []) @
     (if switch_true (vars ''DEEPGRAM_SPEECH_NER'') then ''&ner=true'' else []) @
     valued ''alternatives'' (vars ''DEEPGRAM_SPEECH_ALTERNATIVES'') @
     (if switch_true (vars ''DEEPGRAM_SPEECH_NUMERALS'') then ''&numerals=true'' else []) @
     (case vars ''DEEPGRAM_SPEECH_SEARCH'' of None \<Rightarrow> [] | Some h \<Rightarrow> phrase_params ''search'' (separate h)) @
     (case vars ''DEEPGRAM_SPEECH_KEYWORDS'' of None \<Rightarrow> [] | Some h \<Rightarrow> phrase_params ''keywords'' (separate h)) @
     (case vars ''DEEPGRAM_SPEECH_KEYTERMS'' of None \<Rightarrow> [] | Some h \<Rightarrow> phrase_params ''keyterm'' (separate h)) @
     (case vars ''DEEPGRAM_SPEECH_REPLACE'' of None \<Rightarrow> [] | Some h \<Rightarrow> phrase_params ''replace'' (separate h)) @
     valued ''tag'' (vars ''DEEPGRAM_SPEECH_TAG'') @
     (if interim then ''&interim_results=true'' else []) @
     valued ''endpointing'' (vars ''DEEPGRAM_SPEECH_ENDPOINTING'') @
     valued ''utterance_end_ms'' (vars ''DEEPGRAM_SPEECH_UTTERANCE_END_MS'') @
     valued ''vad_turnoff'' (vars ''DEEPGRAM_SPEECH_VAD_TURNOFF'') @
     ''&encoding=linear16'' @ ''&sample_rate=8000''"

section \<open>Empty transcripts\<close>

text \<open>A node of a parsed message, as the cJSON library lays it out: name, type word, string value and
  children. The constants are those of its header.\<close>

datatype cnode = CNode (n_string: "string option") (n_type: u32) (n_valuestring: "string option") (n_child: "cnode list")

definition cJSON_String :: u32 where "cJSON_String = 16"
definition cJSON_Array :: u32 where "cJSON_Array = 32"
definition cJSON_Object :: u32 where "cJSON_Object = 64"

definition is_transcript :: "cnode \<Rightarrow> bool" where
  "is_transcript child \<longleftrightarrow> n_string child = Some ''transcript'' \<and> n_type child AND 0xFF = cJSON_String"

primrec countTranscripts :: "cnode \<Rightarrow> nat \<times> nat \<Rightarrow> nat \<times> nat"
  and countChildren :: "cnode list \<Rightarrow> nat \<times> nat \<Rightarrow> nat \<times> nat" where
  "countTranscripts (CNode s ty v cs) c = countChildren cs c"
| "countChildren [] c = c"
| "countChildren (child # rest) c =
     (let c1 = (if is_transcript child
                then (fst c + 1,
                      if n_valuestring child \<noteq> None \<and> n_valuestring child \<noteq> Some [] then snd c + 1 else snd c)
                else c);
          t = n_type child AND 0xFF;
          c2 = (if t = cJSON_Object \<or> t = cJSON_Array then countTranscripts child c1 else c1)
      in countChildren rest c2)"

text \<open>Whether a message is discarded; \<open>parse\<close> stands for \<open>cJSON_Parse\<close>.\<close>

definition discards :: "(string \<Rightarrow> cnode option) \<Rightarrow> string \<Rightarrow> bool" where
  "discards parse message =
     (case parse message of
        None \<Rightarrow> False
      | Some json \<Rightarrow> (case countTranscripts json (0, 0) of (n, nonEmpty) \<Rightarrow> n > 0 \<and> nonEmpty = 0))"

section \<open>Percent-encoding is decoded again\<close>

fun hex_value :: "char \<Rightarrow> nat option" where
  "hex_value c =
     (let n = of_char c :: nat in
      if 0x30 \<le> n \<and> n \<le> 0x39 then Some (n - 0x30)
      else if 0x41 \<le> n \<and> n \<le> 0x46 then Some (n - 55)
      else if 0x61 \<le> n \<and> n \<le> 0x66 then Some (n - 87) else None)"

text \<open>The decoder of RFC 3986.\<close>

fun pct_decode :: "string \<Rightarrow> string option" where
  "pct_decode [] = Some []"
| "pct_decode (c # cs) =
     (if c = CHR ''%'' then
        (case cs of
           a # b # rest \<Rightarrow>
             (case (hex_value a, hex_value b) of
                (Some x, Some y) \<Rightarrow> map_option ((#) (char_of (16 * x + y))) (pct_decode rest)
              | _ \<Rightarrow> None)
         | _ \<Rightarrow> None)
      else map_option ((#) c) (pct_decode cs))"

definition unpadded :: "char \<Rightarrow> bool" where
  "unpadded c \<longleftrightarrow> (of_char c :: nat) < 16"

lemma hex_value_digit: "n < 16 \<Longrightarrow> hex_value (hex_digit n) = Some n"
  by (cases "n < 10") (simp_all add: hex_digit_def Let_def)

lemma of_char_less: "(of_char c :: nat) < 256"
  by (metis of_char_mod_256 mod_less_divisor zero_less_numeral)

lemma encode_Cons:
  "encodeURIComponent (c # cs) =
     (if uri_plain c then [c] else CHR ''%'' # put_hex (of_char c)) @ encodeURIComponent cs"
  by (simp add: encodeURIComponent_def)

lemma pct_decode_encode: "list_all (\<lambda>c. \<not> unpadded c) s \<Longrightarrow> pct_decode (encodeURIComponent s) = Some s"
proof (induction s)
  case Nil
  show ?case by (simp add: encodeURIComponent_def)
next
  case (Cons c s)
  then have IH: "pct_decode (encodeURIComponent s) = Some s" and u: "16 \<le> (of_char c :: nat)"
    by (simp_all add: unpadded_def)
  show ?case
  proof (cases "uri_plain c")
    case True
    then have "c \<noteq> CHR ''%''" by (auto simp: uri_plain_def)
    then show ?thesis using True IH by (simp add: encode_Cons)
  next
    case False
    have "(of_char c :: nat) div 16 < 16" using of_char_less [of c] by (simp add: less_mult_imp_div_less)
    then have "hex_value (hex_digit (of_char c div 16)) = Some (of_char c div 16)"
      "hex_value (hex_digit (of_char c mod 16)) = Some (of_char c mod 16)"
      by (rule hex_value_digit) (rule hex_value_digit, simp)
    then show ?thesis using False IH u by (simp add: encode_Cons put_hex_def del: hex_value.simps)
  qed
qed

text \<open>C18: percent-encoding a value and decoding it again gives the value back, as long as it has no
  control character below 16. Of those the encoder writes a single hexadecimal digit, so that such
  a character and the digit behind it are taken for one escaped byte.\<close>

theorem encode_roundtrip:
  "(list_all (\<lambda>c. \<not> unpadded c) s \<longrightarrow> pct_decode (encodeURIComponent s) = Some s) \<and>
   (0 < n \<and> n < 16 \<and> x < 16 \<and> \<not> uri_plain (char_of (16 * n + x)) \<longrightarrow>
      encodeURIComponent [char_of n, hex_digit x] = encodeURIComponent [char_of (16 * n + x)])"
proof (intro conjI impI)
  show "pct_decode (encodeURIComponent s) = Some s" if "list_all (\<lambda>c. \<not> unpadded c) s"
    by (rule pct_decode_encode [OF that])
next
  assume a: "0 < n \<and> n < 16 \<and> x < 16 \<and> \<not> uri_plain (char_of (16 * n + x))"
  have "\<not> uri_plain (char_of n)" using a by (simp add: uri_plain_def Let_def)
  moreover have "uri_plain (hex_digit x)"
    using a by (cases "x < 10") (simp_all add: uri_plain_def hex_digit_def Let_def)
  moreover have "(of_char (char_of (16 * n + x) :: char) :: nat) = 16 * n + x" using a by simp
  ultimately show "encodeURIComponent [char_of n, hex_digit x] = encodeURIComponent [char_of (16 * n + x)]"
    using a by (simp add: encodeURIComponent_def put_hex_def)
qed

lemma encode_roundtrip_witness:
  "pct_decode (encodeURIComponent ''a&b'') = Some ''a&b'' \<and>
   encodeURIComponent [CHR 0x0A, CHR ''B''] = encodeURIComponent [CHR 0xAB]"
proof -
  have "list_all (\<lambda>c. \<not> unpadded c) ''a&b''" by (simp add: unpadded_def)
  moreover have "\<not> uri_plain (char_of (16 * 10 + 11 :: nat))" by (simp add: uri_plain_def Let_def)
  moreover have "(char_of (10::nat) :: char) = CHR 0x0A" "hex_digit 11 = CHR ''B''"
    "(char_of (16 * 10 + 11 :: nat) :: char) = CHR 0xAB"
    by (simp_all add: hex_digit_def char_of_eq_iff del: char_of_def) 
  ultimately show ?thesis using encode_roundtrip [of "''a&b''" 10 11] by simp
qed

section \<open>The parameters of the request\<close>

text \<open>The request as a list of names and values.\<close>

definition opt_param :: "string \<Rightarrow> string option \<Rightarrow> (string \<times> string) list" where
  "opt_param key var = (case var of None \<Rightarrow> [] | Some v \<Rightarrow> [(key, v)])"

definition flag_params :: "bool \<Rightarrow> (string \<times> string) list \<Rightarrow> (string \<times> string) list" where
  "flag_params b ps = (if b then ps else [])"

definition list_params :: "string \<Rightarrow> (string \<Rightarrow> string list) \<Rightarrow> string option \<Rightarrow> (string \<times> string) list" where
  "list_params key separate var = (case var of None \<Rightarrow> [] | Some h \<Rightarrow> map (Pair key) (separate h))"

definition model_query ::
  "string option \<Rightarrow> string option \<Rightarrow> string option \<Rightarrow> string \<Rightarrow> (string \<times> string) list" where
  "model_query tier model customModel language =
     (if tier = None \<and> model = None \<and> customModel = None
      then case getLanguageInfo language of
             Some (t, m) \<Rightarrow> [(''tier'', t), (''model'', m)]
           | None \<Rightarrow> [(''tier'', ''base''), (''model'', ''general'')]
      else opt_param ''tier'' tier @ opt_param ''model'' (if customModel \<noteq> None then customModel else model))"

definition dg_query ::
  "(string option \<Rightarrow> bool) \<Rightarrow> (string \<Rightarrow> string list) \<Rightarrow> (string \<Rightarrow> string option) \<Rightarrow> int \<Rightarrow> string \<Rightarrow> bool
     \<Rightarrow> (string \<times> string) list" where
  "dg_query switch_true separate vars channels language interim =
     model_query (vars ''DEEPGRAM_SPEECH_TIER'') (vars ''DEEPGRAM_SPEECH_MODEL'')
       (vars ''DEEPGRAM_SPEECH_CUSTOM_MODEL'') language @
     opt_param ''version'' (vars ''DEEPGRAM_SPEECH_MODEL_VERSION'') @
     [(''language'', language)] @
     flag_params (channels = 2) [(''multichannel'', ''true''), (''channels'', ''2'')] @
     flag_params (vars ''DEEPGRAM_SPEECH_ENABLE_SMART_FORMAT'' \<noteq> None) [(''smart_format'', ''true''), (''no_delay'', ''true'')] @
     flag_params (vars ''DEEPGRAM_SPEECH_ENABLE_AUTOMATIC_PUNCTUATION'' \<noteq> None) [(''punctuate'', ''true'')] @
     flag_params (switch_true (vars ''DEEPGRAM_SPEECH_PROFANITY_FILTER'')) [(''profanity_filter'', ''true'')] @
     opt_param ''redact'' (vars ''DEEPGRAM_SPEECH_REDACT'') @
     flag_params (switch_true (vars ''DEEPGRAM_SPEECH_DIARIZE''))
       ((''diarize'', ''true'') # opt_param ''diarize_version'' (vars ''DEEPGRAM_SPEECH_DIARIZE_VERSION'')) @
     flag_params (switch_true (vars ''DEEPGRAM_SPEECH_NER'')) [(''ner'', ''true'')] @
     opt_param ''alternatives'' (vars ''DEEPGRAM_SPEECH_ALTERNATIVES'') @
     flag_params (switch_true (vars ''DEEPGRAM_SPEECH_NUMERALS'')) [(''numerals'', ''true'')] @
     list_params ''search'' separate (vars ''DEEPGRAM_SPEECH_SEARCH'') @
     list_params ''keywords'' separate (vars ''DEEPGRAM_SPEECH_KEYWORDS'') @
     list_params ''keyterm'' separate (vars ''DEEPGRAM_SPEECH_KEYTERMS'') @
     list_params ''replace'' separate (vars ''DEEPGRAM_SPEECH_REPLACE'') @
     opt_param ''tag'' (vars ''DEEPGRAM_SPEECH_TAG'') @
     flag_params interim [(''interim_results'', ''true'')] @
     opt_param ''endpointing'' (vars ''DEEPGRAM_SPEECH_ENDPOINTING'') @
     opt_param ''utterance_end_ms'' (vars ''DEEPGRAM_SPEECH_UTTERANCE_END_MS'') @
     opt_param ''vad_turnoff'' (vars ''DEEPGRAM_SPEECH_VAD_TURNOFF'') @
     [(''encoding'', ''linear16''), (''sample_rate'', ''8000'')]"

text \<open>Rendering, and the parser at the other end: split at the ampersands, then at the first equals
  sign, then decode.\<close>

definition render_param :: "string \<times> string \<Rightarrow> string" where
  "render_param p = fst p @ ''='' @ encodeURIComponent (snd p)"

definition render_rest :: "(string \<times> string) list \<Rightarrow> string" where
  "render_rest ps = concat (map (\<lambda>p. CHR ''&'' # render_param p) ps)"

fun render :: "(string \<times> string) list \<Rightarrow> string" where
  "render [] = []"
| "render (p # ps) = render_param p @ render_rest ps"

fun split_on :: "char \<Rightarrow> string \<Rightarrow> string list" where
  "split_on d [] = [[]]"
| "split_on d (c # cs) =
     (if c = d then [] # split_on d cs
      else case split_on d cs of [] \<Rightarrow> [[c]] | t # ts \<Rightarrow> (c # t) # ts)"

definition parse_param :: "string \<Rightarrow> string \<times> string option" where
  "parse_param s =
     (takeWhile (\<lambda>c. c \<noteq> CHR ''='') s, pct_decode (drop 1 (dropWhile (\<lambda>c. c \<noteq> CHR ''='') s)))"

definition parse_query :: "string \<Rightarrow> (string \<times> string option) list" where
  "parse_query s = map parse_param (split_on (CHR ''&'') s)"

named_theorems render_simps

lemma render_rest_append [render_simps]: "render_rest (xs @ ys) = render_rest xs @ render_rest ys"
  by (simp add: render_rest_def)

lemma render_rest_Nil [render_simps]: "render_rest [] = []"
  by (simp add: render_rest_def)

lemma render_rest_Cons [render_simps]: "render_rest (p # ps) = CHR ''&'' # render_param p @ render_rest ps"
  by (simp add: render_rest_def)

lemma render_rest_opt [render_simps]: "render_rest (opt_param key var) = valued key var"
  by (simp add: render_rest_def opt_param_def valued_def render_param_def split: option.splits)

lemma render_rest_flag [render_simps]: "render_rest (flag_params b ps) = (if b then render_rest ps else [])"
  by (simp add: flag_params_def render_rest_Nil)

lemma render_rest_list [render_simps]:
  "render_rest (list_params key separate var) =
     (case var of None \<Rightarrow> [] | Some h \<Rightarrow> phrase_params key (separate h))"
  by (simp add: render_rest_def list_params_def phrase_params_def render_param_def comp_def split: option.splits)

lemma plain_id: "list_all uri_plain s \<Longrightarrow> encodeURIComponent s = s"
  by (induction s) (simp_all add: encodeURIComponent_def)

lemma plain_constants:
  "encodeURIComponent ''true'' = ''true''" "encodeURIComponent ''2'' = ''2''"
  "encodeURIComponent ''linear16'' = ''linear16''" "encodeURIComponent ''8000'' = ''8000''"
  "encodeURIComponent ''base'' = ''base''" "encodeURIComponent ''general'' = ''general''"
  "encodeURIComponent ''nova'' = ''nova''" "encodeURIComponent ''enhanced'' = ''enhanced''"
  "encodeURIComponent ''phonecall'' = ''phonecall''"
  by (rule plain_id, simp add: uri_plain_def Let_def)+

lemma languageLookupTable_values:
  "getLanguageInfo l = Some (t, m) \<Longrightarrow> t \<in> {''base'', ''enhanced'', ''nova''} \<and> m \<in> {''general'', ''phonecall''}"
proof -
  assume "getLanguageInfo l = Some (t, m)"
  then have "(l, t, m) \<in> set languageLookupTable" by (simp add: getLanguageInfo_def map_of_SomeD)
  then have "(t, m) \<in> snd ` set languageLookupTable" by (force intro: image_eqI [of _ _ "(l, t, m)"])
  then show ?thesis by (auto simp: languageLookupTable_def)
qed

lemma render_model:
  "render (model_query tier model custom language @ ps) =
     dg_model_params tier model custom language @ render_rest ps"
proof (cases "tier = None \<and> model = None \<and> custom = None")
  case True
  then show ?thesis using languageLookupTable_values [of language]
    by (auto simp: model_query_def dg_model_params_def render_param_def render_rest_append render_rest_Cons
        render_rest_Nil plain_constants split: option.splits)
next
  case False
  then show ?thesis
    by (cases tier; cases custom; cases model)
      (simp_all add: model_query_def dg_model_params_def opt_param_def render_param_def render_rest_append
        render_rest_Cons render_rest_Nil)
qed

lemma constructPath_render:
  "constructPath st sep vars channels language interim =
     ''/v1/listen?'' @ render (dg_query st sep vars channels language interim)"
  unfolding constructPath_def dg_query_def render_model
  by (simp add: render_simps render_param_def plain_constants cong: if_cong)

section \<open>The far end reads the settings\<close>

lemma hex_digit_set: "n < 16 \<Longrightarrow> hex_digit n \<noteq> CHR ''&'' \<and> hex_digit n \<noteq> CHR ''=''"
  by (cases "n < 10") (auto simp: hex_digit_def dest!: arg_cong [where f = "of_char :: char \<Rightarrow> nat"])

lemma encode_no_amp: "CHR ''&'' \<notin> set (encodeURIComponent s)"
proof (induction s)
  case (Cons c s)
  have "(of_char c :: nat) div 16 < 16" using of_char_less [of c] by (simp add: less_mult_imp_div_less)
  then have "CHR ''&'' \<notin> set (put_hex (of_char c))"
    using hex_digit_set [of "of_char c"] hex_digit_set [of "of_char c div 16"] hex_digit_set [of "of_char c mod 16"]
    by (auto simp: put_hex_def)
  moreover have "uri_plain c \<Longrightarrow> c \<noteq> CHR ''&''" by (auto simp: uri_plain_def)
  ultimately show ?case using Cons.IH by (auto simp: encode_Cons)
qed (simp add: encodeURIComponent_def)

lemma split_on_none: "d \<notin> set x \<Longrightarrow> split_on d x = [x]"
  by (induction x) auto

lemma split_on_append: "d \<notin> set x \<Longrightarrow> split_on d (x @ d # y) = x # split_on d y"
  by (induction x) auto

lemma takeWhile_key: "d \<notin> set k \<Longrightarrow> takeWhile (\<lambda>c. c \<noteq> d) (k @ d # v) = k"
  "d \<notin> set k \<Longrightarrow> dropWhile (\<lambda>c. c \<noteq> d) (k @ d # v) = d # v"
  by (induction k) auto

definition param_ok :: "string \<times> string \<Rightarrow> bool" where
  "param_ok p \<longleftrightarrow> CHR ''&'' \<notin> set (fst p) \<and> CHR ''='' \<notin> set (fst p) \<and> list_all (\<lambda>c. \<not> unpadded c) (snd p)"

lemma parse_render_param: "param_ok p \<Longrightarrow> parse_param (render_param p) = (fst p, Some (snd p))"
  by (simp add: param_ok_def parse_param_def render_param_def takeWhile_key pct_decode_encode)

lemma render_param_no_amp: "param_ok p \<Longrightarrow> CHR ''&'' \<notin> set (render_param p)"
  using encode_no_amp by (simp add: param_ok_def render_param_def)

lemma parse_rest:
  "param_ok p \<Longrightarrow> list_all param_ok ps \<Longrightarrow>
     parse_query (render_param p @ render_rest ps) = map (\<lambda>p. (fst p, Some (snd p))) (p # ps)"
proof (induction ps arbitrary: p)
  case Nil
  then show ?case
    by (simp add: parse_query_def render_rest_Nil split_on_none render_param_no_amp parse_render_param)
next
  case (Cons q ps)
  then have IH: "parse_query (render_param q @ render_rest ps) = map (\<lambda>p. (fst p, Some (snd p))) (q # ps)"
    by simp
  have "split_on CHR ''&'' (render_param p @ CHR ''&'' # render_param q @ render_rest ps)
      = render_param p # split_on CHR ''&'' (render_param q @ render_rest ps)"
    using split_on_append [OF render_param_no_amp [OF Cons.prems(1)]] .
  then show ?case using IH Cons.prems(1) by (simp add: parse_query_def render_rest_Cons parse_render_param)
qed

definition printable :: "string \<Rightarrow> bool" where
  "printable s \<longleftrightarrow> list_all (\<lambda>c. \<not> unpadded c) s"

lemma model_once:
  "length (filter (\<lambda>p. fst p = ''model'') (dg_query st sep vars channels language interim)) \<le> 1"
proof -
  have o: "filter (\<lambda>p. fst p = ''model'') (opt_param k v) = []" if "k \<noteq> ''model''" for k v
    using that by (simp add: opt_param_def split: option.splits)
  have l: "filter (\<lambda>p. fst p = ''model'') (list_params k sp v) = []" if "k \<noteq> ''model''" for k sp v
    using that by (simp add: list_params_def filter_map comp_def split: option.splits)
  have f: "filter Q (flag_params b ps) = flag_params b (filter Q ps)" for Q :: "string \<times> string \<Rightarrow> bool" and b ps
    by (simp add: flag_params_def)
  have n: "flag_params b [] = []" for b by (simp add: flag_params_def)
  have m: "length (filter (\<lambda>p. fst p = ''model'') (model_query t mo c la)) \<le> 1" for t mo c la
    by (auto simp: model_query_def o opt_param_def split: option.splits)
  show ?thesis using m by (simp add: dg_query_def o l f n)
qed

text \<open>The names never contain a separator.\<close>

definition key_ok :: "string \<times> string \<Rightarrow> bool" where
  "key_ok p \<longleftrightarrow> CHR ''&'' \<notin> set (fst p) \<and> CHR ''='' \<notin> set (fst p)"

lemma keys_ok: "list_all key_ok (dg_query st sep vars channels language interim)"
proof -
  have o: "list_all key_ok (opt_param k v)" if "key_ok (k, [])" for k v
    using that by (simp add: opt_param_def key_ok_def split: option.splits)
  have l: "list_all key_ok (list_params k sp v)" if "key_ok (k, [])" for k sp v
    using that by (auto simp: list_params_def key_ok_def list_all_iff split: option.splits)
  have f: "list_all key_ok (flag_params b ps)" if "list_all key_ok ps" for b ps
    using that by (simp add: flag_params_def)
  have m: "list_all key_ok (model_query t mo c la)" for t mo c la
    by (auto simp: model_query_def o opt_param_def key_ok_def split: option.splits)
  show ?thesis by (simp add: dg_query_def o l f m key_ok_def)
qed

lemma dg_query_not_Nil: "dg_query st sep vars channels language interim \<noteq> []"
  by (simp add: dg_query_def)



section \<open>Discarded messages\<close>

text \<open>The values of the transcript strings below a node, in order.\<close>

primrec transcripts :: "cnode \<Rightarrow> string option list"
  and transcripts_in :: "cnode list \<Rightarrow> string option list" where
  "transcripts (CNode s ty v cs) = transcripts_in cs"
| "transcripts_in [] = []"
| "transcripts_in (child # rest) =
     (if is_transcript child then [n_valuestring child] else []) @
     (if n_type child AND 0xFF \<in> {cJSON_Object, cJSON_Array} then transcripts child else []) @
     transcripts_in rest"

definition has_text :: "string option \<Rightarrow> bool" where
  "has_text v \<longleftrightarrow> v \<noteq> None \<and> v \<noteq> Some []"

lemma countChildren_eq:
  assumes "\<And>child c. child \<in> set cs \<Longrightarrow>
      countTranscripts child c = (fst c + length (transcripts child), snd c + length (filter has_text (transcripts child)))"
  shows "countChildren cs c = (fst c + length (transcripts_in cs), snd c + length (filter has_text (transcripts_in cs)))"
  using assms by (induction cs arbitrary: c) (simp_all add: Let_def has_text_def)

lemma countTranscripts_eq:
  "countTranscripts node c = (fst c + length (transcripts node), snd c + length (filter has_text (transcripts node)))"
proof (induction node arbitrary: c)
  case (CNode s ty v cs)
  then show ?case using countChildren_eq [of cs c] by simp
qed

text \<open>C20: a message is discarded exactly when it can be parsed, holds at least one transcript, at any
  depth, and all of its transcripts are empty; one transcript with text anywhere saves it.\<close>

theorem discards_exactly:
  "discards parse message \<longleftrightarrow>
     (\<exists>json. parse message = Some json \<and> transcripts json \<noteq> [] \<and> (\<forall>v\<in>set (transcripts json). \<not> has_text v))"
  by (auto simp: discards_def countTranscripts_eq filter_empty_conv split: option.splits)

lemma discards_exactly_witness:
  "discards (\<lambda>_. Some (CNode None 64 None [CNode (Some ''transcript'') 16 (Some []) []])) ''x''"
proof -
  let ?j = "CNode None 64 None [CNode (Some ''transcript'') 16 (Some []) []]"
  have "transcripts ?j \<noteq> [] \<and> (\<forall>v\<in>set (transcripts ?j). \<not> has_text v)"
    by (simp add: is_transcript_def cJSON_String_def cJSON_Object_def cJSON_Array_def has_text_def)
  then show ?thesis using discards_exactly [of "\<lambda>_. Some ?j" "''x''"] by simp
qed

end
