(* ===== verification/DgPipe.thy ===== *)
theory DgPipe
  imports PipeHandlers
begin

text \<open>
  \<open>AudioPipe\<close> of \<^verbatim>\<open>modules/mod_deepgram_transcribe/audio_pipe.cpp\<close>: what this copy adds to the shared
  text, its handlers as instances of the shared ones, and its transition system. In place of a
  graceful shutdown with an empty frame, \<open>finish()\<close> sends one CloseStream message and the far end
  closes the connection.
\<close>

section \<open>State\<close>

record dg_pipe = pipe +
  m_apiKey :: string
  m_finished :: bool

type_synonym dg_note = "string \<times> notify_event \<times> string option \<times> bool"
type_synonym dg_world = "(dg_pipe, dg_note) world"

definition dg_notify :: "(dg_pipe, dg_note) note_fn" where
  "dg_notify p ev msg = (c_str (m_uuid p), ev, map_option c_str msg, m_finished p)"

record dg_args =
  da_uuid :: string
  da_host :: string
  da_port :: nat
  da_path :: string
  da_bufLen :: nat
  da_minFreespace :: nat
  da_apiKey :: string
  da_block :: "u8 list"
  da_junk :: nat

definition dg_AudioPipe_new :: "nat \<Rightarrow> dg_args \<Rightarrow> dg_pipe" where
  "dg_AudioPipe_new LWS_PRE a =
     pipe.extend
       (pipe_init LWS_PRE (da_uuid a) (da_host a) (da_port a) (da_path a) (da_bufLen a)
          (da_minFreespace a) (da_block a) (da_junk a))
       (dg_pipe.fields (da_apiKey a) False)"

section \<open>Operations of the module's threads\<close>

definition CLOSE_STREAM :: string where
  \<open>CLOSE_STREAM = ''{"type": "CloseStream"}''\<close>

definition dg_close :: "ptr \<Rightarrow> dg_world \<Rightarrow> ub + dg_world" where
  "dg_close ap w =
     andthen (deref w ap) (\<lambda>p.
       if m_state p \<noteq> LWS_CLIENT_CONNECTED then Inr w else addPendingDisconnect ap w)"

text \<open>The second test of the state in \<open>finish()\<close> cannot differ from the first within one step.\<close>

definition dg_finish :: "ptr \<Rightarrow> dg_world \<Rightarrow> ub + dg_world" where
  "dg_finish ap w =
     andthen (deref w ap) (\<lambda>p.
       if m_state p \<noteq> LWS_CLIENT_CONNECTED
       then Inr (set_pipe ap (p\<lparr>m_gracefulShutdown := True\<rparr>) w)
       else if m_finished p then Inr w
       else bufferForSending CLOSE_STREAM ap (set_pipe ap (p\<lparr>m_finished := True\<rparr>) w))"

section \<open>Handlers of the service thread\<close>

text \<open>APPEND_HANDSHAKE_HEADER: the 256 bytes of the stack block, then the header added.\<close>

definition dg_token_header :: "string \<Rightarrow> ub + string option" where
  "dg_token_header apiKey =
     (if length apiKey + 7 > 256 then Inr None
      else let b = replicate 256 CHR 0x00; b1 = splice 0 (''Token '' @ [CHR 0x00]) b
        in if 6 + length (c_str apiKey) + 1 > 256 then Inl HeapOverflow
           else Inr (Some (c_str (splice 6 (c_str apiKey @ [CHR 0x00]) b1))))"

definition dg_on_append_header :: "bool \<Rightarrow> wsi \<Rightarrow> dg_world \<Rightarrow> ub + int \<times> string option" where
  "dg_on_append_header add_ok x w =
     andthen (findPendingConnect x w) (\<lambda>r. case r of
         None \<Rightarrow> Inr (0, None)
       | Some ap \<Rightarrow> andthen (deref w ap) (\<lambda>p.
           andthen (dg_token_header (m_apiKey p)) (\<lambda>h. case h of
               None \<Rightarrow> Inr (-1, None)
             | Some b \<Rightarrow> if \<not> add_ok then Inr (-1, None) else Inr (0, Some b))))"

definition dg_on_established :: "wsi \<Rightarrow> ctx \<Rightarrow> dg_world \<Rightarrow> ub + dg_world" where
  "dg_on_established x vhd w =
     andthen (findAndRemovePendingConnect x w) (\<lambda>(r, w1). case r of
         None \<Rightarrow> Inr w1
       | Some ap \<Rightarrow>
           andthen (modify ap (\<lambda>p. Inr (p\<lparr>m_vhd := Some vhd, m_state := LWS_CLIENT_CONNECTED\<rparr>))
                     (w1\<lparr>wsi_user := (wsi_user w1)(x := Some ap)\<rparr>)) (\<lambda>w2.
           andthen (deref w2 ap) (\<lambda>p2.
           andthen (if m_gracefulShutdown p2 then dg_finish ap w2 else Inr w2) (\<lambda>w3.
             notify dg_notify ap CONNECT_SUCCESS None w3))))"

definition dg_on_receive :: "wsi \<Rightarrow> rx_event \<Rightarrow> dg_world \<Rightarrow> ub + dg_world" where
  "dg_on_receive = on_receive dg_notify"

definition dg_on_writeable :: "nat \<Rightarrow> int \<Rightarrow> wsi \<Rightarrow> dg_world \<Rightarrow> ub + int \<times> dg_world" where
  "dg_on_writeable LWS_PRE ret x w =
     (case wsi_user w x of
        None \<Rightarrow> Inr (0, w)
      | Some ap \<Rightarrow> andthen (deref w ap) (\<lambda>p. write_pending LWS_PRE ret x ap p w))"

definition dg_on_closed :: "wsi \<Rightarrow> dg_world \<Rightarrow> ub + dg_world" where
  "dg_on_closed = closed_handle dg_notify"

definition dg_on_connection_error :: "wsi \<Rightarrow> string option \<Rightarrow> dg_world \<Rightarrow> ub + dg_world" where
  "dg_on_connection_error = on_connection_error dg_notify"

definition dg_on_wait_cancelled :: "ctx \<Rightarrow> (ptr \<Rightarrow> wsi option) \<Rightarrow> dg_world \<Rightarrow> ub + dg_world" where
  "dg_on_wait_cancelled = on_wait_cancelled dg_notify"

definition dg_connect :: "ptr \<Rightarrow> dg_world \<Rightarrow> ub + dg_world" where
  "dg_connect = addPendingConnect dg_notify"

definition dg_media ::
  "nat \<Rightarrow> nat \<Rightarrow> (unit \<Rightarrow> u8 list \<Rightarrow> nat \<Rightarrow> u8 list \<times> unit) option \<Rightarrow> u8 list list \<Rightarrow> bool \<Rightarrow> ptr \<Rightarrow> dg_world
     \<Rightarrow> ub + (bool \<times> nat) \<times> dg_world" where
  "dg_media = media_frames"

section \<open>The transition system\<close>

datatype dg_action =
    DNew ptr dg_args
  | DConnect ptr
  | DMedia ptr nat "(unit \<Rightarrow> u8 list \<Rightarrow> nat \<Rightarrow> u8 list \<times> unit) option" "u8 list list" bool
  | DFinish ptr
  | DClose ptr
  | DDelete ptr
  | DWaitCancelled ctx "ptr \<Rightarrow> wsi option"
  | DEstablished wsi ctx
  | DConnectionError wsi "string option"
  | DReceive wsi rx_event
  | DWriteable wsi int
  | DClosed wsi

fun dg_exec :: "nat \<Rightarrow> dg_action \<Rightarrow> dg_world \<Rightarrow> ub + dg_world" where
  "dg_exec LWS_PRE (DNew ap a) w = Inr (set_pipe ap (dg_AudioPipe_new LWS_PRE a) w)"
| "dg_exec LWS_PRE (DConnect ap) w = dg_connect ap w"
| "dg_exec LWS_PRE (DMedia ap channels resampler frames notified) w =
     andthen (dg_media LWS_PRE channels resampler frames notified ap w) (\<lambda>(_, w1). Inr w1)"
| "dg_exec LWS_PRE (DFinish ap) w = dg_finish ap w"
| "dg_exec LWS_PRE (DClose ap) w = dg_close ap w"
| "dg_exec LWS_PRE (DDelete ap) w = destroy_pipe ap w"
| "dg_exec LWS_PRE (DWaitCancelled vhd conn) w = dg_on_wait_cancelled vhd conn w"
| "dg_exec LWS_PRE (DEstablished x vhd) w = dg_on_established x vhd (w\<lparr>wsi_ph := (wsi_ph w)(x := WOpen)\<rparr>)"
| "dg_exec LWS_PRE (DConnectionError x msg) w =
     andthen (dg_on_connection_error x msg w) (\<lambda>w1. Inr (w1\<lparr>wsi_ph := (wsi_ph w1)(x := WClosed)\<rparr>))"
| "dg_exec LWS_PRE (DReceive x e) w = dg_on_receive x e w"
| "dg_exec LWS_PRE (DWriteable x ret) w =
     andthen (dg_on_writeable LWS_PRE ret x (w\<lparr>writable := removeAll x (writable w)\<rparr>)) (\<lambda>(rc, w1).
       if rc < 0 then dg_on_closed x w1 else Inr w1)"
| "dg_exec LWS_PRE (DClosed x) w = dg_on_closed x w"

fun dg_enabled :: "nat \<Rightarrow> dg_action \<Rightarrow> dg_world \<Rightarrow> bool" where
  "dg_enabled LWS_PRE (DNew ap a) w \<longleftrightarrow>
     heap w ap = None \<and> length (da_block a) = da_bufLen a \<and> LWS_PRE \<le> da_bufLen a"
| "dg_enabled LWS_PRE (DConnect ap) w \<longleftrightarrow>
     (case heap w ap of None \<Rightarrow> False | Some p \<Rightarrow> m_state p = LWS_CLIENT_IDLE)"
| "dg_enabled LWS_PRE (DMedia ap channels resampler frames notified) w \<longleftrightarrow>
     media_enabled LWS_PRE ap channels resampler frames w"
| "dg_enabled LWS_PRE (DFinish ap) w \<longleftrightarrow> heap w ap \<noteq> None"
| "dg_enabled LWS_PRE (DClose ap) w \<longleftrightarrow> heap w ap \<noteq> None"
| "dg_enabled LWS_PRE (DDelete ap) w \<longleftrightarrow>
     (case heap w ap of None \<Rightarrow> False | Some p \<Rightarrow> waitForClose_returns p)"
| "dg_enabled LWS_PRE (DWaitCancelled vhd conn) w \<longleftrightarrow> fresh_conn conn (pendingConnects w) w"
| "dg_enabled LWS_PRE (DEstablished x vhd) w \<longleftrightarrow> wsi_ph w x = WOpening"
| "dg_enabled LWS_PRE (DConnectionError x msg) w \<longleftrightarrow> wsi_ph w x = WOpening"
| "dg_enabled LWS_PRE (DReceive x e) w \<longleftrightarrow> receive_enabled x e w"
| "dg_enabled LWS_PRE (DWriteable x ret) w \<longleftrightarrow> wsi_ph w x = WOpen \<and> x \<in> set (writable w)"
| "dg_enabled LWS_PRE (DClosed x) w \<longleftrightarrow> wsi_ph w x = WOpen"

definition dg_start :: "dg_world \<Rightarrow> bool" where
  "dg_start w \<longleftrightarrow> heap w = (\<lambda>_. None) \<and> pendingConnects w = [] \<and> pendingDisconnects w = [] \<and>
     pendingWrites w = [] \<and> wsi_user w = (\<lambda>_. None) \<and> wsi_ph w = (\<lambda>_. WNone) \<and> sent w = []"

inductive dg_reach :: "nat \<Rightarrow> dg_world \<Rightarrow> bool" for LWS_PRE where
  start: "dg_start w \<Longrightarrow> dg_reach LWS_PRE w"
| step: "dg_reach LWS_PRE w \<Longrightarrow> dg_enabled LWS_PRE a w \<Longrightarrow> dg_exec LWS_PRE a w = Inr w'
    \<Longrightarrow> dg_reach LWS_PRE w'"

end
