(* ===== verification/DgSafe.thy ===== *)
theory DgSafe
  imports DgPipe
begin

text \<open>
  Safety of every step on the pipes of mod_deepgram_transcribe: the shared lemmas for this copy, and
  what it adds, \<open>finish()\<close> and its completion at ESTABLISHED.
\<close>

section \<open>The extra invariant of this copy\<close>

text \<open>A request to finish is never left waiting on a CONNECTED pipe.\<close>

definition dg_extra :: "dg_pipe \<Rightarrow> bool" where
  "dg_extra p \<longleftrightarrow> (m_state p = LWS_CLIENT_CONNECTED \<and> m_gracefulShutdown p \<longrightarrow> m_finished p)"

lemma more_finished:
  fixes p q :: dg_pipe
  shows "pipe.more q = pipe.more p \<Longrightarrow> m_finished q = m_finished p"
  by (cases p, cases q) simp

interpretation dg: pipe_extra dg_extra
  by unfold_locales (auto simp: dg_extra_def dest: more_finished)

abbreviation dg_inv :: "nat \<Rightarrow> dg_world \<Rightarrow> bool" where
  "dg_inv pre w \<equiv> world_ok pre dg_extra {} w"

lemma recv_ok_finished [simp]:
  fixes p :: dg_pipe
  shows "recv_ok (p\<lparr>m_finished := b\<rparr>) = recv_ok p" "promise_ok (p\<lparr>m_finished := b\<rparr>) = promise_ok p"
    "audio_ok pre (p\<lparr>m_finished := b\<rparr>) = audio_ok pre p"
  by (simp_all add: recv_ok_def in_message_def recv_mid_def recv_idle_def promise_ok_def audio_ok_def)

section \<open>Every step preserves the invariant\<close>

lemma dg_start_inv: "dg_start w \<Longrightarrow> dg_inv pre w"
  by (auto simp: dg_start_def world_ok_def pending_def)

lemma dg_AudioPipe_new_ok:
  assumes "length (da_block a) = da_bufLen a" "pre \<le> da_bufLen a"
  shows "pipe_ok pre (dg_AudioPipe_new pre a)" "dg_extra (dg_AudioPipe_new pre a)"
    "m_state (dg_AudioPipe_new pre a) = LWS_CLIENT_IDLE"
  using assms
  by (simp_all add: dg_AudioPipe_new_def pipe_init_def pipe.defs dg_pipe.defs pipe_ok_def dg_extra_def
      promise_ok_def audio_ok_def recv_ok_def in_message_def recv_idle_def)

lemma dg_close_ok:
  assumes w: "dg_inv pre w" and h: "heap w ap = Some p"
  shows "\<exists>w'. dg_close ap w = Inr w' \<and> dg_inv pre w'"
  using dg.addPendingDisconnect_ok [OF w h] h w
  by (auto simp: dg_close_def deref_def)

text \<open>\<open>finish()\<close> on a connected pipe that has not been finished.\<close>

lemma dg_finish_first:
  assumes h: "heap w ap = Some p" "m_state p = LWS_CLIENT_CONNECTED" "\<not> m_finished p" "m_vhd p = Some c"
  shows "dg_finish ap w = Inr (lws_cancel_service c
    ((set_pipe ap (p\<lparr>m_finished := True, m_metadata := m_metadata p @ CLOSE_STREAM\<rparr>) w)
       \<lparr>pendingWrites := pendingWrites w @ [ap]\<rparr>))"
  using h by (simp add: dg_finish_def deref_def bufferForSending_def set_pipe_def addPendingWrite_def
      vhd_context_def)

lemma dg_finish_ok:
  assumes w: "dg_inv pre w" and h: "heap w ap = Some p"
  shows "\<exists>w'. dg_finish ap w = Inr w' \<and> dg_inv pre w'"
proof (cases "m_state p = LWS_CLIENT_CONNECTED \<and> \<not> m_finished p")
  case True
  then obtain c where c: "m_vhd p = Some c" using world_okD(1) [OF w h] by (auto simp: pipe_ok_def)
  let ?q = "p\<lparr>m_finished := True, m_metadata := m_metadata p @ CLOSE_STREAM\<rparr>"
  have "pipe_ok pre ?q" "dg_extra ?q" "linked {} w ap ?q"
    using world_okD [OF w h] True by (simp_all add: pipe_ok_def dg_extra_def linked_def)
  then have "dg_inv pre (set_pipe ap ?q w)" by (intro world_ok_set_pipe [OF w h]) simp_all
  then have "dg_inv pre (lws_cancel_service c ((set_pipe ap ?q w)\<lparr>pendingWrites := pendingWrites w @ [ap]\<rparr>))"
    by (rule world_ok_lists) (auto simp: world_simps)
  then show ?thesis using dg_finish_first [of w ap p c] h True c by simp
next
  case False
  show ?thesis
  proof (cases "m_state p = LWS_CLIENT_CONNECTED")
    case True
    then show ?thesis using False h w by (simp add: dg_finish_def deref_def)
  next
    case no: False
    let ?q = "p\<lparr>m_gracefulShutdown := True\<rparr>"
    have "pipe_ok pre ?q" "dg_extra ?q" "linked {} w ap ?q"
      using world_okD [OF w h] no by (simp_all add: pipe_ok_def dg_extra_def linked_def)
    then have "dg_inv pre (set_pipe ap ?q w)" by (intro world_ok_set_pipe [OF w h]) simp_all
    then show ?thesis using h no by (simp add: dg_finish_def deref_def)
  qed
qed

text \<open>What ESTABLISHED makes of the pipe of its handle.\<close>

definition established :: "ctx \<Rightarrow> dg_pipe \<Rightarrow> dg_pipe" where
  "established vhd p =
     (let q = p\<lparr>m_vhd := Some vhd, m_state := LWS_CLIENT_CONNECTED\<rparr>
      in if m_gracefulShutdown p \<and> \<not> m_finished p
         then q\<lparr>m_finished := True, m_metadata := m_metadata p @ CLOSE_STREAM\<rparr> else q)"

lemma dg_on_established_ok:
  assumes w: "dg_inv pre w" and x: "wsi_ph w x = WOpening"
  shows "\<exists>w'. dg_on_established x vhd (w\<lparr>wsi_ph := (wsi_ph w)(x := WOpen)\<rparr>) = Inr w' \<and> dg_inv pre w' \<and>
    heap w' = (\<lambda>ap. if connecting_on x w ap then map_option (established vhd) (heap w ap) else heap w ap) \<and>
    sent w' = sent w \<and> wsi_ph w' = (wsi_ph w)(x := WOpen)"
proof -
  let ?w0 = "w\<lparr>wsi_ph := (wsi_ph w)(x := WOpen)\<rparr>"
  obtain r w1 where f: "findAndRemovePendingConnect x w = Inr (r, w1)"
    "w1 = w\<lparr>pendingConnects := pendingConnects w1\<rparr>"
    "case r of None \<Rightarrow> dg_inv pre w1 \<and> (\<forall>ap. \<not> connecting_on x w ap)
     | Some ap \<Rightarrow> world_ok_but pre dg_extra ap {} w1 \<and> connecting_on x w ap"
    using findAndRemovePendingConnect_ok [OF w] by blast
  have h1: "heap w1 = heap w" "wsi_ph w1 = wsi_ph w" "sent w1 = sent w" by (subst f(2), simp)+
  let ?w1 = "w1\<lparr>wsi_ph := (wsi_ph w)(x := WOpen)\<rparr>"
  have scan: "scan_connects x aps ?w0 = scan_connects x aps w" for aps
    by (induction aps) (simp_all add: deref_def Let_def cong: if_cong)
  have f0: "findAndRemovePendingConnect x ?w0 = Inr (r, ?w1)"
    using f(1) by (auto simp: findAndRemovePendingConnect_def scan andthen_Inr_iff Let_def
        split: prod.splits)
  show ?thesis
  proof (cases r)
    case None
    with f(3) have "dg_inv pre (w1\<lparr>wsi_ph := (wsi_ph w1)(x := WOpen)\<rparr>)"
      using h1 by (intro dg.world_ok_phase) (auto simp: connecting_on_def)
    then show ?thesis using f0 None h1 f(3) by (simp add: dg_on_established_def)
  next
    case (Some ap)
    with f(3) have but: "world_ok_but pre dg_extra ap {} w1" and c: "connecting_on x w ap" by simp_all
    then obtain p where p: "heap w ap = Some p" "m_state p = LWS_CLIENT_CONNECTING" "m_wsi p = Some x"
      by (auto simp: connecting_on_def split: option.splits)
    have pok: "pipe_ok pre p" using world_okD(1) [OF w p(1)] .
    have uniq: "connecting_on x w a \<longleftrightarrow> a = ap" for a
      using c world_ok_inj [OF w _ p(1) _ p(3), of a] by (auto simp: connecting_on_def split: option.splits)
    let ?q = "p\<lparr>m_vhd := Some vhd, m_state := LWS_CLIENT_CONNECTED\<rparr>"
    let ?r = "established vhd p"
    define w2 where "w2 = set_pipe ap ?q (?w1\<lparr>wsi_user := (wsi_user w1)(x := Some ap)\<rparr>)"
    have h2: "heap w2 ap = Some ?q" by (simp add: w2_def set_pipe_def)
    define w3 where "w3 = (if m_gracefulShutdown p \<and> \<not> m_finished p
      then lws_cancel_service vhd ((set_pipe ap ?r w2)\<lparr>pendingWrites := pendingWrites w2 @ [ap]\<rparr>) else w2)"
    have fin: "(if m_gracefulShutdown p then dg_finish ap w2 else Inr w2) = Inr w3"
    proof (cases "m_gracefulShutdown p \<and> \<not> m_finished p")
      case True
      then show ?thesis using dg_finish_first [of w2 ap ?q vhd] h2 by (simp add: w3_def established_def)
    next
      case False
      then show ?thesis using h2 by (auto simp: w3_def dg_finish_def deref_def)
    qed
    have h3: "heap w3 = (heap w)(ap := Some ?r)"
      by (auto simp: w3_def w2_def world_simps h1 established_def Let_def)
    let ?w4 = "w3\<lparr>notifications := notifications w3 @ [(ap, dg_notify ?r CONNECT_SUCCESS None)]\<rparr>"
    have "dg_on_established x vhd ?w0 = Inr ?w4"
      using f0 Some p(1) h1 h2 fin h3
      by (simp add: dg_on_established_def w2_def [symmetric] modify_def deref_def notify_def)
    moreover have "pipe_ok pre ?r" "dg_extra ?r" "m_wsi ?r = Some x" "m_state ?r = LWS_CLIENT_CONNECTED"
      using pok p by (simp_all add: established_def Let_def pipe_ok_def dg_extra_def)
    then have "dg_inv pre ?w4"
      using p h1 h3
      by (intro dg.world_ok_attach [OF but, of p x ?r ?w4])
        (auto simp: w3_def w2_def world_simps)
    moreover have "heap ?w4 = (\<lambda>a. if connecting_on x w a then map_option (established vhd) (heap w a) else heap w a)"
      using h3 p(1) uniq by (simp add: fun_eq_iff)
    moreover have "sent ?w4 = sent w" "wsi_ph ?w4 = (wsi_ph w)(x := WOpen)"
      by (simp_all add: w3_def w2_def world_simps h1)
    ultimately show ?thesis by blast
  qed
qed

lemma dg_writeable_ok:
  assumes w: "dg_inv pre w" and x: "wsi_ph w x = WOpen"
  shows "\<exists>w'. dg_exec pre (DWriteable x ret) w = Inr w' \<and> dg_inv pre w'"
proof (cases "wsi_user w x")
  case None
  have "dg_inv pre (w\<lparr>writable := removeAll x (writable w), sent := sent w\<rparr>)"
    by (rule dg.world_ok_consume [OF w]) (use None in auto)
  then show ?thesis using None by (simp add: dg_on_writeable_def)
next
  case (Some ap)
  then obtain p where p: "heap w ap = Some p" using world_ok_user [OF w] by blast
  obtain rc w1 w' where "write_pending pre ret x ap p (w\<lparr>writable := removeAll x (writable w)\<rparr>) = Inr (rc, w1)"
    "(if rc < 0 then closed_handle dg_notify x w1 else Inr w1) = Inr w'" "dg_inv pre w'"
    using dg.write_pending_ok [OF w x Some p] by blast
  then show ?thesis using Some p
    by (cases "rc < 0") (auto simp: dg_on_writeable_def deref_def dg_on_closed_def)
qed

lemma dg_step_ok:
  assumes w: "dg_inv pre w" and e: "dg_enabled pre a w"
  shows "\<exists>w'. dg_exec pre a w = Inr w' \<and> dg_inv pre w'"
proof (cases a)
  case (DNew ap args)
  then show ?thesis using e dg_AudioPipe_new_ok [of args pre] dg.new_pipe_ok [OF w] by simp
next
  case (DConnect ap)
  then show ?thesis using e dg.addPendingConnect_ok [OF w] by (auto simp: dg_connect_def split: option.splits)
next
  case (DMedia ap channels resampler frames notified)
  then obtain r w' where "media_frames pre channels resampler frames notified ap w = Inr (r, w')" "dg_inv pre w'"
    using dg.media_frames_ok [OF w, of ap channels resampler frames notified] e by auto
  then show ?thesis using DMedia by (simp add: dg_media_def)
next
  case (DFinish ap)
  then show ?thesis using e dg_finish_ok [OF w] by fastforce
next
  case (DClose ap)
  then show ?thesis using e dg_close_ok [OF w] by fastforce
next
  case (DDelete ap)
  then obtain p where p: "heap w ap = Some p" "m_promise p"
    using e by (auto simp: waitForClose_returns_def split: option.splits)
  then have "\<not> attached (m_state p)" using world_okD(1) [OF w p(1)] by (auto simp: pipe_ok_def terminal_def)
  then show ?thesis using DDelete dg.destroy_pipe_ok [OF w p(1)] by auto
next
  case (DWaitCancelled vhd conn)
  then show ?thesis using e dg.on_wait_cancelled_ok [OF w] by (simp add: dg_on_wait_cancelled_def)
next
  case (DEstablished x vhd)
  then show ?thesis using e dg_on_established_ok [OF w, of x vhd] by auto
next
  case (DConnectionError x msg)
  then show ?thesis using e dg.on_connection_error_ok [OF w, of x dg_notify msg]
    by (auto simp: dg_on_connection_error_def)
next
  case (DReceive x ev)
  then show ?thesis using e dg.on_receive_ok [OF w] by (simp add: dg_on_receive_def)
next
  case (DWriteable x ret)
  then show ?thesis using e dg_writeable_ok [OF w] by (simp only: dg_enabled.simps)
next
  case (DClosed x)
  then show ?thesis using e dg.closed_handle_ok [OF w] by (simp add: dg_on_closed_def)
qed

lemma dg_reach_inv: "dg_reach pre w \<Longrightarrow> dg_inv pre w"
  by (induction rule: dg_reach.induct) (auto dest: dg_start_inv dg_step_ok)

end
