(* ===== verification/DgProps.thy ===== *)
theory DgProps
  imports DgSafe PipeFrame
begin

text \<open>
  The properties of mod_deepgram_transcribe's pipes: no step goes wrong, and what becomes of
  \<open>finish()\<close>: on every connection exactly one CloseStream, nothing else as text, and no request
  lost; but audio that was already buffered goes out behind it.
\<close>

section \<open>How a pipe may change\<close>

definition dg_kept :: "dg_pipe \<Rightarrow> dg_pipe \<Rightarrow> bool" where
  "dg_kept p q \<longleftrightarrow> state_le (m_state p) (m_state q) \<and> m_finished q = m_finished p \<and>
     m_metadata q = m_metadata p \<and>
     (attached (m_state q) \<longrightarrow> attached (m_state p) \<and> m_wsi q = m_wsi p)"

interpretation dgr: pipe_relation dg_extra dg_kept
proof (unfold_locales, goal_cases)
  case (2 p q r)
  then show ?case unfolding dg_kept_def using state_le_trans by metis
next
  case (8 p q)
  then show ?case by (auto simp: dg_kept_def recv_frame_iff dest: more_finished)
next
  case (9 p q)
  then show ?case by (auto simp: dg_kept_def audio_frame_iff dest: more_finished)
qed (auto simp: dg_kept_def attached_def)

section \<open>The texts of a connection\<close>

definition text_of :: "wsi \<Rightarrow> wsi \<times> lws_frame \<Rightarrow> string list" where
  "text_of x s = (case s of (y, LWS_WRITE_TEXT t) \<Rightarrow> if y = x then [t] else [] | _ \<Rightarrow> [])"

definition texts :: "wsi \<Rightarrow> ('p, 'n) world \<Rightarrow> string list" where
  "texts x w = concat (map (text_of x) (sent w))"

definition cs_pipe :: "dg_world \<Rightarrow> dg_pipe \<Rightarrow> bool" where
  "cs_pipe w p \<longleftrightarrow>
     (if attached (m_state p) then
        if m_finished p then (\<exists>x. m_wsi p = Some x \<and>
          (m_metadata p = CLOSE_STREAM \<and> texts x w = [] \<or> m_metadata p = [] \<and> texts x w = [CLOSE_STREAM]))
        else m_metadata p = [] \<and> (\<forall>x. m_wsi p = Some x \<longrightarrow> texts x w = [])
      else terminal (m_state p) \<or> \<not> m_finished p \<and> m_metadata p = [])"

definition cs_inv :: "dg_world \<Rightarrow> bool" where
  "cs_inv w \<longleftrightarrow> (\<forall>ap p. heap w ap = Some p \<longrightarrow> cs_pipe w p) \<and>
     (\<forall>x. (texts x w = [] \<or> texts x w = [CLOSE_STREAM]) \<and> (texts x w \<noteq> [] \<longrightarrow> opened (wsi_ph w x)))"

lemma texts_cong: "sent w' = sent w \<Longrightarrow> texts x w' = texts x w"
  by (simp add: texts_def)

lemma texts_snoc:
  "sent w' = sent w @ [(y, f)] \<Longrightarrow> texts x w' = texts x w @ text_of x (y, f)"
  by (simp add: texts_def)

lemma text_of_simps [simp]:
  "text_of x (y, LWS_WRITE_BINARY d) = []" "text_of x (y, LWS_WRITE_TEXT t) = (if y = x then [t] else [])"
  by (simp_all add: text_of_def)

lemma cs_pipe_cong: "sent w' = sent w \<Longrightarrow> cs_pipe w' p = cs_pipe w p"
  by (simp add: cs_pipe_def texts_cong [of w' w])

text \<open>A step that sends nothing and changes pipes only along the relation.\<close>

lemma cs_pipe_kept:
  assumes "cs_pipe w p" "dg_kept p q"
  shows "cs_pipe w q"
proof -
  have "attached (m_state p) \<Longrightarrow> attached (m_state q) \<or> terminal (m_state q)"
    "terminal (m_state p) \<Longrightarrow> terminal (m_state q)"
    using assms(2) unfolding dg_kept_def state_le_def
    by (cases "m_state p"; cases "m_state q"; simp)+
  with assms show ?thesis
    by (cases "attached (m_state q)"; cases "attached (m_state p)"; cases "terminal (m_state q)")
      (auto simp: cs_pipe_def dg_kept_def)
qed

lemma cs_inv_kept:
  assumes i: "cs_inv w" and h: "heap_rel dg_kept w w'" and u: "unsent w w'"
  shows "cs_inv w'"
proof -
  have s: "sent w' = sent w" using u by (simp add: unsent_def)
  have "cs_pipe w' q" if q: "heap w' ap = Some q" for ap q
  proof -
    have "ap \<in> dom (heap w')" using q by auto
    then have "ap \<in> dom (heap w)" using h unfolding heap_rel_def by blast
    then obtain p where p: "heap w ap = Some p" by auto
    then have "dg_kept p q" using h q by (fastforce simp: heap_rel_def)
    moreover have "cs_pipe w p" using i p by (simp add: cs_inv_def)
    ultimately show ?thesis using cs_pipe_kept by (simp add: cs_pipe_cong [OF s])
  qed
  then show ?thesis using i u by (auto simp: cs_inv_def texts_cong [OF s] unsent_def)
qed

lemma cs_inv_cong:
  assumes "heap w' = heap w" "sent w' = sent w" "wsi_ph w' = wsi_ph w"
  shows "cs_inv w' = cs_inv w"
  by (simp add: cs_inv_def assms cs_pipe_cong [OF assms(2)] texts_cong [OF assms(2)])

lemma cs_inv_set_pipe: "cs_inv w \<Longrightarrow> cs_pipe w q \<Longrightarrow> cs_inv (set_pipe ap q w)"
  by (auto simp: cs_inv_def set_pipe_def cs_pipe_cong [of "set_pipe ap q w" w, unfolded set_pipe_def]
      texts_cong [of "set_pipe ap q w" w, unfolded set_pipe_def])

section \<open>The steps\<close>

lemma cs_finish:
  assumes i: "cs_inv w" and w: "dg_inv pre w" and r: "dg_finish ap w = Inr w'"
  shows "cs_inv w'"
proof -
  obtain p where p: "heap w ap = Some p" using r by (auto simp: dg_finish_def deref_def split: option.splits)
  have c: "cs_pipe w p" using i p by (auto simp: cs_inv_def)
  consider (first) "m_state p = LWS_CLIENT_CONNECTED" "\<not> m_finished p"
    | (again) "m_state p = LWS_CLIENT_CONNECTED" "m_finished p" | (early) "m_state p \<noteq> LWS_CLIENT_CONNECTED"
    by blast
  then show ?thesis
  proof cases
    case first
    obtain v x where v: "m_vhd p = Some v" "m_wsi p = Some x"
      using world_okD(1) [OF w p] world_ok_open [OF w p] first by (auto simp: pipe_ok_def)
    let ?q = "p\<lparr>m_finished := True, m_metadata := m_metadata p @ CLOSE_STREAM\<rparr>"
    have "cs_pipe w ?q" using c first v by (simp add: cs_pipe_def)
    from cs_inv_set_pipe [OF i this, of ap] show ?thesis
      using r dg_finish_first [of w ap p v] p first v
      by (auto simp: lws_cancel_service_def intro: cs_inv_cong [THEN iffD2, rotated 3])
  next
    case again
    then show ?thesis using r p i by (simp add: dg_finish_def deref_def)
  next
    case early
    have "cs_pipe w (p\<lparr>m_gracefulShutdown := True\<rparr>)" using c by (simp add: cs_pipe_def)
    from cs_inv_set_pipe [OF i this, of ap] show ?thesis using r p early by (simp add: dg_finish_def deref_def)
  qed
qed

lemma cs_write:
  assumes i: "cs_inv w" and w: "dg_inv pre w" and x: "wsi_ph w x = WOpen" and u: "wsi_user w x = Some ap"
    and p: "heap w ap = Some p"
    and r: "write_pending pre ret x ap p (w\<lparr>writable := W\<rparr>) = Inr (rc, w')"
  shows "cs_inv w' \<and> wsi_user w' = wsi_user w \<and>
    (\<exists>q. heap w' ap = Some q \<and> m_state q = m_state p \<and> promise_ok q = promise_ok p)"
proof -
  have att: "attached (m_state p)" "m_wsi p = Some x" using world_ok_user [OF w u] p by auto
  have c: "cs_pipe w p" using i p by (simp add: cs_inv_def)
  have t: "texts y w = [] \<or> texts y w = [CLOSE_STREAM]" "texts y w \<noteq> [] \<Longrightarrow> opened (wsi_ph w y)" for y
    using i by (simp_all add: cs_inv_def)
  consider (pendtxt) "m_metadata p \<noteq> []" | (closing) "m_metadata p = []" "m_state p = LWS_CLIENT_DISCONNECTING"
    | (audio) "m_metadata p = []" "m_state p \<noteq> LWS_CLIENT_DISCONNECTING" "m_audio_buffer_write_offset p > pre"
    | (idle) "m_metadata p = []" "m_state p \<noteq> LWS_CLIENT_DISCONNECTING" "\<not> m_audio_buffer_write_offset p > pre"
    by blast
  then show ?thesis
  proof cases
    case pendtxt
    then have f: "m_metadata p = CLOSE_STREAM" "texts x w = []" "m_finished p"
      using c att by (auto simp: cs_pipe_def split: if_splits)
    have w': "heap w' = (heap w)(ap := Some (p\<lparr>m_metadata := []\<rparr>))" "wsi_ph w' = wsi_ph w"
      "sent w' = sent w @ [(x, LWS_WRITE_TEXT CLOSE_STREAM)]" "wsi_user w' = wsi_user w"
      using r f pendtxt x by (auto simp: write_pending_def lws_write_def lws_callback_on_writable_def Let_def
          set_pipe_def andthen_Inr_iff split: if_splits)
    have ts: "texts y w' = (if y = x then [CLOSE_STREAM] else texts y w)" for y
      using texts_snoc [OF w'(3), of y] f(2) by simp
    have "cs_pipe w' q" if q: "heap w' a = Some q" for a q
    proof (cases "a = ap")
      case True
      then have "q = p\<lparr>m_metadata := []\<rparr>" using q w'(1) by simp
      then show ?thesis using att f(3) by (simp add: cs_pipe_def ts)
    next
      case False
      then have qa: "heap w a = Some q" using q w'(1) by simp
      then have "m_wsi q \<noteq> Some x" using world_ok_inj [OF w qa p _ att(2)] False by blast
      moreover have "cs_pipe w q" using i qa by (simp add: cs_inv_def)
      ultimately show ?thesis by (auto simp: cs_pipe_def ts)
    qed
    then have "cs_inv w'" using t x w'(2) by (auto simp: cs_inv_def ts)
    then show ?thesis using w' by simp
  next
    case closing
    then have "w' = w\<lparr>writable := W\<rparr>" using r by (simp add: write_pending_def)
    then show ?thesis using i p cs_inv_cong [of w' w] by simp
  next
    case audio
    let ?q = "p\<lparr>m_audio_buffer_write_offset := pre\<rparr>"
    have w': "heap w' = (heap w)(ap := Some ?q)" "wsi_ph w' = wsi_ph w" "wsi_user w' = wsi_user w"
      "sent w' = sent w @ [(x, LWS_WRITE_BINARY (audio_payload pre p))]"
      using r audio x by (auto simp: write_pending_def lws_write_def set_pipe_def)
    have ts: "texts y w' = texts y w" for y using texts_snoc [OF w'(4), of y] by simp
    have cp: "cs_pipe w' q = cs_pipe w q" for q by (simp add: cs_pipe_def ts)
    have "cs_pipe w ?q" using c by (simp add: cs_pipe_def)
    then have "cs_inv w'" using i w' by (auto simp: cs_inv_def ts cp)
    then show ?thesis using w' by simp
  next
    case idle
    then have "w' = w\<lparr>writable := W\<rparr>" using r by (simp add: write_pending_def)
    then show ?thesis using i p cs_inv_cong [of w' w] by simp
  qed
qed

lemma cs_writeable:
  assumes i: "cs_inv w" and w: "dg_inv pre w" and x: "wsi_ph w x = WOpen"
    and r: "dg_exec pre (DWriteable x ret) w = Inr w'"
  shows "cs_inv w'"
proof (cases "wsi_user w x")
  case None
  then have "w' = w\<lparr>writable := removeAll x (writable w)\<rparr>" using r by (simp add: dg_on_writeable_def)
  then show ?thesis using i cs_inv_cong [of w' w] by simp
next
  case (Some ap)
  obtain p where p: "heap w ap = Some p" using dgr.inv_user [OF w Some] by blast
  have pr: "attached (m_state p)" "promise_ok p" using dgr.inv_user [OF w Some] p by auto
  obtain rc w1 where s: "write_pending pre ret x ap p (w\<lparr>writable := removeAll x (writable w)\<rparr>) = Inr (rc, w1)"
    "(if rc < 0 then dg_on_closed x w1 else Inr w1) = Inr w'"
    using r Some p by (auto simp: dg_on_writeable_def deref_def andthen_Inr_iff)
  obtain q where 1: "cs_inv w1" "wsi_user w1 = wsi_user w" "heap w1 ap = Some q" "m_state q = m_state p"
    "promise_ok q = promise_ok p"
    using cs_write [OF i w x Some p s(1)] by blast
  show ?thesis
  proof (cases "rc < 0")
    case True
    then have c: "closed_handle dg_notify x w1 = Inr w'" using s(2) by (simp add: dg_on_closed_def)
    have "heap_rel dg_kept w1 w'"
      by (rule dgr.closed_handle_rel [OF _ c]) (use 1 Some pr in auto)
    then show ?thesis using cs_inv_kept [OF 1(1)] closed_handle_unsent [OF c] by blast
  qed (use s(2) 1(1) in simp)
qed

lemma cs_established:
  assumes i: "cs_inv w" and w: "dg_inv pre w" and x: "wsi_ph w x = WOpening"
    and r: "dg_exec pre (DEstablished x vhd) w = Inr w'"
  shows "cs_inv w'"
proof -
  have h: "heap w' = (\<lambda>ap. if connecting_on x w ap then map_option (established vhd) (heap w ap) else heap w ap)"
    "sent w' = sent w" "wsi_ph w' = (wsi_ph w)(x := WOpen)"
    using dg_on_established_ok [OF w x, of vhd] r by auto
  have t: "texts x w = []" using i x by (auto simp: cs_inv_def)
  have "cs_pipe w q" if q: "heap w' ap = Some q" for ap q
  proof (cases "connecting_on x w ap")
    case True
    then obtain p where p: "heap w ap = Some p" "m_state p = LWS_CLIENT_CONNECTING" "m_wsi p = Some x"
      by (auto simp: connecting_on_def split: option.splits)
    have "q = established vhd p" using q True p(1) h(1) by simp
    moreover have "cs_pipe w p" using i p(1) by (simp add: cs_inv_def)
    ultimately show ?thesis using p t by (simp add: cs_pipe_def established_def Let_def)
  next
    case False
    then show ?thesis using i q h(1) by (simp add: cs_inv_def)
  qed
  then show ?thesis using i by (auto simp: cs_inv_def cs_pipe_cong [OF h(2)] texts_cong [OF h(2)] h(3))
qed

lemma cs_step:
  assumes i: "cs_inv w" and w: "dg_inv pre w" and e: "dg_enabled pre a w" and r: "dg_exec pre a w = Inr w'"
  shows "cs_inv w'"
proof (cases a)
  case (DNew ap args)
  have "cs_pipe w (dg_AudioPipe_new pre args)"
    by (simp add: cs_pipe_def dg_AudioPipe_new_def pipe_init_def pipe.defs dg_pipe.defs)
  from cs_inv_set_pipe [OF i this] show ?thesis using r DNew by auto
next
  case (DConnect ap)
  then obtain p where "heap w ap = Some p" "m_state p = LWS_CLIENT_IDLE" using e by (auto split: option.splits)
  then show ?thesis
    using r DConnect cs_inv_kept [OF i dgr.addPendingConnect_rel [OF w] addPendingConnect_unsent]
    by (simp add: dg_connect_def)
next
  case (DMedia ap channels resampler frames notified)
  then obtain s where "media_frames pre channels resampler frames notified ap w = Inr (s, w')"
    using r by (auto simp: dg_media_def andthen_Inr_iff)
  then show ?thesis
    using e DMedia cs_inv_kept [OF i dgr.media_frames_rel [OF w] media_frames_unsent] by simp
next
  case (DFinish ap)
  then show ?thesis using cs_finish [OF i w] r by simp
next
  case (DClose ap)
  then obtain p where p: "heap w ap = Some p" using e by auto
  show ?thesis
  proof (cases "m_state p = LWS_CLIENT_CONNECTED")
    case True
    then show ?thesis
      using r DClose p cs_inv_kept [OF i dgr.addPendingDisconnect_rel [OF w p] addPending_unsent(1)]
      by (simp add: dg_close_def deref_def)
  next
    case False
    then show ?thesis using r DClose p i by (simp add: dg_close_def deref_def)
  qed
next
  case (DDelete ap)
  then have h: "heap w' = (heap w)(ap := None)" "sent w' = sent w" "wsi_ph w' = wsi_ph w"
    using r by (auto simp: destroy_pipe_def removeFromPending_def andthen_Inr_iff Let_def)
  then show ?thesis using i by (auto simp: cs_inv_def cs_pipe_cong [OF h(2)] texts_cong [OF h(2)])
next
  case (DWaitCancelled vhd conn)
  then show ?thesis
    using r e cs_inv_kept [OF i dgr.on_wait_cancelled_rel(1) [OF w] on_wait_cancelled_unsent]
    by (simp add: dg_on_wait_cancelled_def)
next
  case (DEstablished x vhd)
  then show ?thesis using cs_established [OF i w] e r by simp
next
  case (DConnectionError x msg)
  then obtain w1 where w1: "on_connection_error dg_notify x msg w = Inr w1"
    "w' = w1\<lparr>wsi_ph := (wsi_ph w1)(x := WClosed)\<rparr>"
    using r by (auto simp: dg_on_connection_error_def andthen_Inr_iff)
  have "cs_inv w1" using cs_inv_kept [OF i dgr.on_connection_error_rel [OF w w1(1)] on_connection_error_unsent [OF w1(1)]] .
  then show ?thesis using w1(2) cs_pipe_cong [of w' w1] texts_cong [of w' w1] by (auto simp: cs_inv_def)
next
  case (DReceive x ev)
  then show ?thesis
    using r cs_inv_kept [OF i dgr.on_receive_rel [OF w] on_receive_unsent] by (simp add: dg_on_receive_def)
next
  case (DWriteable x ret)
  then show ?thesis using cs_writeable [OF i w, of x ret] e r by simp
next
  case (DClosed x)
  then have c: "closed_handle dg_notify x w = Inr w'" using r by (simp add: dg_on_closed_def)
  have "heap_rel dg_kept w w'" by (rule dgr.closed_handle_rel [OF _ c]) (use dgr.inv_user [OF w] in auto)
  then show ?thesis using cs_inv_kept [OF i] closed_handle_unsent [OF c] by blast
qed

lemma dg_reach_cs: "dg_reach pre w \<Longrightarrow> cs_inv w"
proof (induction rule: dg_reach.induct)
  case (start w)
  then show ?case by (auto simp: dg_start_def cs_inv_def texts_def)
next
  case (step w a w')
  then show ?case using cs_step [OF _ dg_reach_inv] by blast
qed

section \<open>Properties\<close>

text \<open>In every reachable world of deepgram pipes, every step that may be taken succeeds.\<close>

lemma dg_no_undefined_behaviour:
  assumes "dg_reach pre w" "dg_enabled pre a w"
  shows "\<exists>w'. dg_exec pre a w = Inr w'"
  using dg_step_ok [OF dg_reach_inv [OF assms(1)] assms(2)] by blast

lemma dg_one_close_stream_aux:
  assumes "dg_reach pre w" "heap w ap = Some p" "attached (m_state p)" "m_wsi p = Some x"
  shows "concat (texts x w) @ m_metadata p = (if m_finished p then CLOSE_STREAM else [])"
proof -
  have "cs_pipe w p" using dg_reach_cs [OF assms(1)] assms(2) by (simp add: cs_inv_def)
  then show ?thesis using assms(3,4) by (auto simp: cs_pipe_def)
qed


fun dg_run :: "nat \<Rightarrow> dg_action list \<Rightarrow> dg_world \<Rightarrow> ub + dg_world" where
  "dg_run pre [] w = Inr w"
| "dg_run pre (a # as) w = andthen (dg_exec pre a w) (dg_run pre as)"

text \<open>One writeable event on a CONNECTED pipe.\<close>

lemma dg_writeable_connected:
  assumes "wsi_user w x = Some ap" "wsi_ph w x = WOpen" "heap w ap = Some p" "m_state p = LWS_CLIENT_CONNECTED"
  shows "m_metadata p \<noteq> [] \<Longrightarrow> int (length (m_metadata p)) \<le> ret \<Longrightarrow>
      \<exists>w'. dg_exec pre (DWriteable x ret) w = Inr w' \<and> x \<in> set (writable w') \<and>
        wsi_user w' = wsi_user w \<and> wsi_ph w' = wsi_ph w \<and> heap w' ap = Some (p\<lparr>m_metadata := []\<rparr>) \<and>
        sent w' = sent w @ [(x, LWS_WRITE_TEXT (m_metadata p))]"
    and "m_metadata p = [] \<Longrightarrow> \<exists>w'. dg_exec pre (DWriteable x ret) w = Inr w' \<and>
      sent w' = sent w @ (if pre < m_audio_buffer_write_offset p
        then [(x, LWS_WRITE_BINARY (audio_payload pre p))] else [])"
  using assms
  by (simp_all add: dg_on_writeable_def write_pending_def deref_def lws_write_def Let_def set_pipe_def
      lws_callback_on_writable_def)

text \<open>C22: \<open>finish()\<close> on a CONNECTED pipe that is not finished sends the CloseStream: after the
  wake-up of its context and two writeable events it has gone out, and the audio that was in the
  buffer when \<open>finish()\<close> was called has gone out behind it.\<close>

theorem dg_finish_completes:
  assumes "dg_reach pre w" "heap w ap = Some p" "m_state p = LWS_CLIENT_CONNECTED" "\<not> m_finished p"
    and "m_vhd p = Some c" "m_wsi p = Some x"
    and "fresh_conn conn (pendingConnects w) w" "int (length CLOSE_STREAM) \<le> ret"
  shows "\<exists>w'. dg_run pre [DFinish ap, DWaitCancelled c conn, DWriteable x ret, DWriteable x ret'] w = Inr w' \<and>
    (\<exists>w2. dg_run pre [DFinish ap, DWaitCancelled c conn] w = Inr w2 \<and> sent w2 = sent w \<and> x \<in> set (writable w2)) \<and>
    sent w' = sent w @ (x, LWS_WRITE_TEXT CLOSE_STREAM) #
      (if pre < m_audio_buffer_write_offset p then [(x, LWS_WRITE_BINARY (audio_payload pre p))] else [])"
proof -
  note w = dg_reach_inv [OF assms(1)]
  have meta: "m_metadata p = []"
    using dg_one_close_stream_aux [OF assms(1-2) _ assms(6)] assms(3,4) by simp
  let ?q = "p\<lparr>m_finished := True, m_metadata := CLOSE_STREAM\<rparr>"
  define w1 where "w1 = lws_cancel_service c ((set_pipe ap ?q w)\<lparr>pendingWrites := pendingWrites w @ [ap]\<rparr>)"
  have f: "dg_finish ap w = Inr w1"
    using dg_finish_first [OF assms(2,3,4,5)] meta by (simp add: w1_def)
  have i1: "dg_inv pre w1" using dg_finish_ok [OF w assms(2)] f by auto
  have h1: "heap w1 ap = Some ?q" "ap \<in> set (pendingWrites w1)" "pendingConnects w1 = pendingConnects w"
    "wsi_ph w1 = wsi_ph w" "sent w1 = sent w"
    by (simp_all add: w1_def lws_cancel_service_def set_pipe_def)
  have fr: "fresh_conn conn (pendingConnects w1) w1" using assms(7) h1 by (simp add: fresh_conn_def)
  obtain w2 where w2: "on_wait_cancelled dg_notify c conn w1 = Inr w2" "dg_inv pre w2" "heap w2 ap = Some ?q"
    "wsi_ph w2 x = WOpen" "wsi_user w2 x = Some ap" "x \<in> set (writable w2)"
    using dgr.wait_cancelled_serves [OF i1 h1(1) _ _ _ _ fr, of c x dg_notify] assms(3,5,6) h1(2) by auto
  have s2: "sent w2 = sent w" using on_wait_cancelled_unsent [OF w2(1) fr] h1(5) by (simp add: unsent_def)
  have "m_state ?q = LWS_CLIENT_CONNECTED" "m_metadata ?q \<noteq> []" "int (length (m_metadata ?q)) \<le> ret"
    using assms(3,8) by (simp_all add: CLOSE_STREAM_def)
  from dg_writeable_connected(1) [OF w2(5,4,3) this, of pre]
  obtain w3 where w3: "dg_exec pre (DWriteable x ret) w2 = Inr w3" "wsi_user w3 = wsi_user w2"
    "wsi_ph w3 = wsi_ph w2" "heap w3 ap = Some (?q\<lparr>m_metadata := []\<rparr>)"
    "sent w3 = sent w2 @ [(x, LWS_WRITE_TEXT CLOSE_STREAM)]"
    by auto
  have u3: "wsi_user w3 x = Some ap" "wsi_ph w3 x = WOpen" using w3 w2 by simp_all
  obtain w4 where w4: "dg_exec pre (DWriteable x ret') w3 = Inr w4"
    "sent w4 = sent w3 @ (if pre < m_audio_buffer_write_offset p
        then [(x, LWS_WRITE_BINARY (audio_payload pre p))] else [])"
    using dg_writeable_connected(2) [OF u3 w3(4), of pre ret'] assms(3) by (auto simp: audio_payload_def)
  have e: "dg_exec pre (DFinish ap) w = Inr w1" "dg_exec pre (DWaitCancelled c conn) w1 = Inr w2"
    using f w2(1) by (simp_all add: dg_on_wait_cancelled_def)
  then show ?thesis using w3(1,5) w4 s2 w2(6) by (simp del: dg_exec.simps)
qed

text \<open>The authorization header never overflows its 256 byte block: it is the key behind the
  word Token for keys of up to 249 bytes, and longer keys are refused.\<close>

theorem dg_token_header_exact:
  "dg_token_header k = Inr (if length k \<le> 249 then Some (''Token '' @ c_str k) else None)"
proof (cases "length k \<le> 249")
  case True
  have l: "length (c_str k) \<le> length k" by (simp add: c_str_def length_takeWhile_le)
  have n: "c_str (a @ c_str k @ CHR 0x00 # r) = a @ c_str k" if "CHR 0x00 \<notin> set a" for a r
    using that by (simp add: c_str_def takeWhile_append takeWhile_takeWhile)
  have "c_str (splice 6 (c_str k @ [CHR 0x00]) (splice 0 (''Token '' @ [CHR 0x00]) (replicate 256 CHR 0x00)))
      = ''Token '' @ c_str k"
    using n [of "''Token ''"] by (simp add: splice_def)
  then show ?thesis using True l by (simp add: dg_token_header_def Let_def)
next
  case False
  then show ?thesis by (simp add: dg_token_header_def)
qed

end
