(* ===== verification/DgGlue.thy ===== *)
theory DgGlue
  imports DgProps DgPath ForkGlue
begin

text \<open>
  \<^verbatim>\<open>modules/mod_deepgram_transcribe/dg_transcribe_glue.cpp\<close>: the sessions of mod_deepgram_transcribe on
  top of its pipes, with \<open>capture_callback\<close>, \<open>start_capture\<close> and \<open>do_stop\<close> of
  \<^verbatim>\<open>mod_deepgram_transcribe.c\<close>. As in mod_audio_fork an operation holds the session's mutex while it
  works and is one step; the bug it read before is an argument. Unlike there, a pipe is connected
  before its media bug exists, and a stop checks under the mutex that the bug is still the one it read.
\<close>

section \<open>State\<close>

datatype dg_event = TRANSCRIBE_EVENT_RESULTS | TRANSCRIBE_EVENT_CONNECT_SUCCESS
  | TRANSCRIBE_EVENT_CONNECT_FAIL | TRANSCRIBE_EVENT_BUFFER_OVERRUN | TRANSCRIBE_EVENT_DISCONNECT

record dg_private =
  d_sessionId :: string
  d_resampler :: bool
  d_pAudioPipe :: "ptr option"
  d_host :: string
  d_port :: nat
  d_path :: string
  d_bugname :: string
  d_sampling :: int
  d_channels :: nat
  d_id :: u32
  d_buffer_overrun_notified :: bool

text \<open>An event: session, name, body, media-bugname and transcription-session-finished.\<close>

type_synonym dg_fired = "string \<times> dg_event \<times> string option \<times> string \<times> bool"

record dg_glue =
  dl_world :: dg_world
  dl_tech :: "ptr \<Rightarrow> dg_private option"
  dl_bugs :: "ptr \<Rightarrow> (string \<times> ptr) option"
  dl_private :: "string \<Rightarrow> ptr option"
  dl_sessions :: "string \<Rightarrow> bool"
  dl_activePipes :: int
  dl_reapers :: "(ptr \<times> bool) list"
  dl_idxCallCount :: u32
  dl_events :: "dg_fired list"

text \<open>The functions of other libraries: parsing a message and printing the reason of a failure with
  cJSON, and \<open>switch_true\<close> and \<open>switch_separate_string\<close> of FreeSWITCH.\<close>

record dg_lib =
  lib_parse :: "string \<Rightarrow> cnode option"
  lib_reason_json :: "string \<Rightarrow> string"
  lib_switch_true :: "string option \<Rightarrow> bool"
  lib_separate :: "string \<Rightarrow> string list"

definition dg_get_tech :: "ptr \<Rightarrow> dg_glue \<Rightarrow> ub + dg_private" where
  "dg_get_tech tp g = (case dl_tech g tp of None \<Rightarrow> Inl UseAfterFree | Some t \<Rightarrow> Inr t)"

definition dg_set_tech :: "ptr \<Rightarrow> dg_private \<Rightarrow> dg_glue \<Rightarrow> dg_glue" where
  "dg_set_tech tp t g = g\<lparr>dl_tech := (dl_tech g)(tp := Some t)\<rparr>"

definition dg_user_data :: "ptr \<Rightarrow> dg_glue \<Rightarrow> ub + ptr" where
  "dg_user_data bug g = (case dl_bugs g bug of None \<Rightarrow> Inl UseAfterFree | Some (s, tp) \<Rightarrow> Inr tp)"

section \<open>Callbacks\<close>

definition dg_responseHandler ::
  "string \<Rightarrow> dg_event \<Rightarrow> string option \<Rightarrow> string \<Rightarrow> bool \<Rightarrow> dg_glue \<Rightarrow> dg_glue" where
  "dg_responseHandler s ev json bugname finished g =
     g\<lparr>dl_events := dl_events g @ [(s, ev, json, bugname, finished)]\<rparr>"

definition dg_eventCallback :: "dg_lib \<Rightarrow> dg_note \<Rightarrow> dg_glue \<Rightarrow> ub + dg_glue" where
  "dg_eventCallback L n g =
     (case n of (s, event, message, finished) \<Rightarrow>
       if \<not> dl_sessions g s then Inr g
       else case dl_private g s of
           None \<Rightarrow> Inr g
         | Some bug \<Rightarrow>
             andthen (dg_user_data bug g) (\<lambda>tp.
             andthen (dg_get_tech tp g) (\<lambda>t.
               let fire = (\<lambda>ev json. dg_responseHandler s ev json (d_bugname t) finished g)
               in case event of
                    CONNECT_SUCCESS \<Rightarrow> Inr (fire TRANSCRIBE_EVENT_CONNECT_SUCCESS None)
                  | CONNECT_FAIL \<Rightarrow>
                      let reason = (case message of Some m \<Rightarrow> m | None \<Rightarrow> ''unknown'')
                      in Inr (fire TRANSCRIBE_EVENT_CONNECT_FAIL (Some (lib_reason_json L reason)))
                  | CONNECTION_DROPPED \<Rightarrow> Inr (fire TRANSCRIBE_EVENT_DISCONNECT None)
                  | CONNECTION_CLOSED_GRACEFULLY \<Rightarrow> Inr g
                  | MESSAGE \<Rightarrow>
                      if (case message of None \<Rightarrow> False | Some m \<Rightarrow> discards (lib_parse L) m) then Inr g
                      else Inr (fire TRANSCRIBE_EVENT_RESULTS message))))"

definition dg_on_pipes :: "(dg_world \<Rightarrow> ub + dg_world) \<Rightarrow> dg_glue \<Rightarrow> ub + dg_glue" where
  "dg_on_pipes f g = andthen (f (dl_world g)) (\<lambda>w. Inr (g\<lparr>dl_world := w\<rparr>))"

text \<open>The callbacks an operation made, run in order after it.\<close>

fun dg_run_callbacks :: "dg_lib \<Rightarrow> (ptr \<times> dg_note) list \<Rightarrow> dg_glue \<Rightarrow> ub + dg_glue" where
  "dg_run_callbacks L [] g = Inr g"
| "dg_run_callbacks L ((ap, n) # ns) g = andthen (dg_eventCallback L n g) (dg_run_callbacks L ns)"

definition dg_with_callbacks :: "dg_lib \<Rightarrow> (dg_world \<Rightarrow> ub + dg_world) \<Rightarrow> dg_glue \<Rightarrow> ub + dg_glue" where
  "dg_with_callbacks L f g =
     andthen (dg_on_pipes f g) (\<lambda>g1.
       dg_run_callbacks L (drop (length (notifications (dl_world g))) (notifications (dl_world g1))) g1)"

section \<open>Creating a session\<close>

text \<open>What the channel, FreeSWITCH and the allocators answer during a start.\<close>

record dg_env =
  v_uuid :: string
  v_vars :: "string \<Rightarrow> string option"
  v_bytes_per_packet :: nat
  v_tech :: ptr
  v_pipe :: ptr
  v_block :: "u8 list"
  v_junk :: nat
  v_alloc_ok :: bool
  v_resampler_ok :: bool

definition dg_desiredSampling :: int where
  "dg_desiredSampling = 8000"

definition dg_private_init ::
  "dg_lib \<Rightarrow> dg_env \<Rightarrow> nat \<Rightarrow> string \<Rightarrow> bool \<Rightarrow> string \<Rightarrow> u32 \<Rightarrow> dg_private" where
  "dg_private_init L e channels lang interim bugname callId =
     \<lparr>d_sessionId = strncpy_field 256 (v_uuid e), d_resampler = False, d_pAudioPipe = None,
      d_host = ''api.deepgram.com'', d_port = 443,
      d_path = strncpy_field 4096
        (constructPath (lib_switch_true L) (lib_separate L) (v_vars e) (int channels) lang interim),
      d_bugname = take 64 bugname, d_sampling = dg_desiredSampling, d_channels = channels,
      d_id = callId, d_buffer_overrun_notified = False\<rparr>"

definition dg_pipe_args :: "dg_env \<Rightarrow> dg_private \<Rightarrow> nat \<Rightarrow> string \<Rightarrow> dg_args" where
  "dg_pipe_args e t buflen apiKey =
     \<lparr>da_uuid = d_sessionId t, da_host = d_host t, da_port = d_port t, da_path = d_path t,
      da_bufLen = buflen, da_minFreespace = v_bytes_per_packet e, da_apiKey = apiKey,
      da_block = v_block e, da_junk = v_junk e\<rparr>"

definition dg_fork_data_init ::
  "dg_lib \<Rightarrow> nat \<Rightarrow> int \<Rightarrow> string option \<Rightarrow> dg_env \<Rightarrow> int \<Rightarrow> nat \<Rightarrow> string \<Rightarrow> bool \<Rightarrow> string \<Rightarrow> dg_glue
     \<Rightarrow> ub + switch_status \<times> dg_glue" where
  "dg_fork_data_init L LWS_PRE secs defaultApiKey e sampling channels lang interim bugname g =
     (let t = dg_private_init L e channels lang interim bugname (dl_idxCallCount g + 1);
          g1 = g\<lparr>dl_idxCallCount := dl_idxCallCount g + 1\<rparr>
      in andthen (fork_buflen LWS_PRE dg_desiredSampling (int channels) secs) (\<lambda>buflen.
        case (case v_vars e ''DEEPGRAM_API_KEY'' of Some k \<Rightarrow> Some k | None \<Rightarrow> defaultApiKey) of
          None \<Rightarrow> Inr (SWITCH_STATUS_FALSE, dg_set_tech (v_tech e) t g1)
        | Some apiKey \<Rightarrow>
            let resampling = (dg_desiredSampling \<noteq> sampling);
                t1 = t\<lparr>d_pAudioPipe := Some (v_pipe e), d_resampler := resampling \<and> v_resampler_ok e\<rparr>;
                w = set_pipe (v_pipe e) (dg_AudioPipe_new LWS_PRE (dg_pipe_args e t buflen apiKey)) (dl_world g)
            in Inr (if resampling \<and> \<not> v_resampler_ok e then SWITCH_STATUS_FALSE else SWITCH_STATUS_SUCCESS,
                    dg_set_tech (v_tech e) t1 (g1\<lparr>dl_world := w\<rparr>))))"

definition dg_destroy_tech_pvt :: "ptr \<Rightarrow> dg_glue \<Rightarrow> ub + dg_glue" where
  "dg_destroy_tech_pvt tp g =
     andthen (dg_get_tech tp g) (\<lambda>t.
     andthen (case d_pAudioPipe t of None \<Rightarrow> Inr g | Some ap \<Rightarrow> dg_on_pipes (destroy_pipe ap) g) (\<lambda>g1.
       Inr (dg_set_tech tp (t\<lparr>d_pAudioPipe := None, d_resampler := False\<rparr>) g1)))"

text \<open>The pipe connects before the gate counts it.\<close>

definition dg_session_init ::
  "dg_lib \<Rightarrow> nat \<Rightarrow> int \<Rightarrow> string option \<Rightarrow> dg_env \<Rightarrow> int \<Rightarrow> nat \<Rightarrow> string \<Rightarrow> bool \<Rightarrow> string \<Rightarrow> dg_glue
     \<Rightarrow> ub + switch_status \<times> dg_glue" where
  "dg_session_init L LWS_PRE secs defaultApiKey e samples_per_second channels lang interim bugname g =
     (if \<not> v_alloc_ok e then Inr (SWITCH_STATUS_FALSE, g)
      else andthen (dg_fork_data_init L LWS_PRE secs defaultApiKey e samples_per_second channels lang interim
          bugname g) (\<lambda>(status, g1).
        if status \<noteq> SWITCH_STATUS_SUCCESS
        then andthen (dg_destroy_tech_pvt (v_tech e) g1) (\<lambda>g2. Inr (SWITCH_STATUS_FALSE, g2))
        else andthen (dg_get_tech (v_tech e) g1) (\<lambda>t.
          case d_pAudioPipe t of
            None \<Rightarrow> Inl NullDeref
          | Some ap \<Rightarrow> andthen (dg_with_callbacks L (dg_connect ap) g1) (\<lambda>g2.
              Inr (SWITCH_STATUS_SUCCESS, g2\<lparr>dl_activePipes := dl_activePipes g2 + 1\<rparr>)))))"

section \<open>Tearing a session down\<close>

definition dg_reaper :: "ptr \<Rightarrow> ptr \<Rightarrow> dg_private \<Rightarrow> dg_glue \<Rightarrow> dg_glue" where
  "dg_reaper tp ap t g =
     dg_set_tech tp (t\<lparr>d_pAudioPipe := None\<rparr>) (g\<lparr>dl_reapers := dl_reapers g @ [(ap, False)]\<rparr>)"

text \<open>The reaper's thread: finish, wait, delete, release the gate.\<close>

definition dg_reaper_finish :: "ptr \<Rightarrow> dg_glue \<Rightarrow> ub + dg_glue" where
  "dg_reaper_finish ap g =
     dg_on_pipes (dg_finish ap)
       (g\<lparr>dl_reapers := map (\<lambda>(a, c). if a = ap then (a, True) else (a, c)) (dl_reapers g)\<rparr>)"

definition dg_reaper_delete :: "ptr \<Rightarrow> dg_glue \<Rightarrow> ub + dg_glue" where
  "dg_reaper_delete ap g =
     andthen (dg_on_pipes (destroy_pipe ap) g) (\<lambda>g1.
       Inr (g1\<lparr>dl_reapers := filter (\<lambda>(a, c). a \<noteq> ap) (dl_reapers g1),
               dl_activePipes := dl_activePipes g1 - 1\<rparr>))"

text \<open>For a session whose bug could not be added.\<close>

definition dg_session_cleanup :: "ptr \<Rightarrow> dg_glue \<Rightarrow> ub + dg_glue" where
  "dg_session_cleanup tp g =
     andthen (dg_get_tech tp g) (\<lambda>t.
       let g1 = (case d_pAudioPipe t of Some ap \<Rightarrow> dg_reaper tp ap t g | None \<Rightarrow> g)
       in andthen (dg_destroy_tech_pvt tp g1) (\<lambda>g2.
            Inr (if d_pAudioPipe t = None then g2\<lparr>dl_activePipes := dl_activePipes g2 - 1\<rparr> else g2)))"

text \<open>\<open>dg_transcribe_session_stop\<close> up to the removal of the bug; \<open>seen\<close> is the bug read before the
  mutex was taken, the second component the bug to remove.\<close>

definition dg_session_stop_locked ::
  "string \<Rightarrow> ptr option \<Rightarrow> dg_glue \<Rightarrow> ub + (switch_status \<times> ptr option) \<times> dg_glue" where
  "dg_session_stop_locked s seen g =
     (case seen of
        None \<Rightarrow> Inr ((SWITCH_STATUS_FALSE, None), g)
      | Some bug \<Rightarrow>
          andthen (dg_user_data bug g) (\<lambda>tp.
          andthen (dg_get_tech tp g) (\<lambda>t.
            if dl_private g s \<noteq> Some bug then Inr ((SWITCH_STATUS_SUCCESS, None), g)
            else
              let g1 = g\<lparr>dl_private := (dl_private g)(s := None)\<rparr>;
                  g2 = (case d_pAudioPipe t of Some ap \<Rightarrow> dg_reaper tp ap t g1 | None \<Rightarrow> g1)
              in andthen (dg_destroy_tech_pvt tp g2) (\<lambda>g3.
                   Inr ((SWITCH_STATUS_SUCCESS, Some bug), g3)))))"

definition dg_capture_close :: "ptr \<Rightarrow> dg_glue \<Rightarrow> ub + dg_glue" where
  "dg_capture_close bug g =
     (case dl_bugs g bug of
        None \<Rightarrow> Inl UseAfterFree
      | Some (s, tp) \<Rightarrow>
          andthen (dg_get_tech tp g) (\<lambda>t.
          andthen (dg_session_stop_locked s (dl_private g s) g) (\<lambda>(_, g1). Inr g1)))"

definition dg_session_stop ::
  "string \<Rightarrow> ptr option \<Rightarrow> bool \<Rightarrow> dg_glue \<Rightarrow> ub + switch_status \<times> dg_glue" where
  "dg_session_stop s seen channelIsClosing g =
     andthen (dg_session_stop_locked s seen g) (\<lambda>((status, bug), g1).
     andthen (case bug of
         Some b \<Rightarrow> if \<not> channelIsClosing then dg_capture_close b g1 else Inr g1
       | None \<Rightarrow> Inr g1) (\<lambda>g2.
       Inr (status, g2)))"

definition dg_do_stop :: "string \<Rightarrow> dg_glue \<Rightarrow> ub + switch_status \<times> dg_glue" where
  "dg_do_stop s g =
     (case dl_private g s of
        None \<Rightarrow> Inr (SWITCH_STATUS_SUCCESS, g)
      | Some bug \<Rightarrow> dg_session_stop s (Some bug) False g)"

section \<open>Frames\<close>

definition dg_transcribe_frame ::
  "nat \<Rightarrow> ptr \<Rightarrow> bool \<Rightarrow> (unit \<Rightarrow> u8 list \<Rightarrow> nat \<Rightarrow> u8 list \<times> unit) \<Rightarrow> u8 list list \<Rightarrow> dg_glue
     \<Rightarrow> ub + dg_glue" where
  "dg_transcribe_frame LWS_PRE bug locked f frames g =
     (case dl_bugs g bug of
        None \<Rightarrow> Inl UseAfterFree
      | Some (s, tp) \<Rightarrow>
          andthen (dg_get_tech tp g) (\<lambda>t.
            if \<not> locked then Inr g
            else case d_pAudioPipe t of
                None \<Rightarrow> Inr g
              | Some ap \<Rightarrow>
                  andthen (deref (dl_world g) ap) (\<lambda>p.
                    if m_state p \<noteq> LWS_CLIENT_CONNECTED then Inr g
                    else andthen (dg_media LWS_PRE (d_channels t) (if d_resampler t then Some f else None)
                             frames (d_buffer_overrun_notified t) ap (dl_world g)) (\<lambda>((notified, n), w).
                      Inr ((dg_set_tech tp (t\<lparr>d_buffer_overrun_notified := notified\<rparr>) g)
                        \<lparr>dl_world := w,
                         dl_events := dl_events g @ replicate n
                           (s, TRANSCRIBE_EVENT_BUFFER_OVERRUN, None, d_bugname t, False)\<rparr>)))))"

section \<open>Starting a capture\<close>

text \<open>A session that is already transcribing is stopped first. \<open>ready\<close>: a read codec is negotiated
  and the channel has reached pre-answer; \<open>added\<close> is what \<open>switch_core_media_bug_add\<close> answers.\<close>

definition dg_start_capture ::
  "dg_lib \<Rightarrow> nat \<Rightarrow> int \<Rightarrow> string option \<Rightarrow> dg_env \<Rightarrow> int \<Rightarrow> bool \<Rightarrow> string \<Rightarrow> bool \<Rightarrow> string \<Rightarrow> bool \<Rightarrow> ptr option
     \<Rightarrow> dg_glue \<Rightarrow> ub + switch_status \<times> dg_glue" where
  "dg_start_capture L LWS_PRE secs defaultApiKey e samples_per_second stereo lang interim bugname ready added g =
     andthen (if dl_private g (v_uuid e) \<noteq> None
              then andthen (dg_do_stop (v_uuid e) g) (\<lambda>(_, g1). Inr g1) else Inr g) (\<lambda>g1.
       if \<not> ready then Inr (SWITCH_STATUS_FALSE, g1)
       else andthen (dg_session_init L LWS_PRE secs defaultApiKey e samples_per_second (if stereo then 2 else 1)
           lang interim bugname g1) (\<lambda>(status, g2).
         if status = SWITCH_STATUS_FALSE then Inr (SWITCH_STATUS_FALSE, g2)
         else case added of
             None \<Rightarrow> andthen (dg_session_cleanup (v_tech e) g2) (\<lambda>g3. Inr (SWITCH_STATUS_FALSE, g3))
           | Some bug \<Rightarrow>
               Inr (SWITCH_STATUS_SUCCESS,
                 g2\<lparr>dl_bugs := (dl_bugs g2)(bug := Some (v_uuid e, v_tech e)),
                    dl_private := (dl_private g2)(v_uuid e := Some bug)\<rparr>)))"

definition dg_sessions_active :: "dg_glue \<Rightarrow> int" where
  "dg_sessions_active g = dl_activePipes g"

end
