(* ===== verification/DgGlueInv.thy ===== *)
theory DgGlueInv
  imports DgGlue Owners
begin

text \<open>
  The transition system of the sessions of mod_deepgram_transcribe and its invariant, with the
  ownership of theory \<open>Owners\<close>: no operation of any thread goes wrong, and the unload gate counts the
  live pipes, except between the connection of a new pipe and its counting.
\<close>

section \<open>The transition system\<close>

datatype dgl_action =
    DGStart dg_env int bool string bool string bool "ptr option"
  | DGStop string "ptr option" bool
  | DGFrame ptr bool "unit \<Rightarrow> u8 list \<Rightarrow> nat \<Rightarrow> u8 list \<times> unit" "u8 list list"
  | DGBugClosed ptr
  | DGReaperFinish ptr
  | DGReaperDelete ptr
  | DGLibrary dg_action
  | DGHangup string

fun dgl_exec :: "dg_lib \<Rightarrow> nat \<Rightarrow> int \<Rightarrow> string option \<Rightarrow> dgl_action \<Rightarrow> dg_glue \<Rightarrow> ub + dg_glue" where
  "dgl_exec L pre secs key (DGStart e rate stereo lang interim bugname ready added) g =
     andthen (dg_start_capture L pre secs key e rate stereo lang interim bugname ready added g) (\<lambda>(_, g1). Inr g1)"
| "dgl_exec L pre secs key (DGStop s seen closing) g =
     andthen (dg_session_stop s seen closing g) (\<lambda>(_, g1). Inr g1)"
| "dgl_exec L pre secs key (DGFrame bug locked f frames) g = dg_transcribe_frame pre bug locked f frames g"
| "dgl_exec L pre secs key (DGBugClosed bug) g = dg_capture_close bug g"
| "dgl_exec L pre secs key (DGReaperFinish ap) g = dg_reaper_finish ap g"
| "dgl_exec L pre secs key (DGReaperDelete ap) g = dg_reaper_delete ap g"
| "dgl_exec L pre secs key (DGLibrary a) g = dg_with_callbacks L (dg_exec pre a) g"
| "dgl_exec L pre secs key (DGHangup s) g = Inr (g\<lparr>dl_sessions := (dl_sessions g)(s := False)\<rparr>)"

fun dg_library_action :: "dg_action \<Rightarrow> bool" where
  "dg_library_action (DWaitCancelled vhd conn) = True"
| "dg_library_action (DEstablished x vhd) = True"
| "dg_library_action (DConnectionError x msg) = True"
| "dg_library_action (DReceive x e) = True"
| "dg_library_action (DWriteable x ret) = True"
| "dg_library_action (DClosed x) = True"
| "dg_library_action _ = False"

definition dg_bug_pipe :: "ptr \<Rightarrow> dg_glue \<Rightarrow> (dg_private \<times> dg_pipe) option" where
  "dg_bug_pipe bug g =
     (case dl_bugs g bug of None \<Rightarrow> None
      | Some (s, tp) \<Rightarrow> (case dl_tech g tp of None \<Rightarrow> None
        | Some t \<Rightarrow> (case d_pAudioPipe t of None \<Rightarrow> None
          | Some ap \<Rightarrow> (case heap (dl_world g) ap of None \<Rightarrow> None | Some p \<Rightarrow> Some (t, p)))))"

text \<open>When a step may be taken: addresses of a start are fresh and a packet of the codec fits the
  buffer, frames are within what the codec announced, a bug read earlier existed, and the reaper's
  thread runs in order.\<close>

fun dgl_enabled :: "nat \<Rightarrow> int \<Rightarrow> dgl_action \<Rightarrow> dg_glue \<Rightarrow> bool" where
  "dgl_enabled pre secs (DGStart e rate stereo lang interim bugname ready added) g \<longleftrightarrow>
     dl_tech g (v_tech e) = None \<and> heap (dl_world g) (v_pipe e) = None \<and>
     (case added of None \<Rightarrow> True | Some bug \<Rightarrow> dl_bugs g bug = None) \<and>
     v_bytes_per_packet e * (if stereo then 2 else 1) + pre \<le> length (v_block e) \<and>
     fork_buflen pre dg_desiredSampling (if stereo then 2 else 1) secs = Inr (length (v_block e))"
| "dgl_enabled pre secs (DGStop s seen closing) g \<longleftrightarrow>
     (case seen of None \<Rightarrow> True | Some bug \<Rightarrow> dl_bugs g bug \<noteq> None)"
| "dgl_enabled pre secs (DGFrame bug locked f frames) g \<longleftrightarrow>
     dl_bugs g bug \<noteq> None \<and>
     (case dg_bug_pipe bug g of None \<Rightarrow> True
      | Some (t, p) \<Rightarrow> list_all (\<lambda>d. length d \<le> binaryMinSpace p * d_channels t) frames \<and>
          resampler_ok (d_channels t) f)"
| "dgl_enabled pre secs (DGBugClosed bug) g \<longleftrightarrow> dl_bugs g bug \<noteq> None"
| "dgl_enabled pre secs (DGReaperFinish ap) g \<longleftrightarrow> (ap, False) \<in> set (dl_reapers g)"
| "dgl_enabled pre secs (DGReaperDelete ap) g \<longleftrightarrow>
     (ap, True) \<in> set (dl_reapers g) \<and>
     (case heap (dl_world g) ap of None \<Rightarrow> True | Some p \<Rightarrow> waitForClose_returns p)"
| "dgl_enabled pre secs (DGLibrary a) g \<longleftrightarrow> dg_library_action a \<and> dg_enabled pre a (dl_world g)"
| "dgl_enabled pre secs (DGHangup s) g \<longleftrightarrow> True"

definition dgl_start :: "dg_glue \<Rightarrow> bool" where
  "dgl_start g \<longleftrightarrow> dg_start (dl_world g) \<and> dl_tech g = (\<lambda>_. None) \<and> dl_bugs g = (\<lambda>_. None) \<and>
     dl_private g = (\<lambda>_. None) \<and> dl_activePipes g = 0 \<and> dl_reapers g = []"

inductive dgl_reach :: "dg_lib \<Rightarrow> nat \<Rightarrow> int \<Rightarrow> string option \<Rightarrow> dg_glue \<Rightarrow> bool" for L pre secs key where
  start: "dgl_start g \<Longrightarrow> dgl_reach L pre secs key g"
| step: "dgl_reach L pre secs key g \<Longrightarrow> dgl_enabled pre secs a g \<Longrightarrow> dgl_exec L pre secs key a g = Inr g'
    \<Longrightarrow> dgl_reach L pre secs key g'"

section \<open>No step resizes a pipe\<close>

definition dg_sized :: "dg_pipe \<Rightarrow> dg_pipe \<Rightarrow> bool" where
  "dg_sized p q \<longleftrightarrow> m_audio_buffer_max_len q = m_audio_buffer_max_len p \<and> binaryMinSpace q = binaryMinSpace p"

interpretation dgs: pipe_relation dg_extra dg_sized
  by unfold_locales (auto simp: dg_sized_def binaryMinSpace_def recv_frame_iff audio_frame_iff)

lemma dg_finish_sized: "dg_finish ap w = Inr w' \<Longrightarrow> heap_rel dg_sized w w'"
proof -
  assume r: "dg_finish ap w = Inr w'"
  then obtain p where p: "heap w ap = Some p" by (auto simp: dg_finish_def deref_def split: option.splits)
  have "heap w' = heap w \<or> (\<exists>q. heap w' = (heap w)(ap := Some q) \<and> dg_sized p q)"
    using r p by (auto simp: dg_finish_def deref_def bufferForSending_def addPendingWrite_def set_pipe_def
        andthen_Inr_iff lws_cancel_service_def dg_sized_def binaryMinSpace_def fun_upd_idem split: if_splits)
  then show ?thesis using dgs.heap_rel_upd [OF p] dgs.heap_rel_refl by blast
qed

lemma dg_writeable_sized:
  assumes w: "dg_inv pre w" and r: "dg_exec pre (DWriteable x ret) w = Inr w'"
  shows "heap_rel dg_sized w w'"
proof (cases "wsi_user w x")
  case None
  then show ?thesis using r by (auto simp: dg_on_writeable_def intro: dgs.heap_rel_refl)
next
  case (Some ap)
  then obtain p where p: "heap w ap = Some p" "attached (m_state p)" "promise_ok p"
    using dgs.inv_user [OF w] by blast
  obtain rc w1 where s: "write_pending pre ret x ap p (w\<lparr>writable := removeAll x (writable w)\<rparr>) = Inr (rc, w1)"
    "(if rc < 0 then dg_on_closed x w1 else Inr w1) = Inr w'"
    using r Some p(1) by (auto simp: dg_on_writeable_def deref_def andthen_Inr_iff)
  obtain q where q: "heap w1 = (heap w)(ap := Some q)" "dg_sized p q" "m_state q = m_state p"
    "promise_ok q = promise_ok p" "wsi_user w1 = wsi_user w"
    using s(1) p(1) by (fastforce simp: write_pending_def andthen_Inr_iff lws_write_def set_pipe_def
        lws_callback_on_writable_def dg_sized_def binaryMinSpace_def fun_upd_idem Let_def split: if_splits)
  have 1: "heap_rel dg_sized w w1" by (rule dgs.heap_rel_upd [OF p(1) q(2,1)])
  show ?thesis
  proof (cases "rc < 0")
    case True
    then have "heap_rel dg_sized w1 w'" using s(2) q p Some
      by (intro dgs.closed_handle_rel [of w1 x dg_notify w']) (auto simp: dg_on_closed_def)
    with 1 show ?thesis using dgs.heap_rel_trans by blast
  qed (use s(2) 1 in simp)
qed

lemma dg_library_sized:
  assumes w: "dg_inv pre w" and l: "dg_library_action a" and e: "dg_enabled pre a w"
    and r: "dg_exec pre a w = Inr w'"
  shows "heap_rel dg_sized w w'"
proof (cases a)
  case (DWaitCancelled vhd conn)
  then show ?thesis using r dgs.on_wait_cancelled_rel(1) [OF w] by (simp add: dg_on_wait_cancelled_def)
next
  case (DEstablished x vhd)
  then have "heap w' = (\<lambda>ap. if connecting_on x w ap then map_option (established vhd) (heap w ap) else heap w ap)"
    using dg_on_established_ok [OF w, of x vhd] e r by auto
  then show ?thesis
    by (auto simp: heap_rel_def dg_sized_def binaryMinSpace_def established_def Let_def dom_def)
next
  case (DConnectionError x msg)
  then obtain w1 where "on_connection_error dg_notify x msg w = Inr w1" "heap w' = heap w1"
    using r by (auto simp: dg_on_connection_error_def andthen_Inr_iff)
  then show ?thesis using dgs.on_connection_error_rel [OF w] heap_rel_cong [of w w w' w1] by simp
next
  case (DReceive x ev)
  then show ?thesis using r dgs.on_receive_rel [OF w] by (simp add: dg_on_receive_def)
next
  case (DWriteable x ret)
  then show ?thesis using dg_writeable_sized [OF w] r by simp
next
  case (DClosed x)
  then show ?thesis using r dgs.closed_handle_rel [of w x dg_notify w'] dgs.inv_user [OF w]
    by (simp add: dg_on_closed_def)
qed (use l in simp_all)

section \<open>The invariant\<close>

definition dgl_view :: "dg_glue \<Rightarrow> owner_view" where
  "dgl_view g tp = map_option (\<lambda>t. (d_pAudioPipe t, d_channels t)) (dl_tech g tp)"

text \<open>\<open>k\<close> pipes are not counted yet.\<close>

definition dgl_inv :: "nat \<Rightarrow> int \<Rightarrow> dg_glue \<Rightarrow> bool" where
  "dgl_inv pre k g \<longleftrightarrow>
     dg_inv pre (dl_world g) \<and>
     owners pre (heap (dl_world g)) (dgl_view g) (map fst (dl_reapers g)) (dl_activePipes g + k) \<and>
     (\<forall>bug s tp. dl_bugs g bug = Some (s, tp) \<longrightarrow> dl_tech g tp \<noteq> None) \<and>
     (\<forall>s bug. dl_private g s = Some bug \<longrightarrow> dl_bugs g bug \<noteq> None)"

lemma dgl_invD:
  assumes "dgl_inv pre k g"
  shows "dg_inv pre (dl_world g)"
    and "owners pre (heap (dl_world g)) (dgl_view g) (map fst (dl_reapers g)) (dl_activePipes g + k)"
    and "dl_bugs g bug = Some (s, tp) \<Longrightarrow> \<exists>t. dl_tech g tp = Some t"
    and "dl_private g s = Some bug \<Longrightarrow> \<exists>s' tp. dl_bugs g bug = Some (s', tp)"
proof -
  note a = assms [unfolded dgl_inv_def]
  show "dg_inv pre (dl_world g)"
    "owners pre (heap (dl_world g)) (dgl_view g) (map fst (dl_reapers g)) (dl_activePipes g + k)"
    using a by blast+
  show "dl_bugs g bug = Some (s, tp) \<Longrightarrow> \<exists>t. dl_tech g tp = Some t" using a by blast
  show "dl_private g s = Some bug \<Longrightarrow> \<exists>s' tp. dl_bugs g bug = Some (s', tp)" using a by fastforce
qed

lemma dgl_view_cong: "dl_tech g' = dl_tech g \<Longrightarrow> dgl_view g' = dgl_view g"
  by (simp add: dgl_view_def fun_eq_iff)

lemma dgl_view_updates [simp]:
  "dgl_view (g\<lparr>dl_world := w\<rparr>) = dgl_view g" "dgl_view (g\<lparr>dl_reapers := r\<rparr>) = dgl_view g"
  "dgl_view (g\<lparr>dl_activePipes := n\<rparr>) = dgl_view g" "dgl_view (g\<lparr>dl_private := pr\<rparr>) = dgl_view g"
  "dgl_view (g\<lparr>dl_bugs := b\<rparr>) = dgl_view g" "dgl_view (g\<lparr>dl_events := ev\<rparr>) = dgl_view g"
  "dgl_view (g\<lparr>dl_sessions := ss\<rparr>) = dgl_view g" "dgl_view (g\<lparr>dl_idxCallCount := j\<rparr>) = dgl_view g"
  by (rule dgl_view_cong, simp)+

lemma dgl_view_set_tech:
  "dgl_view (dg_set_tech tp t g) = (dgl_view g)(tp := Some (d_pAudioPipe t, d_channels t))"
  by (simp add: dgl_view_def dg_set_tech_def fun_eq_iff)

lemma dgl_view_pipe:
  "dl_tech g tp = Some t \<Longrightarrow> d_pAudioPipe t = r \<Longrightarrow> dgl_view g tp = Some (r, d_channels t)"
  by (simp add: dgl_view_def)

lemma dgl_inv_updates [simp]:
  "dgl_inv pre k (g\<lparr>dl_events := ev\<rparr>) = dgl_inv pre k g"
  "dgl_inv pre k (g\<lparr>dl_sessions := ss\<rparr>) = dgl_inv pre k g"
  "dgl_inv pre k (g\<lparr>dl_idxCallCount := j\<rparr>) = dgl_inv pre k g"
  "dgl_inv pre k (dg_responseHandler s e b n f g) = dgl_inv pre k g"
  by (simp_all add: dgl_inv_def dg_responseHandler_def)

lemma dgl_inv_world:
  assumes g: "dgl_inv pre k g" and w: "dg_inv pre w" "heap_rel dg_sized (dl_world g) w"
  shows "dgl_inv pre k (g\<lparr>dl_world := w\<rparr>)"
proof -
  have "owners pre (heap w) (dgl_view g) (map fst (dl_reapers g)) (dl_activePipes g + k)"
    by (rule owners_heap [OF dgl_invD(2) [OF g]]) (use w(2) in \<open>fastforce simp: heap_rel_def dg_sized_def roomy_def\<close>)+
  then show ?thesis using g w(1) by (simp add: dgl_inv_def)
qed

lemma dgl_inv_set_tech:
  assumes "dgl_inv pre k g" "dl_tech g tp = Some t" "d_pAudioPipe t' = d_pAudioPipe t"
    "d_channels t' = d_channels t"
  shows "dgl_inv pre k (dg_set_tech tp t' g)"
proof -
  have "dgl_view (dg_set_tech tp t' g) = dgl_view g"
    using assms(2-4) by (auto simp: dgl_view_set_tech dgl_view_def fun_eq_iff)
  then show ?thesis using assms(1) by (auto simp: dgl_inv_def dg_set_tech_def split: if_splits)
qed

lemma dgl_inv_same:
  assumes "dl_tech g' = dl_tech g" "dl_world g' = dl_world g" "dl_reapers g' = dl_reapers g"
    "dl_bugs g' = dl_bugs g" "dl_private g' = dl_private g" "dl_activePipes g' = dl_activePipes g"
  shows "dgl_inv pre k g' = dgl_inv pre k g"
  by (simp only: dgl_inv_def dgl_view_cong [OF assms(1)] assms)

lemma dgl_inv_pipe:
  "dgl_inv pre k g \<Longrightarrow> dl_tech g tp = Some t \<Longrightarrow> d_pAudioPipe t = Some ap \<Longrightarrow>
     \<exists>p. heap (dl_world g) ap = Some p \<and> roomy pre (d_channels t) p"
  using ownersD(5) [OF dgl_invD(2), of pre k g tp ap "d_channels t"] by (auto simp: dgl_view_def)

section \<open>Callbacks\<close>

lemma dg_eventCallback_ok:
  assumes g: "dgl_inv pre k g"
  shows "\<exists>g'. dg_eventCallback L n g = Inr g' \<and> dgl_inv pre k g' \<and> dl_tech g' = dl_tech g"
proof -
  obtain s event message finished where n: "n = (s, event, message, finished)" by (cases n) auto
  show ?thesis
  proof (cases "dl_sessions g s \<and> dl_private g s \<noteq> None")
    case False
    then show ?thesis using g n by (auto simp: dg_eventCallback_def)
  next
    case True
    then obtain bug where b: "dl_private g s = Some bug" by auto
    then obtain s' tp where b2: "dl_bugs g bug = Some (s', tp)" using dgl_invD(4) [OF g] by blast
    then obtain t where "dl_tech g tp = Some t" using dgl_invD(3) [OF g] by blast
    with b b2 show ?thesis using g n True
      by (cases event) (auto simp: dg_eventCallback_def dg_user_data_def dg_get_tech_def Let_def dg_responseHandler_def)
  qed
qed

lemma dg_run_callbacks_ok:
  "dgl_inv pre k g \<Longrightarrow> \<exists>g'. dg_run_callbacks L ns g = Inr g' \<and> dgl_inv pre k g' \<and> dl_tech g' = dl_tech g"
proof (induction ns arbitrary: g)
  case (Cons n ns)
  obtain ap m where n: "n = (ap, m)" by (cases n)
  obtain g1 where "dg_eventCallback L m g = Inr g1" "dgl_inv pre k g1" "dl_tech g1 = dl_tech g"
    using dg_eventCallback_ok [OF Cons.prems] by blast
  then show ?case using Cons.IH [of g1] n by auto
qed simp

lemma dg_with_callbacks_ok:
  assumes "dgl_inv pre k g" "f (dl_world g) = Inr w" "dg_inv pre w" "heap_rel dg_sized (dl_world g) w"
  shows "\<exists>g'. dg_with_callbacks L f g = Inr g' \<and> dgl_inv pre k g' \<and> dl_tech g' = dl_tech g"
  using dg_run_callbacks_ok [OF dgl_inv_world [OF assms(1,3,4)]] assms(2)
  by (fastforce simp: dg_with_callbacks_def dg_on_pipes_def)

end
