(* ===== verification/DgGlueSteps.thy ===== *)
theory DgGlueSteps
  imports DgGlueInv
begin

text \<open>
  Every step of the sessions of mod_deepgram_transcribe succeeds and keeps the invariant of theory
  \<open>DgGlueInv\<close>.
\<close>

section \<open>Tearing a session down\<close>

lemma dg_reaper_ok:
  assumes g: "dgl_inv pre k g" and t: "dl_tech g tp = Some t" "d_pAudioPipe t = Some ap"
  shows "dgl_inv pre k (dg_reaper tp ap u g)"
proof -
  have "owners pre (heap (dl_world g)) ((dgl_view g)(tp := Some (None, d_channels u))) (map fst (dl_reapers g) @ [ap])
      (dl_activePipes g + k)"
    by (rule owners_reap [OF dgl_invD(2) [OF g] dgl_view_pipe [OF t]])
  moreover have "dgl_view (dg_reaper tp ap u g) = (dgl_view g)(tp := Some (None, d_channels u))"
    by (simp add: dg_reaper_def dgl_view_set_tech)
  ultimately have "owners pre (heap (dl_world (dg_reaper tp ap u g))) (dgl_view (dg_reaper tp ap u g))
      (map fst (dl_reapers (dg_reaper tp ap u g))) (dl_activePipes (dg_reaper tp ap u g) + k)"
    by (simp add: dg_reaper_def dg_set_tech_def)
  then show ?thesis using g unfolding dgl_inv_def by (simp add: dg_reaper_def dg_set_tech_def)
qed

lemma dg_destroy_none_ok:
  assumes "dgl_inv pre k g" "dl_tech g tp = Some t" "d_pAudioPipe t = None"
  shows "dg_destroy_tech_pvt tp g = Inr (dg_set_tech tp (t\<lparr>d_pAudioPipe := None, d_resampler := False\<rparr>) g) \<and>
    dgl_inv pre k (dg_set_tech tp (t\<lparr>d_pAudioPipe := None, d_resampler := False\<rparr>) g)"
  using assms dgl_inv_set_tech [OF assms(1,2), of "t\<lparr>d_pAudioPipe := None, d_resampler := False\<rparr>"]
  by (simp add: dg_destroy_tech_pvt_def dg_get_tech_def)

text \<open>Handing the pipe over, if there is one, and destroying the rest.\<close>

lemma dg_hand_over_ok:
  assumes g: "dgl_inv pre k g" and t: "dl_tech g tp = Some t"
  shows "\<exists>g'. dg_destroy_tech_pvt tp (case d_pAudioPipe t of Some ap \<Rightarrow> dg_reaper tp ap t g | None \<Rightarrow> g) = Inr g' \<and>
    dgl_inv pre k g' \<and> dl_bugs g' = dl_bugs g \<and> dl_private g' = dl_private g \<and>
    dl_activePipes g' = dl_activePipes g \<and> dl_world g' = dl_world g"
proof (cases "d_pAudioPipe t")
  case None
  then show ?thesis using dg_destroy_none_ok [OF g t] by (simp add: dg_set_tech_def)
next
  case (Some ap)
  let ?g = "dg_reaper tp ap t g"
  have "dl_tech ?g tp = Some (t\<lparr>d_pAudioPipe := None\<rparr>)" by (simp add: dg_reaper_def dg_set_tech_def)
  from dg_destroy_none_ok [OF dg_reaper_ok [OF g t Some, of t] this] Some show ?thesis
    by (simp add: dg_reaper_def dg_set_tech_def)
qed

lemma dg_session_stop_locked_ok:
  assumes g: "dgl_inv pre k g" and s: "case seen of None \<Rightarrow> True | Some bug \<Rightarrow> dl_bugs g bug \<noteq> None"
  shows "\<exists>r g'. dg_session_stop_locked s seen g = Inr (r, g') \<and> dgl_inv pre k g' \<and> dl_bugs g' = dl_bugs g \<and>
    dl_world g' = dl_world g \<and>
    (case snd r of None \<Rightarrow> True | Some b \<Rightarrow> dl_bugs g b \<noteq> None) \<and>
    dl_private g' = (if seen \<noteq> None \<and> dl_private g s = seen then (dl_private g)(s := None) else dl_private g)"
proof (cases seen)
  case None
  then show ?thesis using g by (simp add: dg_session_stop_locked_def)
next
  case (Some bug)
  then obtain s0 tp where b: "dl_bugs g bug = Some (s0, tp)" using s by auto
  then obtain t where t: "dl_tech g tp = Some t" using dgl_invD(3) [OF g] by blast
  note base = dg_session_stop_locked_def dg_user_data_def dg_get_tech_def b t Some
  show ?thesis
  proof (cases "dl_private g s = Some bug")
    case False
    then show ?thesis using g by (simp add: base)
  next
    case True
    let ?g = "g\<lparr>dl_private := (dl_private g)(s := None)\<rparr>"
    have "dgl_inv pre k ?g" using g by (auto simp: dgl_inv_def)
    moreover have "dl_tech ?g tp = Some t" using t by simp
    ultimately show ?thesis using dg_hand_over_ok [of pre k ?g tp t] True b by (auto simp: base Let_def)
  qed
qed

lemma dg_capture_close_ok:
  assumes g: "dgl_inv pre k g" and b: "dl_bugs g bug \<noteq> None"
  shows "\<exists>g'. dg_capture_close bug g = Inr g' \<and> dgl_inv pre k g' \<and> dl_bugs g' = dl_bugs g \<and> dl_world g' = dl_world g"
proof -
  obtain s tp where b: "dl_bugs g bug = Some (s, tp)" using b by auto
  obtain t where t: "dl_tech g tp = Some t" using dgl_invD(3) [OF g b] by blast
  have "case dl_private g s of None \<Rightarrow> True | Some bug \<Rightarrow> dl_bugs g bug \<noteq> None"
    using dgl_invD(4) [OF g] by (fastforce split: option.splits)
  then show ?thesis using dg_session_stop_locked_ok [OF g, of "dl_private g s" s] b t
    by (auto simp: dg_capture_close_def dg_get_tech_def)
qed

lemma dg_session_stop_ok:
  assumes "dgl_inv pre k g" "case seen of None \<Rightarrow> True | Some bug \<Rightarrow> dl_bugs g bug \<noteq> None"
  shows "\<exists>r g'. dg_session_stop s seen closing g = Inr (r, g') \<and> dgl_inv pre k g' \<and> dl_bugs g' = dl_bugs g \<and>
    dl_world g' = dl_world g"
proof -
  obtain r g1 where 1: "dg_session_stop_locked s seen g = Inr (r, g1)" "dgl_inv pre k g1" "dl_bugs g1 = dl_bugs g"
    "dl_world g1 = dl_world g" "case snd r of None \<Rightarrow> True | Some b \<Rightarrow> dl_bugs g b \<noteq> None"
    using dg_session_stop_locked_ok [OF assms] by blast
  then show ?thesis using dg_capture_close_ok [OF 1(2)]
    by (cases r; cases "snd r"; cases closing) (fastforce simp: dg_session_stop_def)+
qed

lemma dg_do_stop_ok:
  assumes "dgl_inv pre k g"
  shows "\<exists>r g'. dg_do_stop s g = Inr (r, g') \<and> dgl_inv pre k g' \<and> dl_bugs g' = dl_bugs g \<and> dl_world g' = dl_world g"
  using dg_session_stop_ok [OF assms, of "dl_private g s" s False] assms dgl_invD(4) [OF assms, of s]
  by (fastforce simp: dg_do_stop_def split: option.splits)

text \<open>A stop creates no private data.\<close>

lemma dg_destroy_tech:
  "dg_destroy_tech_pvt tp g = Inr g' \<Longrightarrow> dl_tech g tq = None \<Longrightarrow> dl_tech g' tq = None"
  by (auto simp: dg_destroy_tech_pvt_def andthen_Inr_iff dg_get_tech_def dg_on_pipes_def dg_set_tech_def
      split: option.splits)

lemma dg_session_stop_locked_tech:
  assumes "dg_session_stop_locked s seen g = Inr (r, g')" "dl_tech g tq = None"
  shows "dl_tech g' tq = None"
proof (cases "seen \<noteq> None \<and> dl_private g s = seen")
  case False
  then have "g' = g" using assms(1)
    by (auto simp: dg_session_stop_locked_def andthen_Inr_iff split: option.splits)
  then show ?thesis using assms(2) by simp
next
  case True
  let ?g = "g\<lparr>dl_private := (dl_private g)(s := None)\<rparr>"
  obtain tp t where t: "dl_tech g tp = Some t"
    "dg_destroy_tech_pvt tp (case d_pAudioPipe t of Some ap \<Rightarrow> dg_reaper tp ap t ?g | None \<Rightarrow> ?g) = Inr g'"
    using assms(1) True
    by (auto simp: dg_session_stop_locked_def andthen_Inr_iff Let_def dg_get_tech_def split: option.splits)
  have "dl_tech (case d_pAudioPipe t of Some ap \<Rightarrow> dg_reaper tp ap t ?g | None \<Rightarrow> ?g) tq = None"
    using assms(2) t(1) by (auto simp: dg_reaper_def dg_set_tech_def split: option.splits)
  from dg_destroy_tech [OF t(2) this] show ?thesis .
qed

lemma dg_do_stop_tech:
  assumes "dg_do_stop s g = Inr (r, g')" "dl_tech g tq = None"
  shows "dl_tech g' tq = None"
proof (cases "dl_private g s")
  case None
  then show ?thesis using assms by (simp add: dg_do_stop_def)
next
  case (Some bug)
  then obtain st g1 where 1: "dg_session_stop_locked s (Some bug) g = Inr (st, g1)"
    "(case snd st of Some b \<Rightarrow> dg_capture_close b g1 | None \<Rightarrow> Inr g1) = Inr g'"
    using assms(1) by (auto simp: dg_do_stop_def dg_session_stop_def andthen_Inr_iff cong: option.case_cong)
  have t1: "dl_tech g1 tq = None" using dg_session_stop_locked_tech [OF 1(1) assms(2)] .
  show ?thesis
  proof (cases "snd st")
    case None
    then show ?thesis using 1(2) t1 by simp
  next
    case (Some b)
    then show ?thesis using 1(2) t1
      by (auto simp: dg_capture_close_def andthen_Inr_iff split: option.splits
          dest!: dg_session_stop_locked_tech [where tq = tq])
  qed
qed

section \<open>The reaper's thread\<close>

lemma dg_reaper_finish_ok:
  assumes g: "dgl_inv pre k g" and r: "(ap, False) \<in> set (dl_reapers g)"
  shows "\<exists>g'. dg_reaper_finish ap g = Inr g' \<and> dgl_inv pre k g'"
proof -
  let ?g = "g\<lparr>dl_reapers := map (\<lambda>(a, c). if a = ap then (a, True) else (a, c)) (dl_reapers g)\<rparr>"
  have "map fst (map (\<lambda>(a, c). if a = ap then (a, True) else (a, c)) l) = map fst l" for l :: "(ptr \<times> bool) list"
    by (induction l) auto
  then have g1: "dgl_inv pre k ?g" using g by (simp add: dgl_inv_def del: map_map)
  have "ap \<in> set (map fst (dl_reapers g))" using r by force
  then obtain p where p: "heap (dl_world g) ap = Some p" using ownersD(4) [OF dgl_invD(2) [OF g]] by blast
  obtain w where w: "dg_finish ap (dl_world g) = Inr w" "dg_inv pre w"
    using dg_finish_ok [OF dgl_invD(1) [OF g] p] by blast
  from dgl_inv_world [OF g1 w(2)] dg_finish_sized [OF w(1)] w(1) show ?thesis
    by (simp add: dg_reaper_finish_def dg_on_pipes_def)
qed

lemma dg_reaper_delete_ok:
  assumes g: "dgl_inv pre k g" and r: "(ap, c) \<in> set (dl_reapers g)"
    and e: "case heap (dl_world g) ap of None \<Rightarrow> True | Some p \<Rightarrow> waitForClose_returns p"
  shows "\<exists>g'. dg_reaper_delete ap g = Inr g' \<and> dgl_inv pre k g'"
proof -
  have R: "ap \<in> set (map fst (dl_reapers g))" using r by force
  then obtain p where p: "heap (dl_world g) ap = Some p" using ownersD(4) [OF dgl_invD(2) [OF g]] by blast
  have "\<not> attached (m_state p)"
    using world_okD(1) [OF dgl_invD(1) [OF g] p] e p by (auto simp: pipe_ok_def waitForClose_returns_def terminal_def)
  then obtain w where w: "destroy_pipe ap (dl_world g) = Inr w" "dg_inv pre w"
    "heap w = (heap (dl_world g))(ap := None)"
    using dg.destroy_pipe_ok [OF dgl_invD(1) [OF g] p] by blast
  have "owners pre ((heap (dl_world g))(ap := None)) (dgl_view g)
      (filter (\<lambda>a. a \<noteq> ap) (map fst (dl_reapers g))) (dl_activePipes g + k - 1)"
    by (rule owners_delete [OF dgl_invD(2) [OF g]]) (use p R ownersD(5) [OF dgl_invD(2) [OF g]] in auto)
  moreover have "filter (\<lambda>a. a \<noteq> ap) (map fst l) = map fst (filter (\<lambda>(a, c). a \<noteq> ap) l)"
    for l :: "(ptr \<times> bool) list" by (induction l) auto
  ultimately have "dgl_inv pre k (g\<lparr>dl_world := w, dl_reapers := filter (\<lambda>(a, c). a \<noteq> ap) (dl_reapers g),
      dl_activePipes := dl_activePipes g - 1\<rparr>)"
    using g w(2,3) unfolding dgl_inv_def by (simp add: algebra_simps)
  then show ?thesis using w(1) by (simp add: dg_reaper_delete_def dg_on_pipes_def)
qed

section \<open>Frames and the library\<close>

lemma dg_transcribe_frame_ok:
  assumes g: "dgl_inv pre k g" and e: "dgl_enabled pre secs (DGFrame bug locked f frames) g"
  shows "\<exists>g'. dg_transcribe_frame pre bug locked f frames g = Inr g' \<and> dgl_inv pre k g'"
proof -
  obtain s tp where b: "dl_bugs g bug = Some (s, tp)" using e by auto
  obtain t where t: "dl_tech g tp = Some t" using dgl_invD(3) [OF g b] by blast
  note base = dg_get_tech_def dg_transcribe_frame_def b t
  show ?thesis
  proof (cases "locked \<and> d_pAudioPipe t \<noteq> None")
    case False
    then show ?thesis using g by (auto simp: base)
  next
    case True
    then obtain ap where ap: "d_pAudioPipe t = Some ap" by auto
    obtain p where p: "heap (dl_world g) ap = Some p" "roomy pre (d_channels t) p"
      using dgl_inv_pipe [OF g t ap] by blast
    note w = dgl_invD(1) [OF g]
    show ?thesis
    proof (cases "m_state p = LWS_CLIENT_CONNECTED")
      case False
      then show ?thesis using True ap p(1) g by (auto simp: base deref_def)
    next
      case conn: True
      have "m_vhd p \<noteq> None" using world_okD(1) [OF w p(1)] conn by (simp add: pipe_ok_def)
      let ?r = "if d_resampler t then Some f else None"
      have en: "media_enabled pre ap (d_channels t) ?r frames (dl_world g)"
        using e b t ap p \<open>m_vhd p \<noteq> None\<close> by (auto simp: dg_bug_pipe_def media_enabled_def roomy_def)
      obtain nt n w' where m: "dg_media pre (d_channels t) ?r frames (d_buffer_overrun_notified t) ap (dl_world g)
          = Inr ((nt, n), w')" "dg_inv pre w'"
        using dg.media_frames_ok [OF w en, of "d_buffer_overrun_notified t"] by (auto simp: dg_media_def)
      have "heap_rel dg_sized (dl_world g) w'" using dgs.media_frames_rel [OF w en] m(1) by (simp add: dg_media_def)
      from dgl_inv_world [OF g m(2) this] have g1: "dgl_inv pre k (g\<lparr>dl_world := w'\<rparr>)" .
      have "dgl_inv pre k ((dg_set_tech tp (t\<lparr>d_buffer_overrun_notified := nt\<rparr>) (g\<lparr>dl_world := w'\<rparr>))
          \<lparr>dl_events := ev\<rparr>)" for ev
        using dgl_inv_set_tech [OF g1, of tp t "t\<lparr>d_buffer_overrun_notified := nt\<rparr>"] t by simp
      then have "dgl_inv pre k ((dg_set_tech tp (t\<lparr>d_buffer_overrun_notified := nt\<rparr>) g)
          \<lparr>dl_world := w', dl_events := ev\<rparr>)" for ev
        by (rule dgl_inv_same [THEN iffD1, rotated 6]) (simp_all add: dg_set_tech_def)
      then show ?thesis using True conn ap p(1) m(1) by (simp add: base deref_def)
    qed
  qed
qed

lemma dg_library_ok:
  assumes g: "dgl_inv pre k g" and e: "dg_library_action a" "dg_enabled pre a (dl_world g)"
  shows "\<exists>g'. dg_with_callbacks L (dg_exec pre a) g = Inr g' \<and> dgl_inv pre k g'"
proof -
  obtain w' where w': "dg_exec pre a (dl_world g) = Inr w'" "dg_inv pre w'"
    using dg_step_ok [OF dgl_invD(1) [OF g] e(2)] by blast
  from dg_with_callbacks_ok [where f = "dg_exec pre a", OF g w' dg_library_sized [OF dgl_invD(1) [OF g] e w'(1)]]
  show ?thesis by blast
qed

section \<open>Starting a capture\<close>

lemma dg_new_tech_ok:
  assumes g: "dgl_inv pre k g" and f: "dl_tech g tp = None" and t: "d_pAudioPipe t = None"
  shows "dgl_inv pre k (dg_set_tech tp t g)"
proof -
  have "owners pre (heap (dl_world g)) ((dgl_view g)(tp := Some (None, d_channels t))) (map fst (dl_reapers g))
      (dl_activePipes g + k)"
    by (rule owners_new_none [OF dgl_invD(2) [OF g]]) (simp add: dgl_view_def f)
  then have "owners pre (heap (dl_world g)) (dgl_view (dg_set_tech tp t g)) (map fst (dl_reapers g))
      (dl_activePipes g + k)"
    using t by (simp add: dgl_view_set_tech)
  then show ?thesis using g unfolding dgl_inv_def by (simp add: dg_set_tech_def)
qed

lemma dg_new_pipe_ok:
  assumes g: "dgl_inv pre k g" and f: "dl_tech g tp = None" "heap (dl_world g) ap = None"
    and t: "d_pAudioPipe t = Some ap" "roomy pre (d_channels t) p"
    and p: "pipe_ok pre p" "dg_extra p" "m_state p = LWS_CLIENT_IDLE"
  shows "dgl_inv pre (k + 1) (dg_set_tech tp t (g\<lparr>dl_world := set_pipe ap p (dl_world g)\<rparr>))"
    (is "dgl_inv pre _ ?g")
proof -
  have "owners pre ((heap (dl_world g))(ap := Some p)) ((dgl_view g)(tp := Some (Some ap, d_channels t)))
      (map fst (dl_reapers g)) (dl_activePipes g + k + 1)"
    by (rule owners_new [OF dgl_invD(2) [OF g] f(2) _ t(2)]) (simp add: dgl_view_def f(1))
  moreover have "dgl_view ?g = (dgl_view g)(tp := Some (Some ap, d_channels t))"
    using t(1) by (simp add: dgl_view_set_tech)
  moreover have "dg_inv pre (dl_world ?g)"
    using dg.new_pipe_ok [OF dgl_invD(1) [OF g] f(2) p] by (simp add: dg_set_tech_def)
  ultimately show ?thesis using g unfolding dgl_inv_def by (simp add: dg_set_tech_def set_pipe_def add.assoc)
qed

lemma dg_destroy_own_ok:
  assumes g: "dgl_inv pre (k + 1) g" and t: "dl_tech g tp = Some t" "d_pAudioPipe t = Some ap"
    and p: "heap (dl_world g) ap = Some p" "\<not> attached (m_state p)"
  shows "\<exists>g'. dg_destroy_tech_pvt tp g = Inr g' \<and> dgl_inv pre k g'"
proof -
  let ?u = "t\<lparr>d_pAudioPipe := None, d_resampler := False\<rparr>"
  obtain w where w: "destroy_pipe ap (dl_world g) = Inr w" "dg_inv pre w"
    "heap w = (heap (dl_world g))(ap := None)"
    using dg.destroy_pipe_ok [OF dgl_invD(1) [OF g] p] by blast
  have o: "owners pre ((heap (dl_world g))(ap := None)) ((dgl_view g)(tp := Some (None, d_channels t)))
      (map fst (dl_reapers g)) (dl_activePipes g + (k + 1) - 1)"
    by (rule owners_delete_own [OF dgl_invD(2) [OF g] dgl_view_pipe [OF t]])
  have v: "dgl_view (dg_set_tech tp ?u (g\<lparr>dl_world := w\<rparr>)) = (dgl_view g)(tp := Some (None, d_channels t))"
    by (simp add: dgl_view_set_tech)
  have "dgl_inv pre k (dg_set_tech tp ?u (g\<lparr>dl_world := w\<rparr>))"
    using g w(2,3) o v unfolding dgl_inv_def by (simp add: dg_set_tech_def)
  then show ?thesis using w(1) t by (simp add: dg_destroy_tech_pvt_def dg_get_tech_def dg_on_pipes_def)
qed

lemma dg_connect_ok:
  assumes g: "dgl_inv pre k g" and p: "heap (dl_world g) ap = Some p" "m_state p = LWS_CLIENT_IDLE"
  shows "\<exists>g'. dg_with_callbacks L (dg_connect ap) g = Inr g' \<and> dgl_inv pre k g' \<and> dl_tech g' = dl_tech g"
proof -
  note w = dgl_invD(1) [OF g]
  obtain w' where w': "dg_connect ap (dl_world g) = Inr w'" "dg_inv pre w'"
    using dg_step_ok [OF w, of "DConnect ap"] p by auto
  have "heap_rel dg_sized (dl_world g) w'"
    using dgs.addPendingConnect_rel [OF w p] w'(1) by (simp add: dg_connect_def)
  from dg_with_callbacks_ok [where f = "dg_connect ap", OF g w' this] show ?thesis .
qed

lemma dg_fork_data_init_cases:
  assumes b: "fork_buflen pre dg_desiredSampling (int channels) secs = Inr (length (v_block e))"
  obtains (nokey) t where "d_channels t = channels" "d_pAudioPipe t = None"
      "dg_fork_data_init L pre secs key e rate channels lang interim bugname g =
        Inr (SWITCH_STATUS_FALSE, dg_set_tech (v_tech e) t (g\<lparr>dl_idxCallCount := dl_idxCallCount g + 1\<rparr>))"
    | (key) status t args where "d_channels t = channels" "d_pAudioPipe t = Some (v_pipe e)"
      "da_block args = v_block e" "da_bufLen args = length (v_block e)" "da_minFreespace args = v_bytes_per_packet e"
      "da_uuid args = strncpy_field 256 (v_uuid e)"
      "dg_fork_data_init L pre secs key e rate channels lang interim bugname g =
        Inr (status, dg_set_tech (v_tech e) t (g\<lparr>dl_idxCallCount := dl_idxCallCount g + 1,
          dl_world := set_pipe (v_pipe e) (dg_AudioPipe_new pre args) (dl_world g)\<rparr>))"
proof (cases "case v_vars e ''DEEPGRAM_API_KEY'' of Some k \<Rightarrow> Some k | None \<Rightarrow> key")
  case None
  show ?thesis
    by (rule nokey [of "dg_private_init L e channels lang interim bugname (dl_idxCallCount g + 1)"])
      (simp_all add: dg_fork_data_init_def Let_def b None dg_private_init_def)
next
  case (Some k)
  let ?t = "dg_private_init L e channels lang interim bugname (dl_idxCallCount g + 1)"
  show ?thesis
    by (rule key [of "?t\<lparr>d_pAudioPipe := Some (v_pipe e),
            d_resampler := (dg_desiredSampling \<noteq> rate) \<and> v_resampler_ok e\<rparr>"
          "dg_pipe_args e ?t (length (v_block e)) k"])
      (simp_all add: dg_fork_data_init_def Let_def b Some dg_private_init_def dg_pipe_args_def)
qed

lemma dg_session_init_ok:
  assumes g: "dgl_inv pre 0 g"
    and f: "dl_tech g (v_tech e) = None" "heap (dl_world g) (v_pipe e) = None" "0 < channels"
    and b: "v_bytes_per_packet e * channels + pre \<le> length (v_block e)"
      "fork_buflen pre dg_desiredSampling (int channels) secs = Inr (length (v_block e))"
  shows "\<exists>status g'. dg_session_init L pre secs key e rate channels lang interim bugname g = Inr (status, g') \<and>
    dgl_inv pre 0 g' \<and> (status = SWITCH_STATUS_SUCCESS \<longrightarrow> (\<exists>t. dl_tech g' (v_tech e) = Some t \<and> d_pAudioPipe t \<noteq> None))"
proof (cases "v_alloc_ok e")
  case False
  then show ?thesis using g by (simp add: dg_session_init_def)
next
  case True
  note gi = dgl_inv_updates(3) [THEN iffD2, OF g, of "dl_idxCallCount g + 1"]
  let ?g0 = "g\<lparr>dl_idxCallCount := dl_idxCallCount g + 1\<rparr>"
  have f0: "dl_tech ?g0 (v_tech e) = None" "heap (dl_world ?g0) (v_pipe e) = None" using f by simp_all
  show ?thesis
  proof (cases rule: dg_fork_data_init_cases [OF b(2), of L key rate lang interim bugname g])
    case (1 t)
    note nokey = this
    then show ?thesis
      using dg_destroy_none_ok [OF dg_new_tech_ok [OF gi f0(1) nokey(2)], of "v_tech e" t] True
      by (simp add: dg_session_init_def dg_set_tech_def)
  next
    case (2 status t args)
    note key = this
    let ?g1 = "dg_set_tech (v_tech e) t (?g0\<lparr>dl_world :=
      set_pipe (v_pipe e) (dg_AudioPipe_new pre args) (dl_world ?g0)\<rparr>)"
    define g1 where "g1 = ?g1"
    have d: "dg_fork_data_init L pre secs key e rate channels lang interim bugname g = Inr (status, g1)"
      using key(7) by (simp add: g1_def)
    let ?P = "dg_AudioPipe_new pre args"
    have P: "pipe_ok pre ?P" "dg_extra ?P" "m_state ?P = LWS_CLIENT_IDLE"
      using dg_AudioPipe_new_ok [of args pre] key(3,4) b(1) by simp_all
    have "roomy pre (d_channels t) ?P" using key(1,4,5) b(1) f(3)
      by (simp add: roomy_def dg_AudioPipe_new_def pipe_init_def pipe.defs dg_pipe.defs binaryMinSpace_def)
    from dg_new_pipe_ok [OF gi f0 key(2) this P] have g1: "dgl_inv pre (0 + 1) g1" by (simp add: g1_def)
    have t1: "dl_tech g1 (v_tech e) = Some t" "heap (dl_world g1) (v_pipe e) = Some ?P"
      by (simp_all add: g1_def dg_set_tech_def set_pipe_def)
    show ?thesis
    proof (cases "status = SWITCH_STATUS_SUCCESS")
      case False
      have "\<not> attached (m_state ?P)" using P(3) by simp
      from dg_destroy_own_ok [OF g1 t1(1) key(2) t1(2) this] False d True show ?thesis
        by (auto simp: dg_session_init_def)
    next
      case ok: True
      obtain g2 where g2: "dg_with_callbacks L (dg_connect (v_pipe e)) g1 = Inr g2" "dgl_inv pre (0 + 1) g2"
        "dl_tech g2 = dl_tech g1"
        using dg_connect_ok [OF g1 t1(2) P(3)] by blast
      have "dgl_inv pre 0 (g2\<lparr>dl_activePipes := dl_activePipes g2 + 1\<rparr>)"
        using g2(2) by (simp add: dgl_inv_def)
      then show ?thesis using d True ok t1(1) key(2) g2(1,3)
        by (simp add: dg_session_init_def dg_get_tech_def)
    qed
  qed
qed

lemma dg_session_cleanup_ok:
  assumes g: "dgl_inv pre 0 g" and t: "dl_tech g tp = Some t" "d_pAudioPipe t \<noteq> None"
  shows "\<exists>g'. dg_session_cleanup tp g = Inr g' \<and> dgl_inv pre 0 g'"
  using dg_hand_over_ok [OF g t(1)] t by (auto simp: dg_session_cleanup_def dg_get_tech_def Let_def)

end
