(* ===== verification/DgGlueProps.thy ===== *)
theory DgGlueProps
  imports DgGlueSteps
begin

text \<open>
  The properties of the sessions of mod_deepgram_transcribe: no operation goes wrong, the unload
  gate, stale stops do nothing; but what the far end sends after a stop, and a connect that fails at
  once, are not reported to anyone.
\<close>

section \<open>Every step\<close>

lemma dg_session_init_status:
  assumes "dg_session_init L pre secs key e rate channels lang interim bugname g = Inr (status, g')"
  shows "status = SWITCH_STATUS_SUCCESS \<or> status = SWITCH_STATUS_FALSE"
  using assms by (auto simp: dg_session_init_def andthen_Inr_iff split: if_splits option.splits)

lemma dg_start_capture_ok:
  assumes g: "dgl_inv pre 0 g" and e: "dgl_enabled pre secs (DGStart e rate stereo lang interim bugname ready added) g"
  shows "\<exists>r g'. dg_start_capture L pre secs key e rate stereo lang interim bugname ready added g = Inr (r, g') \<and>
    dgl_inv pre 0 g'"
proof -
  obtain g1 where g1: "(if dl_private g (v_uuid e) \<noteq> None
      then andthen (dg_do_stop (v_uuid e) g) (\<lambda>(_, g1). Inr g1) else Inr g) = Inr g1"
    "dgl_inv pre 0 g1" "dl_bugs g1 = dl_bugs g" "dl_world g1 = dl_world g" "dl_tech g1 (v_tech e) = None"
  proof (cases "dl_private g (v_uuid e)")
    case None
    then show ?thesis using that [of g] g e by simp
  next
    case (Some bug)
    obtain r g1 where "dg_do_stop (v_uuid e) g = Inr (r, g1)" "dgl_inv pre 0 g1" "dl_bugs g1 = dl_bugs g"
      "dl_world g1 = dl_world g"
      using dg_do_stop_ok [OF g] by blast
    moreover from this(1) have "dl_tech g1 (v_tech e) = None" using dg_do_stop_tech e by simp
    ultimately show ?thesis using that [of g1] Some by simp
  qed
  show ?thesis
  proof (cases ready)
    case False
    then show ?thesis using g1(1,2) by (simp add: dg_start_capture_def)
  next
    case True
    let ?c = "if stereo then 2 else 1 :: nat"
    have b: "v_bytes_per_packet e * ?c + pre \<le> length (v_block e)"
      "fork_buflen pre dg_desiredSampling (int ?c) secs = Inr (length (v_block e))"
      using e by (auto split: if_splits)
    have f: "heap (dl_world g1) (v_pipe e) = None" "0 < ?c" using e g1(4) by simp_all
    obtain status g2 where i: "dg_session_init L pre secs key e rate ?c lang interim bugname g1 = Inr (status, g2)"
      "dgl_inv pre 0 g2" "status = SWITCH_STATUS_SUCCESS \<Longrightarrow>
        \<exists>t. dl_tech g2 (v_tech e) = Some t \<and> d_pAudioPipe t \<noteq> None"
      using dg_session_init_ok [OF g1(2,5) f b, of L key rate lang interim bugname] by blast
    show ?thesis
    proof (cases "status = SWITCH_STATUS_FALSE")
      case False
      then have "status = SWITCH_STATUS_SUCCESS" using dg_session_init_status [OF i(1)] by simp
      then obtain t where t: "dl_tech g2 (v_tech e) = Some t" "d_pAudioPipe t \<noteq> None" using i(3) by blast
      have "dgl_inv pre 0 (g2\<lparr>dl_bugs := (dl_bugs g2)(bug := Some (v_uuid e, v_tech e)),
          dl_private := (dl_private g2)(v_uuid e := Some bug)\<rparr>)" for bug
        using i(2) t(1) by (auto simp: dgl_inv_def)
      then show ?thesis using g1(1) True i(1) False dg_session_cleanup_ok [OF i(2) t]
        by (cases added) (auto simp: dg_start_capture_def)
    qed (use g1(1) True i(1,2) in \<open>simp add: dg_start_capture_def\<close>)
  qed
qed

lemma dgl_step_ok:
  assumes g: "dgl_inv pre 0 g" and e: "dgl_enabled pre secs a g"
  shows "\<exists>g'. dgl_exec L pre secs key a g = Inr g' \<and> dgl_inv pre 0 g'"
proof (cases a)
  case (DGStart en rate stereo lang interim bugname ready added)
  then show ?thesis
    using dg_start_capture_ok [OF g, of secs en rate stereo lang interim bugname ready added L key] e by auto
next
  case (DGStop s seen closing)
  then show ?thesis using dg_session_stop_ok [OF g, of seen s closing] e by auto
next
  case (DGFrame bug locked f frames)
  then show ?thesis using dg_transcribe_frame_ok [OF g] e by (simp only: dgl_exec.simps)
next
  case (DGBugClosed bug)
  then show ?thesis using dg_capture_close_ok [OF g, of bug] e by auto
next
  case (DGReaperFinish ap)
  then show ?thesis using dg_reaper_finish_ok [OF g] e by simp
next
  case (DGReaperDelete ap)
  then show ?thesis using dg_reaper_delete_ok [OF g, of ap True] e by simp
next
  case (DGLibrary b)
  then show ?thesis using dg_library_ok [OF g, of b L] e by simp
next
  case (DGHangup s)
  then show ?thesis using g by simp
qed

lemma dgl_reach_inv: "dgl_reach L pre secs key g \<Longrightarrow> dgl_inv pre 0 g"
proof (induction rule: dgl_reach.induct)
  case (start g)
  then have "heap (dl_world g) = Map.empty" "dgl_view g = Map.empty"
    by (auto simp: dgl_start_def dg_start_def dgl_view_def)
  then show ?case using start dg_start_inv [of "dl_world g" pre]
    by (simp add: dgl_start_def dgl_inv_def owners_empty)
next
  case (step g a g')
  then show ?case using dgl_step_ok [OF step.IH step.hyps(2), of L key] by simp
qed

section \<open>Properties\<close>


text \<open>The unload gate counts exactly the live pipes, and is open if and only if no session and no
  reaper has one.\<close>

lemma dg_unload_gate:
  assumes "dgl_reach L pre secs key g"
  shows "dg_sessions_active g = int (card {ap. heap (dl_world g) ap \<noteq> None}) \<and>
    (dg_sessions_active g \<le> 0 \<longleftrightarrow>
      (\<forall>ap. heap (dl_world g) ap = None) \<and> dl_reapers g = [] \<and>
      (\<forall>tp t. dl_tech g tp = Some t \<longrightarrow> d_pAudioPipe t = None))"
proof -
  note inv = dgl_reach_inv [OF assms]
  note o = dgl_invD(2) [OF inv]
  have n: "dg_sessions_active g = int (card (dom (heap (dl_world g))))" "finite (dom (heap (dl_world g)))"
    using ownersD(1,2) [OF o] by (simp_all add: dg_sessions_active_def)
  then have "dg_sessions_active g \<le> 0 \<longleftrightarrow> (\<forall>ap. heap (dl_world g) ap = None)"
    by (auto simp: dom_eq_empty_conv fun_eq_iff)
  moreover have "dl_reapers g = []" if "\<forall>ap. heap (dl_world g) ap = None"
    using that ownersD(4) [OF o] by (cases "dl_reapers g") auto
  moreover have "d_pAudioPipe t = None" if "\<forall>ap. heap (dl_world g) ap = None" "dl_tech g tp = Some t" for tp t
    using that dgl_inv_pipe [OF inv that(2)] by (cases "d_pAudioPipe t") auto
  ultimately show ?thesis using n by (auto simp: dom_def)
qed

section \<open>What is not reported\<close>

definition events_of :: "string \<Rightarrow> dg_glue \<Rightarrow> dg_fired list" where
  "events_of s g = filter (\<lambda>e. fst e = s) (dl_events g)"

text \<open>A state without a bug for the call stays so, and silent, while only the library and the reaper
  threads work.\<close>

definition mute :: "string \<Rightarrow> dg_glue \<Rightarrow> dg_glue \<Rightarrow> bool" where
  "mute s g g' \<longleftrightarrow> (dl_private g s = None \<longrightarrow> dl_private g' s = None \<and> events_of s g' = events_of s g)"

lemma mute_refl: "dl_private g' = dl_private g \<Longrightarrow> dl_events g' = dl_events g \<Longrightarrow> mute s g g'"
  by (simp add: mute_def events_of_def)

lemma mute_trans: "mute s g g1 \<Longrightarrow> mute s g1 g2 \<Longrightarrow> mute s g g2"
  by (simp add: mute_def)

lemma mute_pre: "mute s (g\<lparr>dl_world := w\<rparr>) g' = mute s g g'"
  by (simp add: mute_def events_of_def)

lemma dg_eventCallback_mute: "dg_eventCallback L n g = Inr g' \<Longrightarrow> mute s g g'"
  by (cases n)
    (auto simp: dg_eventCallback_def andthen_Inr_iff Let_def mute_def events_of_def dg_responseHandler_def
      split: option.splits if_splits notify_event.splits)

lemma dg_run_callbacks_mute: "dg_run_callbacks L ns g = Inr g' \<Longrightarrow> mute s g g'"
proof (induction ns arbitrary: g)
  case (Cons n ns)
  obtain ap m where n: "n = (ap, m)" by (cases n)
  then obtain g1 where "dg_eventCallback L m g = Inr g1" "dg_run_callbacks L ns g1 = Inr g'"
    using Cons.prems by (auto simp: andthen_Inr_iff)
  then show ?case using dg_eventCallback_mute Cons.IH mute_trans by blast
qed (simp add: mute_refl)

lemma dg_with_callbacks_mute:
  assumes "dg_with_callbacks L f g = Inr g'"
  shows "mute s g g'"
proof -
  obtain w ns where "dg_run_callbacks L ns (g\<lparr>dl_world := w\<rparr>) = Inr g'"
    using assms by (auto simp: dg_with_callbacks_def dg_on_pipes_def andthen_Inr_iff)
  from dg_run_callbacks_mute [OF this] show ?thesis by (simp add: mute_pre)
qed

fun background :: "dgl_action \<Rightarrow> bool" where
  "background (DGLibrary a) = True"
| "background (DGReaperFinish ap) = True"
| "background (DGReaperDelete ap) = True"
| "background (DGHangup s) = True"
| "background _ = False"

fun dgl_run :: "dg_lib \<Rightarrow> nat \<Rightarrow> int \<Rightarrow> string option \<Rightarrow> dgl_action list \<Rightarrow> dg_glue \<Rightarrow> ub + dg_glue" where
  "dgl_run L pre secs key [] g = Inr g"
| "dgl_run L pre secs key (a # as) g = andthen (dgl_exec L pre secs key a g) (dgl_run L pre secs key as)"

lemma background_mute:
  assumes "background a" "dgl_exec L pre secs key a g = Inr g'"
  shows "mute s g g'"
  using assms dg_with_callbacks_mute
  by (cases a) (auto simp: dg_reaper_finish_def dg_reaper_delete_def dg_on_pipes_def andthen_Inr_iff intro: mute_refl)

lemma background_run_mute: "list_all background as \<Longrightarrow> dgl_run L pre secs key as g = Inr g' \<Longrightarrow> mute s g g'"
proof (induction as arbitrary: g)
  case (Cons a as)
  then obtain g1 where "dgl_exec L pre secs key a g = Inr g1" "dgl_run L pre secs key as g1 = Inr g'"
    by (auto simp: andthen_Inr_iff)
  then show ?case using Cons.IH [of g1] Cons.prems(1) background_mute mute_trans by fastforce
qed (simp add: mute_refl)

text \<open>The stop itself forgets the bug and reports nothing.\<close>

lemma dg_destroy_keeps:
  "dg_destroy_tech_pvt tp g = Inr g' \<Longrightarrow> dl_events g' = dl_events g \<and> dl_private g' = dl_private g"
  by (auto simp: dg_destroy_tech_pvt_def andthen_Inr_iff dg_on_pipes_def dg_set_tech_def split: option.splits)

lemma dg_session_stop_locked_events:
  assumes "dg_session_stop_locked s seen g = Inr (r, g')"
  shows "dl_events g' = dl_events g"
proof (cases "seen \<noteq> None \<and> dl_private g s = seen")
  case False
  then have "g' = g" using assms
    by (auto simp: dg_session_stop_locked_def andthen_Inr_iff split: option.splits)
  then show ?thesis by simp
next
  case True
  let ?g = "g\<lparr>dl_private := (dl_private g)(s := None)\<rparr>"
  obtain tp t where t: "dl_tech g tp = Some t"
    "dg_destroy_tech_pvt tp (case d_pAudioPipe t of Some ap \<Rightarrow> dg_reaper tp ap t ?g | None \<Rightarrow> ?g) = Inr g'"
    using assms True
    by (auto simp: dg_session_stop_locked_def andthen_Inr_iff Let_def dg_get_tech_def split: option.splits)
  from dg_destroy_keeps [OF t(2)] show ?thesis
    by (auto simp: dg_reaper_def dg_set_tech_def split: option.splits)
qed

lemma dg_session_stop_forgets:
  assumes g: "dgl_inv pre k g" and b: "dl_private g s = Some bug"
    and r: "dg_session_stop s (Some bug) closing g = Inr (st, g')"
  shows "dl_private g' s = None \<and> dl_events g' = dl_events g"
proof -
  have known: "dl_bugs g bug \<noteq> None" using dgl_invD(4) [OF g b] by auto
  obtain q g1 where 1: "dg_session_stop_locked s (Some bug) g = Inr (q, g1)" "dgl_inv pre k g1"
    "dl_private g1 = (dl_private g)(s := None)"
    using dg_session_stop_locked_ok [OF g, of "Some bug" s] known b by auto
  have e1: "dl_events g1 = dl_events g" using dg_session_stop_locked_events [OF 1(1)] .
  have "g' = g1 \<or> (\<exists>bg. dg_capture_close bg g1 = Inr g')"
    using r 1(1) by (cases q) (auto simp: dg_session_stop_def andthen_Inr_iff split: option.splits if_splits)
  then show ?thesis
  proof
    assume "\<exists>bg. dg_capture_close bg g1 = Inr g'"
    then obtain s' st' where c: "dg_session_stop_locked s' (dl_private g1 s') g1 = Inr (st', g')"
      by (auto simp: dg_capture_close_def andthen_Inr_iff split: option.splits)
    have "case dl_private g1 s' of None \<Rightarrow> True | Some bug \<Rightarrow> dl_bugs g1 bug \<noteq> None"
      using dgl_invD(4) [OF 1(2)] by (fastforce split: option.splits)
    from dg_session_stop_locked_ok [OF 1(2) this, of s'] c have "dl_private g' s = None" using 1(3) by auto
    with dg_session_stop_locked_events [OF c] e1 show ?thesis by simp
  qed (use 1(3) e1 in simp)
qed

text \<open>C24: after a stop by the current bug nothing that happens on the connection is reported any more,
  whatever the library and the reaper threads do: the final results that the CloseStream of the
  reaper asks for are received and dropped.\<close>

theorem dg_stop_silences:
  assumes "dgl_reach L pre secs key g" "dl_private g s = Some bug"
    and "dg_session_stop s (Some bug) closing g = Inr (st, g1)"
    and "list_all background as" "dgl_run L pre secs key as g1 = Inr g2"
  shows "events_of s g2 = events_of s g"
proof -
  have "dl_private g1 s = None" "events_of s g1 = events_of s g"
    using dg_session_stop_forgets [OF dgl_reach_inv [OF assms(1)] assms(2,3)] by (simp_all add: events_of_def)
  then show ?thesis using background_run_mute [OF assms(4,5), of s] by (simp add: mute_def)
qed

lemma dg_eventCallback_none:
  "dl_private g s = None \<Longrightarrow> dg_eventCallback L (s, event, message, finished) g = Inr g"
  by (simp add: dg_eventCallback_def)

lemma pick_context_none:
  assumes "numContexts w \<le> length (contexts w)" "set (take (numContexts w) (contexts w)) \<subseteq> {None}"
    "k \<le> numContexts w"
  shows "fst (pick_context k w) = None"
  using assms
proof (induction k arbitrary: w)
  case (Suc k)
  let ?i = "unat (nchild w) mod numContexts w"
  have "?i < numContexts w" using Suc.prems(3) by simp
  then have "contexts w ! ?i \<in> set (take (numContexts w) (contexts w))"
    using Suc.prems(1) by (metis in_set_conv_nth length_take min.absorb2 nth_take)
  then have "contexts w ! ?i = None" using Suc.prems(2) by auto
  then show ?case using Suc.IH [of "w\<lparr>nchild := nchild w + 1\<rparr>"] Suc.prems by (simp add: Let_def)
qed simp

text \<open>A session is connected before its bug exists, so when no service thread has a context the
  start reports success and the failed connection is reported to nobody: no event is sent, and the
  pipe is FAILED.\<close>

lemma dg_failed_connect_unreported:
  assumes "dgl_reach L pre secs key g" "dl_private g (v_uuid e) = None"
    and "dgl_enabled pre secs (DGStart e rate stereo lang interim bugname True (Some bug)) g"
    and "numContexts (dl_world g) \<le> length (contexts (dl_world g))"
    and "set (take (numContexts (dl_world g)) (contexts (dl_world g))) \<subseteq> {None}"
    and "c_str (strncpy_field 256 (v_uuid e)) = v_uuid e"
    and "dg_start_capture L pre secs key e rate stereo lang interim bugname True (Some bug) g =
      Inr (SWITCH_STATUS_SUCCESS, g')"
  shows "dl_events g' = dl_events g \<and>
    (\<exists>p. heap (dl_world g') (v_pipe e) = Some p \<and> m_state p = LWS_CLIENT_FAILED \<and> waitForClose_returns p)"
proof -
  let ?c = "if stereo then 2 else 1 :: nat"
  have b: "fork_buflen pre dg_desiredSampling (int ?c) secs = Inr (length (v_block e))"
    using assms(3) by (auto split: if_splits)
  obtain g3 where g3: "dg_session_init L pre secs key e rate ?c lang interim bugname g = Inr (SWITCH_STATUS_SUCCESS, g3)"
    "dl_events g' = dl_events g3" "dl_world g' = dl_world g3"
    using assms(2,7) dg_session_init_status [of L pre secs key e rate ?c lang interim bugname g]
    by (fastforce simp: dg_start_capture_def andthen_Inr_iff split: if_splits)
  then have a: "v_alloc_ok e" by (auto simp: dg_session_init_def split: if_splits)
  show ?thesis
  proof (cases rule: dg_fork_data_init_cases [OF b, of L key rate lang interim bugname g])
    case (1 t)
    then show ?thesis using g3(1) a by (auto simp: dg_session_init_def andthen_Inr_iff)
  next
    case (2 status t args)
    let ?p = "dg_AudioPipe_new pre args"
    let ?w = "set_pipe (v_pipe e) ?p (dl_world g)"
    let ?g1 = "dg_set_tech (v_tech e) t (g\<lparr>dl_idxCallCount := dl_idxCallCount g + 1, dl_world := ?w\<rparr>)"
    obtain g2 where g2: "dg_with_callbacks L (dg_connect (v_pipe e)) ?g1 = Inr g2" "dl_events g3 = dl_events g2"
      "dl_world g3 = dl_world g2"
      using g3(1) a 2(2,7)
      by (auto simp: dg_session_init_def andthen_Inr_iff dg_get_tech_def dg_set_tech_def split: if_splits)
    obtain c w1 where pc: "pick_context (numContexts ?w) ?w = (c, w1)" by force
    have "c = None" using pick_context_none [of ?w "numContexts ?w"] assms(4,5) pc by (simp add: set_pipe_def)
    have w1: "heap w1 = heap ?w" "notifications w1 = notifications (dl_world g)"
      by (subst dg.pick_context_frame [OF pc], simp add: set_pipe_def)+
    have p: "promise_ok ?p" "m_state ?p = LWS_CLIENT_IDLE"
      by (simp_all add: promise_ok_def dg_AudioPipe_new_def pipe_init_def pipe.defs dg_pipe.defs terminal_def)
    have h1: "heap w1 (v_pipe e) = Some ?p" using w1(1) by (simp add: set_pipe_def)
    let ?q = "?p\<lparr>m_state := LWS_CLIENT_FAILED, m_closeSignaled := True, m_promise := True\<rparr>"
    define w2 where "w2 = set_pipe (v_pipe e) ?q (w1\<lparr>notifications := notifications w1 @
        [(v_pipe e, dg_notify (?p\<lparr>m_state := LWS_CLIENT_FAILED\<rparr>) CONNECT_FAIL (Some ''no lws context available''))]\<rparr>)"
    have conn: "dg_connect (v_pipe e) ?w = Inr w2"
      using dg.fail_connect_eq [OF h1 p(1)] pc \<open>c = None\<close>
      by (simp add: dg_connect_def addPendingConnect_def w2_def)
    have q: "heap w2 (v_pipe e) = Some ?q" by (simp add: w2_def set_pipe_def)
    have n: "drop (length (notifications ?w)) (notifications w2)
        = [(v_pipe e, dg_notify (?p\<lparr>m_state := LWS_CLIENT_FAILED\<rparr>) CONNECT_FAIL (Some ''no lws context available''))]"
      using w1(2) by (simp add: w2_def set_pipe_def)
    have "c_str (m_uuid ?p) = v_uuid e"
      using assms(6) 2(6) by (simp add: dg_AudioPipe_new_def pipe_init_def pipe.defs dg_pipe.defs)
    then have "g2 = ?g1\<lparr>dl_world := w2\<rparr>"
      using g2(1) conn n assms(2)
      by (simp add: dg_with_callbacks_def dg_on_pipes_def dg_eventCallback_none dg_notify_def dg_set_tech_def)
    then show ?thesis using g2(2,3) g3(2,3) q by (simp add: dg_set_tech_def waitForClose_returns_def)
  qed
qed

end
