(* ===== verification/DgDemo.thy ===== *)
theory DgDemo
  imports DgProps
begin

text \<open>
  A concrete call to deepgram: a pipe is created, connected and finished; the properties of theory
  \<open>DgProps\<close> are instantiated on the worlds it passes through.
\<close>

definition dgd_args :: dg_args where
  "dgd_args = \<lparr>da_uuid = ''u'', da_host = ''h'', da_port = 443, da_path = ''/'', da_bufLen = 10,
     da_minFreespace = 4, da_apiKey = ''k'', da_block = replicate 10 0, da_junk = 0\<rparr>"

definition dgd_pipe :: dg_pipe where
  "dgd_pipe = dg_AudioPipe_new 2 dgd_args"

definition dgd_start :: dg_world where
  "dgd_start = \<lparr>heap = (\<lambda>_. None), pendingConnects = [], pendingDisconnects = [], pendingWrites = [],
     contexts = [Some 7], numContexts = 1, nchild = 0, stopRequested = False, serviceThreads = [],
     wsi_user = (\<lambda>_. None), wsi_ph = (\<lambda>_. WNone), wakeups = [], writable = [], sent = [],
     notifications = []\<rparr>"

definition dgd_connecting :: dg_world where
  "dgd_connecting = dgd_start\<lparr>
     heap := (\<lambda>_. None)(0 := Some (dgd_pipe\<lparr>m_state := LWS_CLIENT_CONNECTING, m_vhd := Some 7, m_wsi := Some 3\<rparr>)),
     pendingConnects := [0], nchild := 1, wakeups := [7], wsi_ph := (\<lambda>_. WNone)(3 := WOpening)\<rparr>"

definition dgd_connected :: dg_world where
  "dgd_connected = dgd_connecting\<lparr>
     heap := (\<lambda>_. None)(0 := Some (dgd_pipe\<lparr>m_wsi := Some 3, m_vhd := Some 7, m_state := LWS_CLIENT_CONNECTED\<rparr>)),
     pendingConnects := [], wsi_user := (\<lambda>_. None)(3 := Some 0), wsi_ph := (\<lambda>_. WNone)(3 := WOpen),
     notifications := [(0, (''u'', CONNECT_SUCCESS, None, False))]\<rparr>"

lemmas dgd_defs = dgd_start_def dgd_connecting_def dgd_connected_def

lemma dgd_args_sel: "length (da_block dgd_args) = da_bufLen dgd_args" "2 \<le> da_bufLen dgd_args"
  by (simp_all add: dgd_args_def)

lemma dgd_pipe_sel [simp]:
  "m_state dgd_pipe = LWS_CLIENT_IDLE" "m_wsi dgd_pipe = None" "m_vhd dgd_pipe = None"
  "m_finished dgd_pipe = False" "m_gracefulShutdown dgd_pipe = False" "m_uuid dgd_pipe = ''u''"
  "m_metadata dgd_pipe = []" "m_audio_buffer_write_offset dgd_pipe = 2"
  by (simp_all add: dgd_pipe_def dg_AudioPipe_new_def pipe_init_def dgd_args_def pipe.defs dg_pipe.defs)

lemma dgd_connecting_reach: "dg_reach 2 dgd_connecting"
proof -
  have 0: "dg_reach 2 dgd_start" by (rule dg_reach.start) (simp add: dg_start_def dgd_start_def)
  have 1: "dg_reach 2 (set_pipe 0 dgd_pipe dgd_start)"
    by (rule dg_reach.step [OF 0, of "DNew 0 dgd_args"]) (simp_all add: dgd_start_def dgd_args_sel dgd_pipe_def)
  let ?w2 = "lws_cancel_service 7 ((set_pipe 0 dgd_pipe dgd_start)\<lparr>nchild := 1, pendingConnects := [0]\<rparr>)"
  have 2: "dg_reach 2 ?w2"
    by (rule dg_reach.step [OF 1, of "DConnect 0"])
      (simp_all add: dgd_start_def dg_connect_def addPendingConnect_def set_pipe_def)
  show ?thesis
    by (rule dg_reach.step [OF 2, of "DWaitCancelled 7 (\<lambda>_. Some 3)"])
      (simp_all add: dgd_defs dg_on_wait_cancelled_def on_wait_cancelled_def processPendingConnects_def
        deref_def connect_client_def lws_client_connect_via_info_def processPendingDisconnects_def
        processPendingWrites_def Let_def set_pipe_def lws_cancel_service_def fresh_conn_def)
qed

lemma dgd_connected_reach: "dg_reach 2 dgd_connected"
proof (rule dg_reach.step [OF dgd_connecting_reach, of "DEstablished 3 7"])
  show "dg_exec 2 (DEstablished 3 7) dgd_connecting = Inr dgd_connected"
    by (simp add: dgd_defs dg_on_established_def findAndRemovePendingConnect_def deref_def Let_def
        modify_def set_pipe_def notify_def dg_notify_def c_str_def)
qed (simp add: dgd_defs)

section \<open>Witnesses\<close>


lemma dg_finish_completes_witness:
  "\<exists>w'. dg_run 2 [DFinish 0, DWaitCancelled 7 (\<lambda>_. None), DWriteable 3 30, DWriteable 3 0] dgd_connected
    = Inr w' \<and> sent w' = [(3, LWS_WRITE_TEXT CLOSE_STREAM)]"
proof -
  let ?p = "dgd_pipe\<lparr>m_wsi := Some 3, m_vhd := Some 7, m_state := LWS_CLIENT_CONNECTED\<rparr>"
  have "heap dgd_connected 0 = Some ?p" "sent dgd_connected = []" by (simp_all add: dgd_defs)
  with dg_finish_completes [OF dgd_connected_reach this(1), of 7 3 "\<lambda>_. None" 30 0] show ?thesis
    by (auto simp: fresh_conn_def CLOSE_STREAM_def simp del: dg_run.simps)
qed

end
