(* ===== verification/DgGlueDemo.thy ===== *)
theory DgGlueDemo
  imports DgGlueProps DgDemo
begin

text \<open>
  A concrete run of the sessions of mod_deepgram_transcribe: a capture is started, stopped and
  reaped; the properties of theory \<open>DgGlueProps\<close> are instantiated on the states it passes through.
\<close>

definition dgd_lib :: dg_lib where
  "dgd_lib = \<lparr>lib_parse = (\<lambda>_. None), lib_reason_json = (\<lambda>r. r), lib_switch_true = (\<lambda>_. False),
     lib_separate = (\<lambda>s. [s])\<rparr>"

definition dgd_env :: dg_env where
  "dgd_env = \<lparr>v_uuid = ''u'', v_vars = (\<lambda>_. None), v_bytes_per_packet = 320, v_tech = 1, v_pipe = 1,
     v_block = replicate 16016 0, v_junk = 0, v_alloc_ok = True, v_resampler_ok = True\<rparr>"

definition dgd_glue :: "dg_world \<Rightarrow> dg_glue" where
  "dgd_glue w = \<lparr>dl_world = w, dl_tech = (\<lambda>_. None), dl_bugs = (\<lambda>_. None), dl_private = (\<lambda>_. None),
     dl_sessions = (\<lambda>_. True), dl_activePipes = 0, dl_reapers = [], dl_idxCallCount = 0, dl_events = []\<rparr>"

abbreviation dgd_reach :: "dg_glue \<Rightarrow> bool" where
  "dgd_reach \<equiv> dgl_reach dgd_lib 16 1 (Some ''k'')"

abbreviation dgd_exec :: "dgl_action \<Rightarrow> dg_glue \<Rightarrow> ub + dg_glue" where
  "dgd_exec \<equiv> dgl_exec dgd_lib 16 1 (Some ''k'')"

definition dgd_start_1 :: dgl_action where
  "dgd_start_1 = DGStart dgd_env 8000 False ''en'' True ''b'' True (Some 11)"

definition dgd_started :: dg_glue where "dgd_started = projr (dgd_exec dgd_start_1 (dgd_glue dgd_start))"

lemma dgd_buflen: "fork_buflen 16 8000 1 1 = Inr 16016"
  by (simp add: fork_buflen_def mul_int_def div_int_def)

lemma dgd_step:
  assumes "dgd_reach g" "dgl_enabled 16 1 a g"
  shows "dgd_exec a g = Inr (projr (dgd_exec a g))" "dgd_reach (projr (dgd_exec a g))"
proof -
  obtain g' where g': "dgd_exec a g = Inr g'" using dgl_step_ok [OF dgl_reach_inv [OF assms(1)] assms(2)] by blast
  then show "dgd_exec a g = Inr (projr (dgd_exec a g))" by simp
  show "dgd_reach (projr (dgd_exec a g))" using dgl_reach.step [OF assms g'] g' by simp
qed

lemma dgd_glue_reach: "dg_start w \<Longrightarrow> dgd_reach (dgd_glue w)"
  by (rule dgl_reach.start) (simp add: dgl_start_def dgd_glue_def)

lemma dgd_start_enabled: "heap w = (\<lambda>_. None) \<Longrightarrow> dgl_enabled 16 1 dgd_start_1 (dgd_glue w)"
  by (simp add: dgd_start_1_def dgd_glue_def dgd_env_def dgd_buflen dg_desiredSampling_def)

lemmas dgd_start_defs = dg_start_capture_def dg_session_init_def dg_fork_data_init_def dg_with_callbacks_def
  dg_on_pipes_def dg_get_tech_def dg_set_tech_def dg_connect_def addPendingConnect_def lws_cancel_service_def
  set_pipe_def dg_private_init_def dg_desiredSampling_def

lemma dgd_started_run:
  "\<exists>t p. dgd_started = (dgd_glue dgd_start)\<lparr>dl_world := (dgd_start\<lparr>heap := [1 \<mapsto> p], pendingConnects := [1],
        nchild := 1, wakeups := [7]\<rparr>), dl_tech := [1 \<mapsto> t], dl_activePipes := 1, dl_idxCallCount := 1,
        dl_bugs := [11 \<mapsto> (''u'', 1)], dl_private := [''u'' \<mapsto> 11]\<rparr> \<and>
     d_pAudioPipe t = Some 1 \<and> d_channels t = 1 \<and> m_state p = LWS_CLIENT_IDLE"
proof -
  let ?t = "dg_private_init dgd_lib dgd_env 1 ''en'' True ''b'' 1"
  let ?p = "dg_AudioPipe_new 16 (dg_pipe_args dgd_env ?t 16016 ''k'')"
  let ?w = "set_pipe 1 ?p dgd_start"
  let ?g = "(dgd_glue dgd_start)\<lparr>dl_world := ?w, dl_tech := [1 \<mapsto> ?t\<lparr>d_pAudioPipe := Some 1\<rparr>], dl_idxCallCount := 1\<rparr>"
  have 1: "dg_fork_data_init dgd_lib 16 1 (Some ''k'') dgd_env 8000 1 ''en'' True ''b'' (dgd_glue dgd_start)
      = Inr (SWITCH_STATUS_SUCCESS, ?g)"
    by (simp add: dg_fork_data_init_def dgd_glue_def dgd_env_def dgd_buflen dg_set_tech_def dg_private_init_def
        dg_desiredSampling_def)
  let ?v = "?w\<lparr>pendingConnects := [1], nchild := 1, wakeups := [7]\<rparr>"
  have 2: "dg_connect 1 ?w = Inr ?v"
    by (simp add: dg_connect_def addPendingConnect_def lws_cancel_service_def set_pipe_def dgd_start_def)
  have 3: "dg_with_callbacks dgd_lib (dg_connect 1) ?g = Inr (?g\<lparr>dl_world := ?v\<rparr>)"
    by (simp add: dg_with_callbacks_def dg_on_pipes_def 2 del: One_nat_def)
  have 4: "dg_session_init dgd_lib 16 1 (Some ''k'') dgd_env 8000 1 ''en'' True ''b'' (dgd_glue dgd_start)
      = Inr (SWITCH_STATUS_SUCCESS, ?g\<lparr>dl_world := ?v, dl_activePipes := 1\<rparr>)"
    using 1 3 by (simp add: dg_session_init_def dg_get_tech_def dgd_env_def dgd_glue_def del: One_nat_def)
  have "m_state ?p = LWS_CLIENT_IDLE" "d_channels ?t = 1"
    by (simp_all add: dg_AudioPipe_new_def pipe_init_def pipe.defs dg_pipe.defs dg_private_init_def)
  moreover have "dgd_started = ?g\<lparr>dl_world := ?v, dl_activePipes := 1, dl_bugs := [11 \<mapsto> (''u'', 1)],
      dl_private := [''u'' \<mapsto> 11]\<rparr>"
    using 4 by (simp add: dgd_started_def dgd_start_1_def dg_start_capture_def dgd_env_def dgd_glue_def del: One_nat_def)
  ultimately show ?thesis
    by (intro exI [of _ "?t\<lparr>d_pAudioPipe := Some 1\<rparr>"] exI [of _ ?p]) (simp add: set_pipe_def dgd_start_def dgd_glue_def del: One_nat_def)
qed

lemma dgd_started_facts:
  "dl_private dgd_started ''u'' = Some 11" "dl_bugs dgd_started = [11 \<mapsto> (''u'', 1)]"
  "\<exists>t. dl_tech dgd_started = [1 \<mapsto> t] \<and> d_pAudioPipe t = Some 1 \<and> d_channels t = 1"
  "\<exists>p. heap (dl_world dgd_started) = [1 \<mapsto> p] \<and> m_state p = LWS_CLIENT_IDLE"
proof -
  obtain t p where "dgd_started = (dgd_glue dgd_start)\<lparr>dl_world := (dgd_start\<lparr>heap := [1 \<mapsto> p],
      pendingConnects := [1], nchild := 1, wakeups := [7]\<rparr>), dl_tech := [1 \<mapsto> t], dl_activePipes := 1,
      dl_idxCallCount := 1, dl_bugs := [11 \<mapsto> (''u'', 1)], dl_private := [''u'' \<mapsto> 11]\<rparr>"
    and tp: "d_pAudioPipe t = Some 1" "d_channels t = 1" "m_state p = LWS_CLIENT_IDLE"
    using dgd_started_run by blast
  note s = this(1)
  show "dl_private dgd_started ''u'' = Some 11" "dl_bugs dgd_started = [11 \<mapsto> (''u'', 1)]"
    "\<exists>t. dl_tech dgd_started = [1 \<mapsto> t] \<and> d_pAudioPipe t = Some 1 \<and> d_channels t = 1"
    "\<exists>p. heap (dl_world dgd_started) = [1 \<mapsto> p] \<and> m_state p = LWS_CLIENT_IDLE"
    unfolding s using tp by (simp_all add: upd_eq)
qed

lemma dgd_started_reach: "dgd_reach dgd_started"
  unfolding dgd_started_def
  by (rule dgd_step(2) [OF dgd_glue_reach dgd_start_enabled]) (simp_all add: dg_start_def dgd_start_def)

section \<open>The properties on these states\<close>


lemma dgd_stop_run:
  "\<exists>st g. dg_session_stop ''u'' (Some 11) False dgd_started = Inr (st, g) \<and> dgl_inv 16 0 g \<and>
    (1, False) \<in> set (dl_reapers g)"
proof -
  obtain t where t: "dl_tech dgd_started = [1 \<mapsto> t]" "d_pAudioPipe t = Some 1" using dgd_started_facts(3) by blast
  note inv = dgl_reach_inv [OF dgd_started_reach]
  have "dgl_enabled 16 1 (DGStop ''u'' (Some 11) False) dgd_started" by (simp add: dgd_started_facts)
  from dgl_step_ok [OF inv this, of dgd_lib "Some ''k''"]
  obtain st g where g: "dg_session_stop ''u'' (Some 11) False dgd_started = Inr (st, g)" "dgl_inv 16 0 g"
    by (auto simp: andthen_Inr_iff)
  have "(1, False) \<in> set (dl_reapers g)"
    using g(1) t
    by (auto simp: dg_session_stop_def dg_session_stop_locked_def dg_user_data_def dg_get_tech_def dg_set_tech_def
        dg_reaper_def dg_destroy_tech_pvt_def dg_capture_close_def dgd_started_facts)
  with g show ?thesis by blast
qed

lemma dg_stop_silences_witness:
  "\<exists>st g1 g2. dg_session_stop ''u'' (Some 11) False dgd_started = Inr (st, g1) \<and>
    dgl_run dgd_lib 16 1 (Some ''k'') [DGReaperFinish 1] g1 = Inr g2 \<and>
    events_of ''u'' g2 = events_of ''u'' dgd_started"
proof -
  obtain st g1 where g1: "dg_session_stop ''u'' (Some 11) False dgd_started = Inr (st, g1)" "dgl_inv 16 0 g1"
    "(1, False) \<in> set (dl_reapers g1)"
    using dgd_stop_run by blast
  obtain g2 where "dgl_run dgd_lib 16 1 (Some ''k'') [DGReaperFinish 1] g1 = Inr g2"
    using dgl_step_ok [OF g1(2), of 1 "DGReaperFinish 1"] g1(3) by auto
  with g1(1) dg_stop_silences [OF dgd_started_reach dgd_started_facts(1) g1(1), of "[DGReaperFinish 1]" g2]
  show ?thesis by auto
qed

end
