(* ===== verification/DgApi.thy ===== *)
theory DgApi
  imports DgGlueDemo PipeService ForkApi
begin

text \<open>
  The command of mod_deepgram_transcribe, \<open>uuid_deepgram_transcribe\<close>, and the loading and unloading of
  the module (\<^verbatim>\<open>mod_deepgram_transcribe.c\<close>, and the entry points of \<^verbatim>\<open>dg_transcribe_glue.cpp\<close>).
\<close>

section \<open>The command\<close>

text \<open>What FreeSWITCH answers while a command runs.\<close>

record dg_api_env =
  w_separate :: "string \<Rightarrow> string list"
  w_env :: dg_env
  w_rate :: int
  w_ready :: bool
  w_added :: "ptr option"

definition DG_BUG_NAME :: string where "DG_BUG_NAME = ''deepgram_transcribe''"

text \<open>The optional arguments of \<open>start\<close>: interim results, stereo, and the name of the bug.\<close>

fun dg_options :: "string list \<Rightarrow> bool \<times> bool \<times> string \<Rightarrow> bool \<times> bool \<times> string" where
  "dg_options [] acc = acc"
| "dg_options (t # ts) (interim, stereo, bugname) =
     dg_options ts
       (if strcaseeq t ''interim'' then (True, stereo, bugname)
        else if strcaseeq t ''stereo'' then (interim, True, bugname)
        else if strcaseeq t ''mono'' \<or> strcaseeq t ''final'' then (interim, stereo, bugname)
        else (interim, stereo, t))"

definition dg_transcribe_function ::
  "dg_lib \<Rightarrow> nat \<Rightarrow> int \<Rightarrow> string option \<Rightarrow> dg_api_env \<Rightarrow> string option \<Rightarrow> dg_glue \<Rightarrow> ub + api_reply \<times> dg_glue" where
  "dg_transcribe_function L LWS_PRE secs defaultApiKey V cmd g =
     (let argv = (case cmd of None \<Rightarrow> [] | Some c \<Rightarrow> if c = [] then [] else w_separate V c);
          zstr = (cmd = None \<or> cmd = Some []);
          replying = (\<lambda>r. andthen r (\<lambda>(status, g1). Inr (reply_of status, g1)))
      in if zstr \<or> length argv < 2 \<or> argv ! 1 = [] \<or> strcaseeq (argv ! 1) ''start'' \<and> length argv < 3 \<or>
            argv ! 0 = []
         then Inr (Usage, g)
         else let s = argv ! 0; what = argv ! 1 in
           if \<not> dl_sessions g s then Inr (ErrFailed, g)
           else if strcaseeq what ''stop'' then replying (dg_do_stop s g)
           else if strcaseeq what ''start'' then
             andthen (argv_at argv 2) (\<lambda>lang.
               case dg_options (drop 3 argv) (False, False, DG_BUG_NAME) of (interim, stereo, bugname) \<Rightarrow>
                 replying (dg_start_capture L LWS_PRE secs defaultApiKey ((w_env V)\<lparr>v_uuid := s\<rparr>) (w_rate V)
                   stereo lang interim bugname (w_ready V) (w_added V) g))
           else Inr (ErrFailed, g))"

section \<open>Loading and unloading\<close>

text \<open>The default key is the module's own variable; the environment may set it.\<close>

definition dg_transcribe_init ::
  "string option \<Rightarrow> string option \<Rightarrow> string option \<Rightarrow> dg_glue \<Rightarrow> ub + switch_status \<times> string option \<times> dg_glue" where
  "dg_transcribe_init requestedNumServiceThreads apiKey defaultApiKey g =
     andthen (initialize (nat (serviceThreadCount requestedNumServiceThreads)) (dl_world g)) (\<lambda>w.
       Inr (SWITCH_STATUS_SUCCESS, case apiKey of None \<Rightarrow> defaultApiKey | Some k \<Rightarrow> Some k, g\<lparr>dl_world := w\<rparr>))"

definition dg_transcribe_cleanup :: "dg_glue \<Rightarrow> switch_status \<times> ctx list \<times> dg_glue" where
  "dg_transcribe_cleanup g = (case deinitialize (dl_world g) of
     (cs, w) \<Rightarrow> (SWITCH_STATUS_SUCCESS, cs, g\<lparr>dl_world := w\<rparr>))"

definition mod_deepgram_transcribe_load ::
  "(dg_event \<Rightarrow> bool) \<Rightarrow> string option \<Rightarrow> string option \<Rightarrow> string option \<Rightarrow> dg_glue
     \<Rightarrow> ub + switch_status \<times> string option \<times> dg_glue" where
  "mod_deepgram_transcribe_load reserve threads apiKey defaultApiKey g =
     (if \<not> reserve TRANSCRIBE_EVENT_RESULTS then Inr (SWITCH_STATUS_TERM, defaultApiKey, g)
      else andthen (dg_transcribe_init threads apiKey defaultApiKey g) (\<lambda>(_, k, g1).
        Inr (SWITCH_STATUS_SUCCESS, k, g1)))"

definition mod_deepgram_transcribe_shutdown :: "dg_glue \<Rightarrow> switch_status \<times> ctx list \<times> dg_glue" where
  "mod_deepgram_transcribe_shutdown g =
     (if dg_sessions_active g > 0 then (SWITCH_STATUS_FALSE, [], g)
      else case dg_transcribe_cleanup g of (_, cs, g1) \<Rightarrow> (SWITCH_STATUS_SUCCESS, cs, g1))"

section \<open>Properties\<close>

definition dg_keyword :: "string \<Rightarrow> bool" where
  "dg_keyword t \<longleftrightarrow> strcaseeq t ''interim'' \<or> strcaseeq t ''stereo'' \<or> strcaseeq t ''mono'' \<or> strcaseeq t ''final''"

lemma dg_options_from:
  "dg_options ts (i, st, n) =
     (i \<or> list_ex (\<lambda>t. strcaseeq t ''interim'') ts, st \<or> list_ex (\<lambda>t. strcaseeq t ''stereo'') ts,
      last (n # filter (\<lambda>t. \<not> dg_keyword t) ts))"
proof (induction ts arbitrary: i st n)
  case (Cons t ts)
  have "\<not> (strcaseeq t ''interim'' \<and> strcaseeq t ''stereo'')" "\<not> (strcaseeq t ''interim'' \<and> strcaseeq t ''mono'')"
    "\<not> (strcaseeq t ''interim'' \<and> strcaseeq t ''final'')" "\<not> (strcaseeq t ''stereo'' \<and> strcaseeq t ''mono'')"
    "\<not> (strcaseeq t ''stereo'' \<and> strcaseeq t ''final'')"
    by (auto simp: strcaseeq_def to_lower_def)
  then show ?case using Cons.IH by (auto simp: dg_keyword_def)
qed simp

text \<open>The options of \<open>start\<close> may come in any order and any capitalisation: the results are interim
  and the audio is stereo exactly when the words occur, and the name is the last word that is not an
  option, or the default.\<close>

lemma dg_options_any_order:
  "dg_options ts (False, False, DG_BUG_NAME) =
     (list_ex (\<lambda>t. strcaseeq t ''interim'') ts, list_ex (\<lambda>t. strcaseeq t ''stereo'') ts,
      last (DG_BUG_NAME # filter (\<lambda>t. \<not> dg_keyword t) ts))"
  by (simp only: dg_options_from simp_thms)

text \<open>In every reachable state of the module every command line is carried out without undefined
  behaviour and leaves a reachable state, whatever its number of arguments and whatever it names.\<close>

lemma dg_command_safe:
  assumes "dgl_reach L pre secs key g"
    and "\<And>c interim stereo bugname. cmd = Some c \<Longrightarrow>
      dg_options (drop 3 (w_separate V c)) (False, False, DG_BUG_NAME) = (interim, stereo, bugname) \<Longrightarrow>
      dgl_enabled pre secs (DGStart ((w_env V)\<lparr>v_uuid := w_separate V c ! 0\<rparr>) (w_rate V) stereo
        (w_separate V c ! 2) interim bugname (w_ready V) (w_added V)) g"
  shows "\<exists>r g'. dg_transcribe_function L pre secs key V cmd g = Inr (r, g') \<and> dgl_reach L pre secs key g'"
proof (cases "cmd = None \<or> cmd = Some []")
  case True
  then show ?thesis using assms(1) by (auto simp: dg_transcribe_function_def)
next
  case False
  then obtain c where c: "cmd = Some c" "c \<noteq> []" by auto
  let ?argv = "w_separate V c"
  note inv = dgl_reach_inv [OF assms(1)]
  have stop: "\<exists>st g'. dg_do_stop s g = Inr (st, g') \<and> dgl_reach L pre secs key g'" for s
  proof (cases "dl_private g s")
    case None
    then show ?thesis using assms(1) by (simp add: dg_do_stop_def)
  next
    case (Some bug)
    then have e: "dgl_enabled pre secs (DGStop s (Some bug) False) g" using dgl_invD(4) [OF inv Some] by auto
    then show ?thesis using Some dgl_step_ok [OF inv e, of L key] dgl_reach.step [OF assms(1) e]
      by (auto simp: dg_do_stop_def andthen_Inr_iff)
  qed
  obtain i st n where o: "dg_options (drop 3 ?argv) (False, False, DG_BUG_NAME) = (i, st, n)" by (cases "dg_options (drop 3 ?argv) (False, False, DG_BUG_NAME)") auto
  let ?e = "(w_env V)\<lparr>v_uuid := ?argv ! 0\<rparr>"
  have "\<exists>r g'. dg_start_capture L pre secs key ?e (w_rate V) st (?argv ! 2) i n (w_ready V) (w_added V) g = Inr (r, g') \<and>
      dgl_reach L pre secs key g'"
    using dgl_step_ok [OF inv assms(2) [OF c(1) o], of L key] dgl_reach.step [OF assms(1) assms(2) [OF c(1) o]]
    by (auto simp: andthen_Inr_iff)
  then obtain r g' where r: "dg_start_capture L pre secs key ?e (w_rate V) st (?argv ! 2) i n (w_ready V) (w_added V) g = Inr (r, g')"
    "dgl_reach L pre secs key g'" by blast
  obtain r' g'' where s: "dg_do_stop (?argv ! 0) g = Inr (r', g'')" "dgl_reach L pre secs key g''" using stop by blast
  show ?thesis
    using assms(1) r s o
    by (auto simp: dg_transcribe_function_def Let_def c argv_at_def)
qed

text \<open>C25: the gate of the module's unloading counts exactly the live pipes. The module is unloaded
  exactly when no pipe is left, and then no session and no reaper has one either; otherwise nothing
  is touched. When it is unloaded, no pipe is waiting for a service thread, every context that exists
  is woken before it is destroyed, and neither a context nor a service thread is left.\<close>

theorem dg_unload_safe:
  assumes "dgl_reach L pre secs key g"
  shows "dg_sessions_active g = int (card {ap. heap (dl_world g) ap \<noteq> None}) \<and>
    (fst (mod_deepgram_transcribe_shutdown g) = SWITCH_STATUS_SUCCESS \<longleftrightarrow>
      (\<forall>ap. heap (dl_world g) ap = None) \<and> dl_reapers g = [] \<and>
      (\<forall>tp t. dl_tech g tp = Some t \<longrightarrow> d_pAudioPipe t = None)) \<and>
    (fst (mod_deepgram_transcribe_shutdown g) \<noteq> SWITCH_STATUS_SUCCESS \<longrightarrow> mod_deepgram_transcribe_shutdown g = (SWITCH_STATUS_FALSE, [], g)) \<and>
    (\<forall>cs g'. mod_deepgram_transcribe_shutdown g = (SWITCH_STATUS_SUCCESS, cs, g') \<longrightarrow>
       pending (dl_world g') = {} \<and> serviceThreads (dl_world g') = [] \<and> stopRequested (dl_world g') \<and>
       set (take (numContexts (dl_world g')) (contexts (dl_world g'))) \<subseteq> {None} \<and>
       (\<forall>c. Some c \<in> set (take (numContexts (dl_world g)) (contexts (dl_world g))) \<longrightarrow>
          c \<in> set cs \<and> c \<in> set (wakeups (dl_world g'))))"
proof -
  note gate = dg_unload_gate [OF assms]
  have inv: "dg_inv pre (dl_world g)"
    using dgl_invD(1) [OF dgl_reach_inv [OF assms]] .
  have pend: "pending (dl_world g) = {}" if "\<forall>ap. heap (dl_world g) ap = None"
    using that world_ok_pending [OF inv] by fastforce
  obtain cs w where w: "deinitialize (dl_world g) = (cs, w)" by fastforce
  have open_iff: "fst (mod_deepgram_transcribe_shutdown g) = SWITCH_STATUS_SUCCESS \<longleftrightarrow> dg_sessions_active g \<le> 0"
    by (auto simp: mod_deepgram_transcribe_shutdown_def dg_transcribe_cleanup_def w)
  show ?thesis
    unfolding open_iff
    using gate pend deinitialize_quiet [OF w]
    by (auto simp: mod_deepgram_transcribe_shutdown_def dg_transcribe_cleanup_def w)
qed

section \<open>The properties on concrete command lines\<close>

definition dgd_api :: dg_api_env where
  "dgd_api = \<lparr>w_separate = split_spaces, w_env = dgd_env\<lparr>v_tech := 2, v_pipe := 2\<rparr>, w_rate = 8000, w_ready = True,
     w_added = Some 12\<rparr>"

lemma dg_unload_safe_witness:
  "fst (mod_deepgram_transcribe_shutdown (dgd_glue dgd_start)) = SWITCH_STATUS_SUCCESS \<and>
    fst (mod_deepgram_transcribe_shutdown dgd_started) \<noteq> SWITCH_STATUS_SUCCESS"
proof -
  have "\<exists>ap. heap (dl_world dgd_started) ap \<noteq> None" using dgd_started_facts(4) by auto
  moreover have "dg_start dgd_start" by (simp add: dg_start_def dgd_start_def)
  ultimately show ?thesis
    using dg_unload_safe [OF dgd_glue_reach] dg_unload_safe [OF dgd_started_reach]
    by (simp add: dgd_glue_def dgd_start_def)
qed

end
