(* ===== verification/SimpleVad.thy ===== *)
theory SimpleVad
  imports ForkApi "HOL-Library.Signed_Division"
begin

text \<open>
  \<^verbatim>\<open>modules/mod_simple_vad/mod_simple_vad.c\<close>: voice activity detection on a call. The detector of
  FreeSWITCH (\<open>switch_vad_process\<close>) and its state are a parameter; the times \<open>gettimeofday\<close> answers are
  part of the input of a step.
\<close>

section \<open>Times\<close>

record timeval =
  tv_sec :: int
  tv_usec :: int

text \<open>The loop of \<open>timeval_diff\<close> that borrows from the seconds.\<close>

function borrow :: "timeval \<Rightarrow> timeval" where
  "borrow d = (if tv_usec d < 0 then borrow \<lparr>tv_sec = tv_sec d - 1, tv_usec = tv_usec d + 1000000\<rparr> else d)"
  by auto
termination by (relation "measure (\<lambda>d. nat (- tv_usec d))") auto

declare borrow.simps [simp del]

definition timeval_diff :: "timeval \<Rightarrow> timeval \<Rightarrow> int" where
  "timeval_diff end_time start_time =
     (let d = borrow \<lparr>tv_sec = tv_sec end_time - tv_sec start_time, tv_usec = tv_usec end_time - tv_usec start_time\<rparr>
      in 1000000 * tv_sec d + tv_usec d)"

section \<open>State\<close>

datatype vad_state = VAD_NONE | VAD_START_TALKING | VAD_TALKING | VAD_STOP_TALKING | VAD_ERROR

text \<open>The detector is null once it is destroyed, the mutex likewise.\<close>

record 'v cap_cb =
  cb_vad :: "'v option"
  cb_mutex :: bool
  cb_start :: timeval
  cb_last_segment_start :: timeval
  cb_speech_segments :: u32
  cb_speech_duration :: int
  cb_vad_state :: vad_state

text \<open>The bodies of the two events: old state, new state and duration; speech, segments and total.\<close>

datatype vad_event = VadChange vad_state vad_state int | VadSummary int u32 int

record 'v vad_glue =
  vg_cbs :: "ptr \<Rightarrow> 'v cap_cb option"
  vg_bugs :: "ptr \<Rightarrow> (string \<times> ptr) option"
  vg_private :: "string \<Rightarrow> ptr option"
  vg_sessions :: "string \<Rightarrow> bool"
  vg_events :: "(string \<times> vad_event) list"

definition vad_responseHandler :: "string \<Rightarrow> vad_event \<Rightarrow> 'v vad_glue \<Rightarrow> 'v vad_glue" where
  "vad_responseHandler s ev g = g\<lparr>vg_events := vg_events g @ [(s, ev)]\<rparr>"

definition vad_cb :: "ptr \<Rightarrow> 'v vad_glue \<Rightarrow> ub + 'v cap_cb" where
  "vad_cb a g = (case vg_cbs g a of None \<Rightarrow> Inl UseAfterFree | Some cb \<Rightarrow> Inr cb)"

section \<open>The media callback\<close>

text \<open>A frame: its length, whether it is comfort noise, its samples, and the times read while it is
  handled.\<close>

record frame_in =
  fr_datalen :: nat
  fr_cng :: bool
  fr_samples :: "u8 list"
  fr_now :: timeval
  fr_next :: timeval

text \<open>The loop over the frames; \<open>old_state\<close> is read once, before it.\<close>

fun vad_frames ::
  "('v \<Rightarrow> u8 list \<Rightarrow> vad_state \<times> 'v) \<Rightarrow> string \<Rightarrow> vad_state \<Rightarrow> frame_in list \<Rightarrow> 'v \<Rightarrow> 'v cap_cb \<Rightarrow> vad_event list
     \<Rightarrow> 'v cap_cb \<times> vad_event list" where
  "vad_frames process s old_state [] v cb evs = (cb\<lparr>cb_vad := Some v\<rparr>, evs)"
| "vad_frames process s old_state (f # fs) v cb evs =
     (if fr_cng f then (cb\<lparr>cb_vad := Some v\<rparr>, evs)
      else if fr_datalen f = 0 then vad_frames process s old_state fs v cb evs
      else case process v (fr_samples f) of (new_state, v1) \<Rightarrow>
        if new_state = old_state then vad_frames process s old_state fs v1 cb evs
        else
          let duration = timeval_diff (fr_now f) (cb_last_segment_start cb);
              cb1 = cb\<lparr>cb_vad_state := new_state,
                cb_speech_duration := (if new_state = VAD_STOP_TALKING then cb_speech_duration cb + duration
                  else cb_speech_duration cb),
                cb_speech_segments := (if new_state = VAD_START_TALKING then cb_speech_segments cb + 1
                  else cb_speech_segments cb),
                cb_last_segment_start := fr_next f\<rparr>
          in vad_frames process s old_state fs v1 cb1 (evs @ [VadChange old_state new_state (duration sdiv 1000)]))"

text \<open>READ: the clock is started by the first call; \<open>locked\<close> is what \<open>trylock\<close> answers.\<close>

definition vad_read ::
  "('v \<Rightarrow> u8 list \<Rightarrow> vad_state \<times> 'v) \<Rightarrow> ptr \<Rightarrow> timeval \<Rightarrow> timeval \<Rightarrow> bool \<Rightarrow> frame_in list \<Rightarrow> 'v vad_glue
     \<Rightarrow> ub + 'v vad_glue" where
  "vad_read process bug t1 t2 locked fs g =
     (case vg_bugs g bug of None \<Rightarrow> Inl UseAfterFree | Some (s, a) \<Rightarrow>
      andthen (vad_cb a g) (\<lambda>cb.
        case cb_vad cb of
          None \<Rightarrow> Inr g
        | Some v \<Rightarrow>
            let cb1 = (if tv_sec (cb_start cb) = 0 then cb\<lparr>cb_start := t1, cb_last_segment_start := t2\<rparr> else cb)
            in if \<not> cb_mutex cb1 then Inl NullDeref
               else if \<not> locked then Inr (g\<lparr>vg_cbs := (vg_cbs g)(a := Some cb1)\<rparr>)
               else case vad_frames process s (cb_vad_state cb1) fs v cb1 [] of (cb2, evs) \<Rightarrow>
                 Inr (g\<lparr>vg_cbs := (vg_cbs g)(a := Some cb2),
                        vg_events := vg_events g @ map (Pair s) evs\<rparr>)))"

text \<open>CLOSE; FreeSWITCH has taken the bug off the channel.\<close>

definition vad_close :: "ptr \<Rightarrow> 'v vad_glue \<Rightarrow> ub + 'v vad_glue" where
  "vad_close bug g =
     (case vg_bugs g bug of None \<Rightarrow> Inl UseAfterFree | Some (s, a) \<Rightarrow>
      andthen (vad_cb a g) (\<lambda>cb.
        Inr (g\<lparr>vg_cbs := (vg_cbs g)(a := Some (cb\<lparr>cb_vad := None, cb_mutex := False\<rparr>)),
               vg_private := (vg_private g)(s := None), vg_bugs := (vg_bugs g)(bug := None)\<rparr>)))"

section \<open>Start and stop\<close>

text \<open>What FreeSWITCH answers during a start: the address and old content of the block it allocates,
  whether the channel has reached pre-answer, the detector and the bug.\<close>

record 'v vad_env =
  ve_cb :: ptr
  ve_last_segment_start :: timeval
  ve_pre_answer :: bool
  ve_vad :: "int \<Rightarrow> 'v option"
  ve_added :: "ptr option"

definition vad_start_capture :: "'v vad_env \<Rightarrow> string \<Rightarrow> int \<Rightarrow> 'v vad_glue \<Rightarrow> switch_status \<times> 'v vad_glue" where
  "vad_start_capture E s mode g =
     (if vg_private g s \<noteq> None then (SWITCH_STATUS_FALSE, g)
      else if \<not> ve_pre_answer E then (SWITCH_STATUS_FALSE, g)
      else
        let cb = \<lparr>cb_vad = ve_vad E mode, cb_mutex = (ve_vad E mode \<noteq> None),
              cb_start = \<lparr>tv_sec = 0, tv_usec = 0\<rparr>, cb_last_segment_start = ve_last_segment_start E,
              cb_speech_segments = 0, cb_speech_duration = 0, cb_vad_state = VAD_NONE\<rparr>;
            g1 = g\<lparr>vg_cbs := (vg_cbs g)(ve_cb E := Some cb)\<rparr>
        in if ve_vad E mode = None then (SWITCH_STATUS_FALSE, g1)
           else case ve_added E of
               None \<Rightarrow> (SWITCH_STATUS_FALSE, g1)
             | Some bug \<Rightarrow> (SWITCH_STATUS_SUCCESS,
                 g1\<lparr>vg_bugs := (vg_bugs g1)(bug := Some (s, ve_cb E)),
                    vg_private := (vg_private g1)(s := Some bug)\<rparr>))"

text \<open>Stop, with the bug and the user data it read before it takes the mutex. Removing the bug fires
  CLOSE when it is still there.\<close>

definition vad_do_stop_seen ::
  "string \<Rightarrow> ptr \<Rightarrow> ptr \<Rightarrow> timeval \<Rightarrow> 'v vad_glue \<Rightarrow> ub + switch_status \<times> 'v vad_glue" where
  "vad_do_stop_seen s bug a now g =
     andthen (vad_cb a g) (\<lambda>cb.
       if \<not> cb_mutex cb then Inl NullDeref
       else
         let duration = timeval_diff now (cb_start cb);
             speechDuration = cb_speech_duration cb +
               (if cb_vad_state cb = VAD_TALKING then timeval_diff now (cb_last_segment_start cb) else 0);
             g1 = vad_responseHandler s
               (VadSummary (speechDuration sdiv 1000) (cb_speech_segments cb) (duration sdiv 1000)) g
         in andthen (if vg_bugs g1 bug \<noteq> None then vad_close bug g1 else Inr g1) (\<lambda>g2.
              Inr (SWITCH_STATUS_SUCCESS, g2)))"

definition vad_do_stop :: "string \<Rightarrow> timeval \<Rightarrow> 'v vad_glue \<Rightarrow> ub + switch_status \<times> 'v vad_glue" where
  "vad_do_stop s now g =
     (case vg_private g s of
        None \<Rightarrow> Inr (SWITCH_STATUS_FALSE, g)
      | Some bug \<Rightarrow> (case vg_bugs g bug of
            None \<Rightarrow> Inl UseAfterFree
          | Some (_, a) \<Rightarrow> vad_do_stop_seen s bug a now g))"

section \<open>The command\<close>

definition vad_function ::
  "(string \<Rightarrow> string list) \<Rightarrow> 'v vad_env \<Rightarrow> timeval \<Rightarrow> string option \<Rightarrow> 'v vad_glue \<Rightarrow> ub + api_reply \<times> 'v vad_glue" where
  "vad_function separate E now cmd g =
     (let argv = (case cmd of None \<Rightarrow> [] | Some c \<Rightarrow> if c = [] then [] else separate c);
          replying = (\<lambda>r. andthen r (\<lambda>(status, g1). Inr (reply_of status, g1)))
      in if cmd = None \<or> cmd = Some [] \<or> length argv < 2 \<or> argv ! 0 = [] then Inr (Usage, g)
         else if \<not> vg_sessions g (argv ! 0) then Inr (ErrFailed, g)
         else if strcaseeq (argv ! 1) ''stop'' then replying (vad_do_stop (argv ! 0) now g)
         else if strcaseeq (argv ! 1) ''start'' then
           (let mode = (if length argv > 2 then atoi (argv ! 2) else 0)
            in if 0 \<le> mode \<and> mode \<le> 3 then replying (Inr (vad_start_capture E (argv ! 0) mode g))
               else Inr (ErrFailed, g))
         else Inr (ErrFailed, g))"

definition mod_simple_vad_load :: "(string \<Rightarrow> bool) \<Rightarrow> switch_status" where
  "mod_simple_vad_load reserve =
     (if \<not> reserve ''mod_simple_vad::change'' then SWITCH_STATUS_TERM
      else if \<not> reserve ''mod_simple_vad::summary'' then SWITCH_STATUS_TERM
      else SWITCH_STATUS_SUCCESS)"

end
