(* ===== verification/VadProps.thy ===== *)
theory VadProps
  imports SimpleVad
begin

text \<open>
  The properties of mod_simple_vad: times, the captures of all sessions as a transition system with
  its invariant, what a READ reports, and the reports that are wrong.
\<close>

section \<open>Times\<close>

lemma borrow_value: "1000000 * tv_sec (borrow d) + tv_usec (borrow d) = 1000000 * tv_sec d + tv_usec d"
proof (induction d rule: borrow.induct)
  case (1 d)
  then show ?case by (cases "tv_usec d < 0") (simp_all add: borrow.simps [of d])
qed

lemma borrow_carried: "0 \<le> tv_usec (borrow d)"
proof (induction d rule: borrow.induct)
  case (1 d)
  then show ?case by (cases "tv_usec d < 0") (simp_all add: borrow.simps [of d])
qed


section \<open>The captures of all sessions\<close>

datatype 'v vad_action =
    VAStart "'v vad_env" string int
  | VAStop string timeval
  | VARead ptr timeval timeval bool "frame_in list"
  | VAClose ptr
  | VAHangup string

fun vad_exec :: "('v \<Rightarrow> u8 list \<Rightarrow> vad_state \<times> 'v) \<Rightarrow> 'v vad_action \<Rightarrow> 'v vad_glue \<Rightarrow> ub + 'v vad_glue" where
  "vad_exec process (VAStart E s mode) g = Inr (snd (vad_start_capture E s mode g))"
| "vad_exec process (VAStop s now) g = andthen (vad_do_stop s now g) (\<lambda>(_, g1). Inr g1)"
| "vad_exec process (VARead bug t1 t2 locked fs) g = vad_read process bug t1 t2 locked fs g"
| "vad_exec process (VAClose bug) g = vad_close bug g"
| "vad_exec process (VAHangup s) g = Inr (g\<lparr>vg_sessions := (vg_sessions g)(s := False)\<rparr>)"

text \<open>A start gets a fresh block and a fresh bug; a callback is for a bug that is on its channel.\<close>

fun vad_enabled :: "'v vad_action \<Rightarrow> 'v vad_glue \<Rightarrow> bool" where
  "vad_enabled (VAStart E s mode) g \<longleftrightarrow> vg_cbs g (ve_cb E) = None \<and>
     (case ve_added E of None \<Rightarrow> True | Some bug \<Rightarrow> vg_bugs g bug = None)"
| "vad_enabled (VARead bug t1 t2 locked fs) g \<longleftrightarrow> vg_bugs g bug \<noteq> None"
| "vad_enabled (VAClose bug) g \<longleftrightarrow> vg_bugs g bug \<noteq> None"
| "vad_enabled _ g \<longleftrightarrow> True"

definition vad_start :: "'v vad_glue \<Rightarrow> bool" where
  "vad_start g \<longleftrightarrow> vg_cbs g = (\<lambda>_. None) \<and> vg_bugs g = (\<lambda>_. None) \<and> vg_private g = (\<lambda>_. None) \<and> vg_events g = []"

inductive vad_reach :: "('v \<Rightarrow> u8 list \<Rightarrow> vad_state \<times> 'v) \<Rightarrow> 'v vad_glue \<Rightarrow> bool" for process where
  start: "vad_start g \<Longrightarrow> vad_reach process g"
| step: "vad_reach process g \<Longrightarrow> vad_enabled a g \<Longrightarrow> vad_exec process a g = Inr g' \<Longrightarrow> vad_reach process g'"

definition live :: "'v cap_cb \<Rightarrow> bool" where
  "live cb \<longleftrightarrow> cb_vad cb \<noteq> None \<and> cb_mutex cb"

text \<open>The private of a session is exactly its bug; a bug has its own live block.\<close>

definition vad_inv :: "'v vad_glue \<Rightarrow> bool" where
  "vad_inv g \<longleftrightarrow>
     (\<forall>s bug. vg_private g s = Some bug \<longleftrightarrow> (\<exists>a. vg_bugs g bug = Some (s, a))) \<and>
     (\<forall>bug s a. vg_bugs g bug = Some (s, a) \<longrightarrow> (\<exists>cb. vg_cbs g a = Some cb \<and> live cb)) \<and>
     (\<forall>bug bug' s s' a. vg_bugs g bug = Some (s, a) \<longrightarrow> vg_bugs g bug' = Some (s', a) \<longrightarrow> bug = bug')"

lemma vad_invD:
  assumes "vad_inv g"
  shows "vg_private g s = Some bug \<longleftrightarrow> (\<exists>a. vg_bugs g bug = Some (s, a))"
    and "vg_bugs g bug = Some (s, a) \<Longrightarrow> \<exists>cb. vg_cbs g a = Some cb \<and> live cb"
    and "vg_bugs g bug = Some (s, a) \<Longrightarrow> vg_bugs g bug' = Some (s', a) \<Longrightarrow> bug = bug'"
  using assms unfolding vad_inv_def by blast+

lemma vad_frames_live: "vad_frames process s old fs v cb evs = (cb', evs') \<Longrightarrow> cb_mutex cb \<Longrightarrow> live cb'"
  by (induction process s old fs v cb evs rule: vad_frames.induct)
    (auto simp: live_def Let_def split: if_splits prod.splits)

lemma vad_inv_cb:
  assumes "vad_inv g" "vg_bugs g bug = Some (s, a)" "live cb"
  shows "vad_inv (g\<lparr>vg_cbs := (vg_cbs g)(a := Some cb), vg_events := es\<rparr>)"
  using assms unfolding vad_inv_def by auto

lemma vad_close_ok:
  assumes g: "vad_inv g" and b: "vg_bugs g bug = Some (s, a)"
  shows "\<exists>g'. vad_close bug g = Inr g' \<and> vad_inv g'"
proof -
  obtain cb where cb: "vg_cbs g a = Some cb" using vad_invD(2) [OF g b] by blast
  have s: "vg_private g s = Some bug" using vad_invD(1) [OF g] b by blast
  have own: "a' = a \<Longrightarrow> bug' = bug" if "vg_bugs g bug' = Some (s', a')" for bug' s' a'
    using vad_invD(3) [OF g b] that by blast
  let ?g = "g\<lparr>vg_cbs := (vg_cbs g)(a := Some (cb\<lparr>cb_vad := None, cb_mutex := False\<rparr>)),
               vg_private := (vg_private g)(s := None), vg_bugs := (vg_bugs g)(bug := None)\<rparr>"
  have "vad_inv ?g" unfolding vad_inv_def
  proof (intro conjI allI impI)
    show "vg_private ?g s' = Some bug' \<longleftrightarrow> (\<exists>a. vg_bugs ?g bug' = Some (s', a))" for s' bug'
      using vad_invD(1) [OF g, of s' bug'] s b by auto
    show "\<exists>cb. vg_cbs ?g a' = Some cb \<and> live cb" if "vg_bugs ?g bug' = Some (s', a')" for bug' s' a'
      using that vad_invD(2) [OF g, of bug' s' a'] own [of bug' s' a'] by (auto split: if_splits)
    show "bug1 = bug2" if "vg_bugs ?g bug1 = Some (s1, a')" "vg_bugs ?g bug2 = Some (s2, a')" for bug1 bug2 s1 s2 a'
      using that vad_invD(3) [OF g, of bug1 s1 a' bug2 s2] by (auto split: if_splits)
  qed
  then show ?thesis by (simp add: vad_close_def b vad_cb_def cb)
qed

lemma vad_inv_events: "vad_inv (g\<lparr>vg_events := es\<rparr>) = vad_inv g"
  by (simp add: vad_inv_def)

lemma vad_stop_ok:
  assumes g: "vad_inv g"
  shows "\<exists>r g'. vad_do_stop s now g = Inr (r, g') \<and> vad_inv g'"
proof (cases "vg_private g s")
  case None
  then show ?thesis using g by (simp add: vad_do_stop_def)
next
  case (Some bug)
  then obtain a where b: "vg_bugs g bug = Some (s, a)" using vad_invD(1) [OF g] by blast
  then obtain cb where cb: "vg_cbs g a = Some cb" "cb_mutex cb" using vad_invD(2) [OF g b] by (auto simp: live_def)
  let ?speech = "cb_speech_duration cb + (if cb_vad_state cb = VAD_TALKING then timeval_diff now (cb_last_segment_start cb) else 0)"
  let ?g = "vad_responseHandler s (VadSummary (?speech sdiv 1000) (cb_speech_segments cb)
    (timeval_diff now (cb_start cb) sdiv 1000)) g"
  have "vad_inv ?g" "vg_bugs ?g bug = Some (s, a)" using g b by (simp_all add: vad_responseHandler_def vad_inv_events)
  then obtain g' where "vad_close bug ?g = Inr g'" "vad_inv g'" using vad_close_ok by blast
  then show ?thesis using Some b cb \<open>vg_bugs ?g bug = Some (s, a)\<close>
    by (simp add: vad_do_stop_def vad_do_stop_seen_def vad_cb_def)
qed

lemma vad_start_ok:
  assumes g: "vad_inv g" and e: "vad_enabled (VAStart E s mode) g"
  shows "vad_inv (snd (vad_start_capture E s mode g))"
proof (cases "vg_private g s = None \<and> ve_pre_answer E")
  case False
  then show ?thesis using g by (auto simp: vad_start_capture_def)
next
  case True
  have fresh: "a \<noteq> ve_cb E" if "vg_bugs g bug = Some (s', a)" for bug s' a
    using vad_invD(2) [OF g that] e by auto
  have old: "vad_inv (g\<lparr>vg_cbs := (vg_cbs g)(ve_cb E := Some cb)\<rparr>)" for cb
    using g fresh unfolding vad_inv_def by (auto split: if_splits)
  have new: "vad_inv (g\<lparr>vg_cbs := (vg_cbs g)(ve_cb E := Some cb), vg_bugs := (vg_bugs g)(bug := Some (s, ve_cb E)),
      vg_private := (vg_private g)(s := Some bug)\<rparr>)"
    if "live cb" "ve_added E = Some bug" for cb bug
  proof -
    let ?g = "g\<lparr>vg_cbs := (vg_cbs g)(ve_cb E := Some cb), vg_bugs := (vg_bugs g)(bug := Some (s, ve_cb E)),
      vg_private := (vg_private g)(s := Some bug)\<rparr>"
    have b: "vg_bugs g bug = None" using e that(2) by simp
    show ?thesis unfolding vad_inv_def
    proof (intro conjI allI impI)
      show "vg_private ?g s' = Some bug' \<longleftrightarrow> (\<exists>a. vg_bugs ?g bug' = Some (s', a))" for s' bug'
        using vad_invD(1) [OF g, of s' bug'] b True by auto
      show "\<exists>cb. vg_cbs ?g a' = Some cb \<and> live cb" if "vg_bugs ?g bug' = Some (s', a')" for bug' s' a'
        using that \<open>live cb\<close> vad_invD(2) [OF g, of bug' s' a'] fresh [of bug' s' a'] by (auto split: if_splits)
      show "bug1 = bug2" if "vg_bugs ?g bug1 = Some (s1, a')" "vg_bugs ?g bug2 = Some (s2, a')" for bug1 bug2 s1 s2 a'
        using that vad_invD(3) [OF g, of bug1 s1 a' bug2 s2] fresh by (auto split: if_splits)
    qed
  qed
  show ?thesis using True old new
    by (auto simp: vad_start_capture_def Let_def live_def split: option.splits)
qed

lemma vad_read_ok:
  assumes g: "vad_inv g" and b: "vg_bugs g bug = Some (s, a)"
  shows "\<exists>g'. vad_read process bug t1 t2 locked fs g = Inr g' \<and> vad_inv g'"
proof -
  obtain cb where cb: "vg_cbs g a = Some cb" "live cb" using vad_invD(2) [OF g b] by blast
  then obtain v where v: "cb_vad cb = Some v" "cb_mutex cb" by (auto simp: live_def)
  let ?cb = "if tv_sec (cb_start cb) = 0 then cb\<lparr>cb_start := t1, cb_last_segment_start := t2\<rparr> else cb"
  obtain cb2 evs where f: "vad_frames process s (cb_vad_state ?cb) fs v ?cb [] = (cb2, evs)" by fastforce
  have l: "live ?cb" "live cb2" using cb(2) vad_frames_live [OF f] v(2) by (auto simp: live_def)
  have "vad_inv (g\<lparr>vg_cbs := (vg_cbs g)(a := Some ?cb)\<rparr>)"
    using vad_inv_cb [OF g b l(1), of "vg_events g"] by simp
  with vad_inv_cb [OF g b l(2)] show ?thesis using f v l(1)
    by (auto simp: vad_read_def b vad_cb_def cb(1) Let_def live_def)
qed

lemma vad_step_ok:
  assumes g: "vad_inv g" and e: "vad_enabled x g"
  shows "\<exists>g'. vad_exec process x g = Inr g' \<and> vad_inv g'"
proof (cases x)
  case (VAStop s now)
  then show ?thesis using vad_stop_ok [OF g, of s now] by auto
next
  case (VAHangup s)
  then show ?thesis using g by (simp add: vad_inv_def)
next
  case (VARead bug t1 t2 locked fs)
  then show ?thesis using e vad_read_ok [OF g] by fastforce
next
  case (VAClose bug)
  then show ?thesis using e vad_close_ok [OF g] by fastforce
qed (use vad_start_ok [OF g] e in simp)

lemma vad_reach_inv: "vad_reach process g \<Longrightarrow> vad_inv g"
proof (induction rule: vad_reach.induct)
  case (start g)
  then show ?case by (simp add: vad_start_def vad_inv_def)
next
  case (step g a g')
  then show ?case using vad_step_ok [OF step.IH step.hyps(2), of process] by simp
qed

section \<open>Properties\<close>

text \<open>A call has at most one capture: its private names exactly the bug that is on the channel, the
  detector behind it is live and belongs to no other capture, and a second start is refused.\<close>

lemma vad_one_capture:
  assumes "vad_reach process g" "vg_bugs g bug = Some (s, a)"
  shows "vg_private g s = Some bug \<and> (\<forall>bug' s'. vg_bugs g bug' = Some (s', a) \<longrightarrow> bug' = bug) \<and>
    (\<forall>bug' a'. vg_bugs g bug' = Some (s, a') \<longrightarrow> bug' = bug) \<and>
    (\<exists>cb. vg_cbs g a = Some cb \<and> cb_vad cb \<noteq> None \<and> cb_mutex cb) \<and>
    vad_start_capture E s mode g = (SWITCH_STATUS_FALSE, g)"
proof -
  note inv = vad_reach_inv [OF assms(1)]
  have p: "vg_private g s = Some bug" using vad_invD(1) [OF inv] assms(2) by blast
  moreover have "bug' = bug" if "vg_bugs g bug' = Some (s, a')" for bug' a'
    using that p vad_invD(1) [OF inv, of s bug'] by simp
  moreover have "bug' = bug" if "vg_bugs g bug' = Some (s', a)" for bug' s'
    using vad_invD(3) [OF inv that assms(2)] .
  ultimately show ?thesis using vad_invD(2) [OF inv assms(2)]
    by (auto simp: live_def vad_start_capture_def)
qed

fun change_to :: "vad_event \<Rightarrow> vad_state option" where
  "change_to (VadChange old new d) = Some new"
| "change_to (VadSummary sp n d) = None"

fun change_from :: "vad_event \<Rightarrow> vad_state option" where
  "change_from (VadChange old new d) = Some old"
| "change_from (VadSummary sp n d) = None"

lemma vad_frames_reports:
  assumes "vad_frames process s old fs v cb evs = (cb', evs')"
  shows "\<exists>es. evs' = evs @ es \<and>
    list_all (\<lambda>e. change_from e = Some old \<and> change_to e \<noteq> Some old) es \<and>
    Some (cb_vad_state cb') = last (Some (cb_vad_state cb) # map change_to es) \<and>
    cb_speech_segments cb' = cb_speech_segments cb + of_nat (count_list (map change_to es) (Some VAD_START_TALKING))"
  using assms
proof (induction fs arbitrary: v cb evs)
  case Nil
  then show ?case by auto
next
  case (Cons f fs)
  obtain new v1 where n: "process v (fr_samples f) = (new, v1)" by fastforce
  consider "fr_cng f" | "\<not> fr_cng f" "fr_datalen f = 0" | "\<not> fr_cng f" "fr_datalen f \<noteq> 0" "new = old"
    | "\<not> fr_cng f" "fr_datalen f \<noteq> 0" "new \<noteq> old" by blast
  then show ?case
  proof cases
    case 4
    let ?d = "timeval_diff (fr_now f) (cb_last_segment_start cb)"
    from 4 Cons.prems n have "vad_frames process s old fs v1 (cb\<lparr>cb_vad_state := new,
                cb_speech_duration := (if new = VAD_STOP_TALKING then cb_speech_duration cb + ?d
                  else cb_speech_duration cb),
                cb_speech_segments := (if new = VAD_START_TALKING then cb_speech_segments cb + 1
                  else cb_speech_segments cb),
                cb_last_segment_start := fr_next f\<rparr>) (evs @ [VadChange old new (?d sdiv 1000)]) = (cb', evs')"
      by (simp add: Let_def)
    from Cons.IH [OF this] obtain es where es:
      "evs' = evs @ VadChange old new (?d sdiv 1000) # es"
      "list_all (\<lambda>e. change_from e = Some old \<and> change_to e \<noteq> Some old) es"
      "Some (cb_vad_state cb') = last (Some new # map change_to es)"
      "cb_speech_segments cb' = (if new = VAD_START_TALKING then cb_speech_segments cb + 1
          else cb_speech_segments cb) + of_nat (count_list (map change_to es) (Some VAD_START_TALKING))"
      by auto
    then show ?thesis using 4(3)
      by (intro exI [of _ "VadChange old new (?d sdiv 1000) # es"]) auto
  qed (use Cons n in \<open>auto\<close>)
qed

text \<open>A READ reports nothing but changes away from the state the capture had before it; afterwards
  the capture has the state last reported, and the number of speech segments has grown by the number
  of reported starts, modulo 2 to the 32.\<close>

lemma vad_read_reports:
  assumes "vad_reach process g" "vg_bugs g bug = Some (s, a)" "vg_cbs g a = Some cb"
  shows "\<exists>g' cb' es. vad_read process bug t1 t2 locked fs g = Inr g' \<and>
    vg_cbs g' = (vg_cbs g)(a := Some cb') \<and> vg_events g' = vg_events g @ map (Pair s) es \<and>
    list_all (\<lambda>e. change_from e = Some (cb_vad_state cb) \<and> change_to e \<noteq> Some (cb_vad_state cb)) es \<and>
    Some (cb_vad_state cb') = last (Some (cb_vad_state cb) # map change_to es) \<and>
    cb_speech_segments cb' = cb_speech_segments cb + of_nat (count_list (map change_to es) (Some VAD_START_TALKING))"
proof -
  have "live cb" using vad_invD(2) [OF vad_reach_inv [OF assms(1)] assms(2)] assms(3) by simp
  then obtain v where v: "cb_vad cb = Some v" "cb_mutex cb" by (auto simp: live_def)
  let ?cb = "if tv_sec (cb_start cb) = 0 then cb\<lparr>cb_start := t1, cb_last_segment_start := t2\<rparr> else cb"
  have same: "cb_vad_state ?cb = cb_vad_state cb" "cb_speech_segments ?cb = cb_speech_segments cb"
    "cb_mutex ?cb" using v(2) by simp_all
  obtain cb2 evs where f: "vad_frames process s (cb_vad_state cb) fs v ?cb [] = (cb2, evs)" by fastforce
  show ?thesis
  proof (cases locked)
    case False
    then show ?thesis using same v
      by (intro exI [of _ "g\<lparr>vg_cbs := (vg_cbs g)(a := Some ?cb)\<rparr>"] exI [of _ ?cb] exI [of _ "[]"])
        (simp add: vad_read_def assms(2,3) vad_cb_def)
  next
    case True
    then show ?thesis using vad_frames_reports [OF f] same v f
      by (intro exI [of _ "g\<lparr>vg_cbs := (vg_cbs g)(a := Some cb2), vg_events := vg_events g @ map (Pair s) evs\<rparr>"]
          exI [of _ cb2] exI [of _ evs]) (auto simp: vad_read_def assms(2,3) vad_cb_def Let_def)
  qed
qed

section \<open>Wrong reports\<close>

text \<open>C28: the state a change is reported from is read once per READ: when one READ delivers a frame on
  which the detector leaves its state and a frame on which it comes back, the return is not reported,
  and the capture keeps a state the detector has left.\<close>

theorem vad_return_unreported:
  assumes "vad_reach process g" "vg_bugs g bug = Some (s, a)" "vg_cbs g a = Some cb" "cb_vad cb = Some v"
    and "fr_datalen f1 \<noteq> 0" "\<not> fr_cng f1" "fr_datalen f2 \<noteq> 0" "\<not> fr_cng f2"
    and "process v (fr_samples f1) = (new, v1)" "process v1 (fr_samples f2) = (cb_vad_state cb, v2)"
    and "new \<noteq> cb_vad_state cb"
  shows "\<exists>g' cb' d. vad_read process bug t1 t2 True [f1, f2] g = Inr g' \<and>
    vg_events g' = vg_events g @ [(s, VadChange (cb_vad_state cb) new d)] \<and>
    vg_cbs g' a = Some cb' \<and> cb_vad cb' = Some v2 \<and> cb_vad_state cb' = new"
proof -
  have "cb_mutex cb" using vad_invD(2) [OF vad_reach_inv [OF assms(1)] assms(2)] assms(3) by (simp add: live_def)
  then show ?thesis using assms(2-) by (simp add: vad_read_def vad_cb_def Let_def)
qed

text \<open>A stop that read the bug before another stop has completed takes a mutex that CLOSE has
  destroyed and set to null.\<close>

lemma vad_two_stops_crash:
  assumes "vad_reach process g" "vg_private g s = Some bug" "vg_bugs g bug = Some (s', a)"
    and "vad_do_stop s now g = Inr (status, g1)"
  shows "vad_do_stop_seen s bug a now' g1 = Inl NullDeref"
proof -
  obtain cb where cb: "vg_cbs g a = Some cb" "cb_mutex cb"
    using vad_invD(2) [OF vad_reach_inv [OF assms(1)] assms(3)] by (auto simp: live_def)
  have "vg_cbs g1 a = Some (cb\<lparr>cb_vad := None, cb_mutex := False\<rparr>)"
    using assms(2-) cb
    by (auto simp: vad_do_stop_def vad_do_stop_seen_def vad_cb_def vad_close_def vad_responseHandler_def andthen_Inr_iff)
  then show ?thesis by (simp add: vad_do_stop_seen_def vad_cb_def)
qed


text \<open>A capture that is stopped before its first READ reports the time since the epoch as its
  total duration, because its start time is still zero.\<close>

lemma vad_stop_before_audio:
  assumes "vad_start_capture E s mode g = (SWITCH_STATUS_SUCCESS, g1)"
  shows "\<exists>g2. vad_do_stop s now g1 = Inr (SWITCH_STATUS_SUCCESS, g2) \<and>
    vg_events g2 = vg_events g @ [(s, VadSummary 0 0 ((1000000 * tv_sec now + tv_usec now) sdiv 1000))]"
proof -
  let ?cb = "\<lparr>cb_vad = ve_vad E mode, cb_mutex = True, cb_start = \<lparr>tv_sec = 0, tv_usec = 0\<rparr>,
    cb_last_segment_start = ve_last_segment_start E, cb_speech_segments = 0, cb_speech_duration = 0,
    cb_vad_state = VAD_NONE\<rparr>"
  obtain bug where "g1 = g\<lparr>vg_cbs := (vg_cbs g)(ve_cb E := Some ?cb),
      vg_bugs := (vg_bugs g)(bug := Some (s, ve_cb E)), vg_private := (vg_private g)(s := Some bug)\<rparr>"
    using assms by (auto simp: vad_start_capture_def Let_def split: if_splits option.splits)
  moreover have "timeval_diff now \<lparr>tv_sec = 0, tv_usec = 0\<rparr> = 1000000 * tv_sec now + tv_usec now"
    by (simp add: timeval_diff_def Let_def borrow_value)
  ultimately show ?thesis
    by (simp add: vad_do_stop_def vad_do_stop_seen_def vad_cb_def vad_close_def vad_responseHandler_def)
qed

text \<open>A block no bug refers to any more, with a live detector.\<close>

definition orphan :: "ptr \<Rightarrow> 'v vad_glue \<Rightarrow> bool" where
  "orphan a g \<longleftrightarrow> (\<exists>cb. vg_cbs g a = Some cb \<and> cb_vad cb \<noteq> None) \<and> (\<forall>bug s. vg_bugs g bug \<noteq> Some (s, a))"

inductive vad_steps :: "('v \<Rightarrow> u8 list \<Rightarrow> vad_state \<times> 'v) \<Rightarrow> 'v vad_glue \<Rightarrow> 'v vad_glue \<Rightarrow> bool" for process where
  refl: "vad_steps process g g"
| step: "vad_steps process g g1 \<Longrightarrow> vad_enabled a g1 \<Longrightarrow> vad_exec process a g1 = Inr g2 \<Longrightarrow> vad_steps process g g2"

lemma orphan_close: "orphan a g \<Longrightarrow> vad_close bug g = Inr g' \<Longrightarrow> orphan a g'"
  by (auto simp: orphan_def vad_close_def vad_cb_def andthen_Inr_iff split: option.splits if_splits)

lemma orphan_events: "orphan a (vad_responseHandler s ev g) = orphan a g"
  by (simp add: orphan_def vad_responseHandler_def)

lemma orphan_step:
  assumes o: "orphan a g" and e: "vad_enabled x g" and r: "vad_exec process x g = Inr g'"
  shows "orphan a g'"
proof (cases x)
  case (VAStart E s mode)
  then show ?thesis using o e r
    by (auto simp: orphan_def vad_start_capture_def Let_def split: option.splits if_splits)
next
  case (VAStop s now)
  then obtain q where "vad_do_stop s now g = Inr (q, g')" using r by (auto simp: andthen_Inr_iff)
  then consider "g' = g" | bug a' where "vad_do_stop_seen s bug a' now g = Inr (q, g')"
    by (auto simp: vad_do_stop_def split: option.splits)
  then show ?thesis
  proof cases
    case 2
    then obtain ev where "vad_close bug (vad_responseHandler s ev g) = Inr g' \<or> g' = vad_responseHandler s ev g"
      by (auto simp: vad_do_stop_seen_def andthen_Inr_iff Let_def split: if_splits)
    then show ?thesis using o orphan_close [of a "vad_responseHandler s ev g" bug g'] by (auto simp: orphan_events)
  qed (use o in simp)
next
  case (VARead bug t1 t2 locked fs)
  then show ?thesis using o r
    by (auto simp: orphan_def vad_read_def vad_cb_def andthen_Inr_iff Let_def split: option.splits if_splits prod.splits)
next
  case (VAClose bug)
  then show ?thesis using o r orphan_close by simp
next
  case (VAHangup s)
  then show ?thesis using o r by (auto simp: orphan_def)
qed

lemma orphan_steps: "vad_steps process g g' \<Longrightarrow> orphan a g \<Longrightarrow> orphan a g'"
  by (induction rule: vad_steps.induct) (auto dest: orphan_step)

text \<open>When the media bug cannot be added, the detector is never destroyed, whatever happens
  afterwards.\<close>

lemma vad_failed_start_leaks:
  assumes "vad_reach process g" "vad_enabled (VAStart E s mode) g"
    and "vg_private g s = None" "ve_pre_answer E" "ve_vad E mode \<noteq> None" "ve_added E = None"
    and "vad_steps process (snd (vad_start_capture E s mode g)) g'"
  shows "\<exists>cb. vg_cbs g' (ve_cb E) = Some cb \<and> cb_vad cb \<noteq> None"
proof -
  have "vg_bugs g bug \<noteq> Some (s', ve_cb E)" for bug s'
    using vad_invD(2) [OF vad_reach_inv [OF assms(1)], of bug s' "ve_cb E"] assms(2) by auto
  then have "orphan (ve_cb E) (snd (vad_start_capture E s mode g))"
    using assms(3-6) by (auto simp: orphan_def vad_start_capture_def Let_def)
  from orphan_steps [OF assms(7) this] show ?thesis by (simp add: orphan_def)
qed

section \<open>The properties on a concrete capture\<close>

definition vad_demo :: "nat \<Rightarrow> u8 list \<Rightarrow> vad_state \<times> nat" where
  "vad_demo v d = (if v = 0 then VAD_START_TALKING else if v = 1 then VAD_NONE else VAD_TALKING, v + 1)"

definition vad_demo_env :: "ptr option \<Rightarrow> nat vad_env" where
  "vad_demo_env added = \<lparr>ve_cb = 1, ve_last_segment_start = \<lparr>tv_sec = 0, tv_usec = 0\<rparr>, ve_pre_answer = True,
     ve_vad = (\<lambda>_. Some 0), ve_added = added\<rparr>"

definition vad_demo_idle :: "nat vad_glue" where
  "vad_demo_idle = \<lparr>vg_cbs = (\<lambda>_. None), vg_bugs = (\<lambda>_. None), vg_private = (\<lambda>_. None),
     vg_sessions = (\<lambda>_. True), vg_events = []\<rparr>"

definition vad_demo_cb :: "nat cap_cb" where
  "vad_demo_cb = \<lparr>cb_vad = Some 0, cb_mutex = True, cb_start = \<lparr>tv_sec = 0, tv_usec = 0\<rparr>,
     cb_last_segment_start = \<lparr>tv_sec = 0, tv_usec = 0\<rparr>, cb_speech_segments = 0, cb_speech_duration = 0,
     cb_vad_state = VAD_NONE\<rparr>"

definition vad_demo_on :: "nat vad_glue" where
  "vad_demo_on = \<lparr>vg_cbs = [1 \<mapsto> vad_demo_cb], vg_bugs = [11 \<mapsto> (''u'', 1)], vg_private = [''u'' \<mapsto> 11],
     vg_sessions = (\<lambda>_. True), vg_events = []\<rparr>"

definition vad_demo_frame :: frame_in where
  "vad_demo_frame = \<lparr>fr_datalen = 320, fr_cng = False, fr_samples = [], fr_now = \<lparr>tv_sec = 9, tv_usec = 0\<rparr>,
     fr_next = \<lparr>tv_sec = 9, tv_usec = 1\<rparr>\<rparr>"

lemmas vad_demo_defs = vad_demo_env_def vad_demo_idle_def vad_demo_cb_def vad_demo_on_def vad_demo_frame_def

lemma vad_demo_idle_reach: "vad_reach vad_demo vad_demo_idle"
  by (rule vad_reach.start) (simp add: vad_start_def vad_demo_idle_def)

lemma vad_demo_started:
  "vad_start_capture (vad_demo_env (Some 11)) ''u'' 2 vad_demo_idle = (SWITCH_STATUS_SUCCESS, vad_demo_on)"
  by (simp add: vad_start_capture_def vad_demo_defs Let_def)

lemma vad_demo_on_reach: "vad_reach vad_demo vad_demo_on"
  by (rule vad_reach.step [OF vad_demo_idle_reach, of "VAStart (vad_demo_env (Some 11)) ''u'' 2"])
    (simp_all add: vad_demo_started, simp add: vad_demo_defs)

lemma vad_demo_on_sel:
  "vg_bugs vad_demo_on 11 = Some (''u'', 1)" "vg_private vad_demo_on ''u'' = Some 11"
  "vg_cbs vad_demo_on 1 = Some vad_demo_cb" "vg_events vad_demo_on = []"
  by (simp_all add: vad_demo_on_def)

lemma vad_return_unreported_witness:
  "\<exists>g' cb' d. vad_read vad_demo 11 \<lparr>tv_sec = 5, tv_usec = 0\<rparr> \<lparr>tv_sec = 5, tv_usec = 1\<rparr> True
      [vad_demo_frame, vad_demo_frame] vad_demo_on = Inr g' \<and>
    vg_events g' = [(''u'', VadChange VAD_NONE VAD_START_TALKING d)] \<and>
    vg_cbs g' 1 = Some cb' \<and> cb_vad cb' = Some 2 \<and> cb_vad_state cb' = VAD_START_TALKING"
  using vad_return_unreported [OF vad_demo_on_reach vad_demo_on_sel(1,3), of 0 vad_demo_frame vad_demo_frame
      VAD_START_TALKING 1 2]
  by (simp add: vad_demo_on_sel(4) vad_demo_def vad_demo_frame_def vad_demo_cb_def)


end
