(* ===== verification/Prebuffer.thy ===== *)
theory Prebuffer
  imports SimpleBuffer
begin

text \<open>
  Audio kept before a stream is connected, as mod_google_transcribe, mod_aws_transcribe and
  mod_azure_transcribe do it with the same lines: bytes of any length go to a staging area, whole chunks
  from there to the ring of theory \<open>SimpleBuffer\<close>, and what does not fill a chunk stays staged.
\<close>

section \<open>The operation\<close>

definition pb_write :: "nat \<Rightarrow> u8 list \<Rightarrow> simple_buffer \<times> u8 list \<Rightarrow> ub + simple_buffer \<times> u8 list" where
  "pb_write c data p = (case p of (b, old) \<Rightarrow>
     let staging = old @ data;
         usable = (length staging div c) * c
     in if usable > 0
        then andthen (sb_add b (take usable staging)) (\<lambda>b1. Inr (b1, drop usable staging))
        else Inr (b, staging))"

section \<open>Lists\<close>

text \<open>Cutting a list into chunks.\<close>

lemma chunks_of_add: "chunks_of c (m + k) xs = chunks_of c m xs @ chunks_of c k (drop (m * c) xs)"
proof (induction m arbitrary: xs)
  case (Suc m)
  then show ?case by (simp add: chunks_of_Suc add.commute)
qed (simp add: chunks_of_def)

lemma chunks_of_prefix: "m * c \<le> length xs \<Longrightarrow> chunks_of c m (xs @ ys) = chunks_of c m xs"
proof (induction m arbitrary: xs)
  case (Suc m)
  then show ?case by (simp add: chunks_of_Suc)
qed (simp add: chunks_of_def)

lemma chunks_of_take: "chunks_of c k (take (k * c) xs) = chunks_of c k xs"
proof (cases "k * c \<le> length xs")
  case True
  then show ?thesis using chunks_of_prefix [of k c "take (k * c) xs" "drop (k * c) xs"] by simp
qed simp

lemma concat_chunks_of: "concat (chunks_of c m xs) = take (m * c) xs"
proof (induction m arbitrary: xs)
  case (Suc m)
  then show ?case by (simp add: chunks_of_Suc take_add)
qed (simp add: chunks_of_def)

lemma chunks_of_0 [simp]: "chunks_of c 0 xs = []"
  by (simp add: chunks_of_def)

lemma length_chunks_of [simp]: "length (chunks_of c m xs) = m"
  by (simp add: chunks_of_def)

lemma concat_lastn_chunks: "concat (lastn n (chunks_of c m xs)) = drop ((m - n) * c) (take (m * c) xs)"
proof -
  have "chunks_of c m xs = chunks_of c (m - n) xs @ chunks_of c (m - (m - n)) (drop ((m - n) * c) xs)"
    using chunks_of_add [of c "m - n" "m - (m - n)" xs] by simp
  then have "lastn n (chunks_of c m xs) = chunks_of c (m - (m - n)) (drop ((m - n) * c) xs)"
    by (simp add: lastn_def)
  then show ?thesis by (simp add: concat_chunks_of drop_take diff_mult_distrib)
qed

lemma lastn_lastn: "lastn n (lastn n xs @ ys) = lastn n (xs @ ys)"
  by (cases "n \<le> length xs") (simp_all add: lastn_def add.commute)

lemma lastn_map: "lastn n (map f xs) = map f (lastn n xs)"
  by (simp add: lastn_def drop_map)

section \<open>What is kept\<close>

text \<open>What is kept of the audio written so far: the last \<open>n\<close> whole chunks and the rest.\<close>

definition pb_kept :: "nat \<Rightarrow> nat \<Rightarrow> simple_buffer \<times> u8 list \<Rightarrow> u8 list \<Rightarrow> bool" where
  "pb_kept c n p audio \<longleftrightarrow> (case p of (b, staging) \<Rightarrow>
     length staging = length audio mod c \<and> staging = drop (length audio div c * c) audio \<and>
     sb_inv b \<and> unat (chunkSize b) = c \<and> unat (numChunks b) = n \<and>
     sb_abs b = lastn n (map (map Some) (chunks_of c (length audio div c) audio)))"

lemma pb_kept_inv:
  "pb_kept c n (b, staging) audio \<Longrightarrow> sb_inv b \<and> unat (chunkSize b) = c \<and> unat (numChunks b) = n"
  unfolding pb_kept_def prod.case by blast

definition pb_audio :: "simple_buffer \<times> u8 list \<Rightarrow> u8 option list" where
  "pb_audio p = concat (sb_abs (fst p)) @ map Some (snd p)"

lemma pb_kept_new:
  assumes "unat c = C" "unat n = N" "0 < C" "0 < N" "C * N < 2 ^ 32"
  shows "pb_kept C N (SimpleBuffer c n, []) []"
proof -
  have new: "sb_inv (SimpleBuffer c n)" "sb_abs (SimpleBuffer c n) = []"
    using sb_init_inv [of c n] assms by (simp_all add: word_less_nat_alt)
  then show ?thesis using assms by (simp add: pb_kept_def SimpleBuffer_def lastn_def chunks_of_def)
qed

lemma pb_write_kept:
  assumes k: "pb_kept c n p audio" and c: "0 < c"
  shows "\<exists>p1. pb_write c data p = Inr p1 \<and> pb_kept c n p1 (audio @ data)"
proof -
  obtain b old where p: "p = (b, old)" by (cases p)
  let ?q = "length audio div c"
  let ?st = "old @ data"
  let ?k = "length ?st div c"
  have b: "sb_inv b" "unat (chunkSize b) = c" "unat (numChunks b) = n"
    "sb_abs b = lastn n (map (map Some) (chunks_of c ?q audio))"
    and st: "?st = drop (?q * c) (audio @ data)" "?q * c \<le> length audio"
    and old: "length old = length audio mod c"
    using k unfolding pb_kept_def p prod.case by (blast, blast, blast, blast, simp, simp, blast)
  have len: "length (audio @ data) = ?q * c + length ?st"
    using old div_mult_mod_eq [of "length audio" c] by simp
  then have q: "length (audio @ data) div c = ?q + ?k" "length (audio @ data) mod c = length ?st mod c"
    using c by (simp_all only: div_mult_self3 mod_mult_self3 div_mult_self4)
  have chunks: "chunks_of c (?q + ?k) (audio @ data) = chunks_of c ?q audio @ chunks_of c ?k (take (?k * c) ?st)"
    using st by (simp only: chunks_of_add chunks_of_prefix chunks_of_take)
  have rest: "drop (length (audio @ data) div c * c) (audio @ data) = drop (?k * c) ?st"
    unfolding q st(1) by (simp add: add.commute add_mult_distrib)
  show ?thesis
  proof (cases "?k = 0")
    case True
    then have "pb_write c data p = Inr (b, ?st)" by (simp add: pb_write_def p Let_def)
    moreover have "length ?st mod c = length ?st" using True c by (simp add: div_eq_0_iff)
    ultimately show ?thesis using True b q chunks rest by (simp add: pb_kept_def)
  next
    case False
    have "length (take (?k * c) ?st) = ?k * unat (chunkSize b)"
      using div_times_less_eq_dividend [of "length ?st" c] by (simp only: b(2) length_take min_absorb2)
    from sb_add_ok [OF b(1) this] obtain b1 where b1: "sb_add b (take (?k * c) ?st) = Inr b1" "sb_inv b1"
      "chunkSize b1 = chunkSize b" "numChunks b1 = numChunks b"
      "sb_abs b1 = lastn n (sb_abs b @ map (map Some) (chunks_of c ?k (take (?k * c) ?st)))"
      using b(2,3) by auto
    have w: "pb_write c data p = Inr (b1, drop (?k * c) ?st)"
      using False b1(1) c by (simp add: pb_write_def p Let_def)
    have "sb_abs b1 = lastn n (map (map Some) (chunks_of c (?q + ?k) (audio @ data)))"
      unfolding b1(5) b(4) chunks by (simp add: lastn_lastn)
    moreover have "length (drop (?k * c) ?st) = length ?st mod c"
      by (simp only: length_drop minus_div_mult_eq_mod)
    ultimately have "pb_kept c n (b1, drop (?k * c) ?st) (audio @ data)"
      using b b1(2-4) q rest unfolding pb_kept_def
      by (simp del: length_drop drop_append length_append)
    with w show ?thesis by blast
  qed
qed

text \<open>What is kept is the end of the audio: all but the oldest whole chunks over \<open>n\<close>.\<close>

lemma pb_kept_audio:
  assumes "pb_kept c n p audio"
  shows "pb_audio p = map Some (drop ((length audio div c - n) * c) audio)"
proof -
  let ?q = "length audio div c"
  have le: "(?q - n) * c \<le> length (take (?q * c) audio)" by simp
  have "concat (sb_abs (fst p)) = map Some (drop ((?q - n) * c) (take (?q * c) audio))"
    using assms by (auto simp: pb_kept_def lastn_map concat_lastn_chunks simp flip: map_concat)
  moreover have "snd p = drop (?q * c) audio" using assms by (auto simp: pb_kept_def)
  moreover have "drop ((?q - n) * c) (take (?q * c) audio) @ drop (?q * c) audio
      = drop ((?q - n) * c) (take (?q * c) audio @ drop (?q * c) audio)"
    using le by (simp only: drop_append) simp
  ultimately show ?thesis unfolding pb_audio_def
    by (simp only: append_take_drop_id flip: map_append)
qed

end
