(* ===== verification/GStream.thy ===== *)
theory GStream
  imports Prebuffer
begin

text \<open>
  \<^verbatim>\<open>modules/mod_google_transcribe/google_glue.cpp\<close>, the class \<open>GStreamer\<close>: one recognition stream.
  Audio that arrives before the stream is connected is kept in the ring of theory \<open>SimpleBuffer\<close>, with a
  staging area for what does not fill a chunk. The calls made on the gRPC stream are recorded in
  order; what gRPC does with them is not modelled. \<open>connect\<close> is cut where other threads can run: the
  media thread takes the write mutex for each single write.
\<close>

section \<open>State\<close>

datatype gcall = GStart | GWriteConfig | GWrite "u8 option list" | GWritesDone | GFinish

record g_stream =
  g_connected :: bool
  g_writesDone :: bool
  g_promise :: bool
  g_audioBuffer :: "simple_buffer option"
  g_prebufStaging :: "u8 list"
  g_calls :: "gcall list"

definition CHUNKSIZE :: nat where "CHUNKSIZE = 320"
definition PREBUFFER_CHUNKS :: nat where "PREBUFFER_CHUNKS = 15"

definition GStreamer :: g_stream where
  "GStreamer = \<lparr>g_connected = False, g_writesDone = False, g_promise = False, g_audioBuffer = None,
     g_prebufStaging = [], g_calls = []\<rparr>"

definition g_call :: "gcall \<Rightarrow> g_stream \<Rightarrow> g_stream" where
  "g_call c s = s\<lparr>g_calls := g_calls s @ [c]\<rparr>"

section \<open>Operations\<close>

text \<open>The write of a connected stream: nothing is written once the write side is closed. \<open>ok\<close> is the
  answer of \<open>Write\<close>.\<close>

definition g_send :: "bool \<Rightarrow> u8 option list \<Rightarrow> g_stream \<Rightarrow> bool \<times> g_stream" where
  "g_send ok data s = (if g_writesDone s then (False, s) else (ok, g_call (GWrite data) s))"

definition g_write :: "bool \<Rightarrow> u8 list \<Rightarrow> g_stream \<Rightarrow> ub + bool \<times> g_stream" where
  "g_write ok data s =
     (if \<not> g_connected s then
        let b = (case g_audioBuffer s of
              None \<Rightarrow> SimpleBuffer (of_nat CHUNKSIZE) (of_nat PREBUFFER_CHUNKS) | Some b \<Rightarrow> b)
        in andthen (pb_write CHUNKSIZE data (b, g_prebufStaging s)) (\<lambda>(b1, staging).
             Inr (True, s\<lparr>g_audioBuffer := Some b1, g_prebufStaging := staging\<rparr>))
      else Inr (g_send ok (map Some data) s))"

text \<open>\<open>connect\<close>: the stream is begun and the read thread released; the request with the
  configuration is written; the ring is drained chunk by chunk; the staging area is written.\<close>

definition g_connect_begin :: "g_stream \<Rightarrow> ub + g_stream" where
  "g_connect_begin s =
     (if g_connected s then Inl AssertFailed
      else if g_promise s then Inl PromiseTwice
      else Inr ((g_call GStart s)\<lparr>g_connected := True, g_promise := True\<rparr>))"

definition g_connect_config :: "g_stream \<Rightarrow> g_stream" where
  "g_connect_config s = g_call GWriteConfig s"

text \<open>One round of the drain loop; \<open>False\<close> when the ring is empty.\<close>

definition g_connect_drain :: "bool \<Rightarrow> g_stream \<Rightarrow> bool \<times> g_stream" where
  "g_connect_drain ok s =
     (case g_audioBuffer s of
        None \<Rightarrow> (False, s)
      | Some b \<Rightarrow> (case sb_getNextChunk b of
            (None, b1) \<Rightarrow> (False, s\<lparr>g_audioBuffer := Some b1\<rparr>)
          | (Some p, b1) \<Rightarrow> (True, snd (g_send ok p (s\<lparr>g_audioBuffer := Some b1\<rparr>)))))"

definition g_connect_flush :: "bool \<Rightarrow> g_stream \<Rightarrow> g_stream" where
  "g_connect_flush ok s =
     (if g_prebufStaging s = [] then s
      else (snd (g_send ok (map Some (g_prebufStaging s)) s))\<lparr>g_prebufStaging := []\<rparr>)"

definition g_items :: "g_stream \<Rightarrow> nat" where
  "g_items s = (case g_audioBuffer s of None \<Rightarrow> 0 | Some b \<Rightarrow> unat (numItems b))"

lemma g_connect_drain_less: "g_connect_drain ok s = (True, s1) \<Longrightarrow> g_items s1 < g_items s"
proof -
  assume d: "g_connect_drain ok s = (True, s1)"
  then obtain b where b: "g_audioBuffer s = Some b" by (auto simp: g_connect_drain_def split: option.splits)
  then have n: "numItems b \<noteq> 0" using d by (auto simp: g_connect_drain_def sb_getNextChunk_def)
  moreover have "g_audioBuffer s1 = Some (b\<lparr>numItems := numItems b - 1, nextRead := sb_advance b (nextRead b)\<rparr>)"
    using d b n by (auto simp: g_connect_drain_def sb_getNextChunk_def g_send_def g_call_def split: if_splits)
  moreover have "unat (numItems b - 1) < unat (numItems b)" using n measure_unat by blast
  ultimately show ?thesis using b by (simp add: g_items_def)
qed

function g_connect_drain_all :: "bool \<Rightarrow> g_stream \<Rightarrow> g_stream" where
  "g_connect_drain_all ok s =
     (case g_connect_drain ok s of (again, s1) \<Rightarrow> if again then g_connect_drain_all ok s1 else s1)"
  by pat_completeness auto
termination
  by (relation "measure (\<lambda>(ok, s). g_items s)") (auto simp: g_connect_drain_less)

declare g_connect_drain_all.simps [simp del]

definition g_connect :: "bool \<Rightarrow> g_stream \<Rightarrow> ub + g_stream" where
  "g_connect ok s =
     andthen (g_connect_begin s) (\<lambda>s1.
       Inr (g_connect_flush ok (g_connect_drain_all ok (g_connect_config s1))))"

definition g_cancelConnect :: "g_stream \<Rightarrow> ub + g_stream" where
  "g_cancelConnect s =
     (if g_connected s then Inl AssertFailed
      else if g_promise s then Inl PromiseTwice
      else Inr (s\<lparr>g_promise := True\<rparr>))"

definition g_writes_done :: "g_stream \<Rightarrow> ub + g_stream" where
  "g_writes_done s =
     (if \<not> g_connected s then g_cancelConnect s
      else Inr (if g_writesDone s then s else (g_call GWritesDone s)\<lparr>g_writesDone := True\<rparr>))"

definition g_finish :: "g_stream \<Rightarrow> g_stream" where
  "g_finish s = (g_call GFinish s)\<lparr>g_writesDone := True\<rparr>"

text \<open>What \<open>waitForConnect\<close> answers, once the promise is set.\<close>

definition g_waitForConnect :: "g_stream \<Rightarrow> bool option" where
  "g_waitForConnect s = (if g_promise s then Some (g_connected s) else None)"

section \<open>Audio before the connection\<close>

text \<open>What was kept of the audio written so far.\<close>

definition g_kept :: "g_stream \<Rightarrow> u8 list \<Rightarrow> bool" where
  "g_kept s audio \<longleftrightarrow>
     (case g_audioBuffer s of
        None \<Rightarrow> audio = [] \<and> g_prebufStaging s = []
      | Some b \<Rightarrow> pb_kept CHUNKSIZE PREBUFFER_CHUNKS (b, g_prebufStaging s) audio)"

definition g_same :: "g_stream \<Rightarrow> g_stream \<Rightarrow> bool" where
  "g_same s t \<longleftrightarrow> g_connected t = g_connected s \<and> g_writesDone t = g_writesDone s \<and> g_promise t = g_promise s \<and>
     g_calls t = g_calls s"

lemma g_kept_start: "g_kept GStreamer []"
  by (simp add: g_kept_def GStreamer_def)

lemma chunk_sizes: "unat (of_nat CHUNKSIZE :: u32) = CHUNKSIZE" "unat (of_nat PREBUFFER_CHUNKS :: u32) = PREBUFFER_CHUNKS"
  by (simp_all add: CHUNKSIZE_def PREBUFFER_CHUNKS_def)

lemma g_write_kept:
  assumes k: "g_kept s audio" and c: "\<not> g_connected s"
  shows "\<exists>s1. g_write ok data s = Inr (True, s1) \<and> g_kept s1 (audio @ data) \<and> g_same s s1"
proof -
  define b where "b = (case g_audioBuffer s of
      None \<Rightarrow> SimpleBuffer (of_nat CHUNKSIZE) (of_nat PREBUFFER_CHUNKS) | Some b \<Rightarrow> b)"
  have "pb_kept CHUNKSIZE PREBUFFER_CHUNKS (b, g_prebufStaging s) audio"
    using k pb_kept_new [OF chunk_sizes]
    by (auto simp: g_kept_def b_def CHUNKSIZE_def PREBUFFER_CHUNKS_def split: option.splits)
  from pb_write_kept [OF this, of data] obtain b1 staging where
    "pb_write CHUNKSIZE data (b, g_prebufStaging s) = Inr (b1, staging)"
    "pb_kept CHUNKSIZE PREBUFFER_CHUNKS (b1, staging) (audio @ data)"
    by (auto simp: CHUNKSIZE_def)
  then show ?thesis using c by (simp add: g_write_def g_kept_def g_same_def Let_def flip: b_def)
qed

lemma g_writes_kept:
  "g_kept s audio \<Longrightarrow> \<not> g_connected s \<Longrightarrow>
   \<exists>s1. push_all (\<lambda>s d. andthen (g_write ok d s) (\<lambda>(_, s1). Inr s1)) s ds = Inr s1 \<and>
     g_kept s1 (audio @ concat ds) \<and> g_same s s1"
proof (induction ds arbitrary: s audio)
  case (Cons d ds)
  from g_write_kept [OF Cons.prems, of ok d] obtain s1 where s1: "g_write ok d s = Inr (True, s1)"
    "g_kept s1 (audio @ d)" "g_same s s1" by blast
  with Cons.IH [OF s1(2)] Cons.prems(2) show ?case by (fastforce simp: g_same_def)
qed (simp add: g_same_def)

section \<open>Draining the ring\<close>

lemma g_drain_all:
  assumes "g_audioBuffer s = Some b" "sb_inv b" "\<not> g_writesDone s"
  shows "\<exists>b1. g_connect_drain_all ok s =
    s\<lparr>g_audioBuffer := Some b1, g_calls := g_calls s @ map GWrite (sb_abs b)\<rparr>"
  using assms
proof (induction "length (sb_abs b)" arbitrary: s b)
  case 0
  then have "sb_abs b = []" by (simp del: length_sb_abs)
  moreover from this have "sb_getNextChunk b = (None, b)" using sb_getNextChunk_ok(1) [OF "0.prems"(2)] by blast
  ultimately show ?case using 0
    by (intro exI [of _ b]) (subst g_connect_drain_all.simps, simp add: g_connect_drain_def)
next
  case (Suc n)
  then have ne: "sb_abs b \<noteq> []" by (auto simp del: length_sb_abs)
  obtain x b1 where g: "sb_getNextChunk b = (x, b1)" by force
  from sbq.pop_fst [OF Suc.prems(2) ne] sbq.pop_rest [OF Suc.prems(2) ne] sbq.pop_invar [OF Suc.prems(2)]
  have b1: "x = Some (hd (sb_abs b))" "sb_abs b1 = tl (sb_abs b)" "sb_inv b1" by (simp_all add: g)
  let ?s1 = "s\<lparr>g_audioBuffer := Some b1, g_calls := g_calls s @ [GWrite (hd (sb_abs b))]\<rparr>"
  have "g_connect_drain ok s = (True, ?s1)"
    using Suc.prems g b1(1) by (simp add: g_connect_drain_def g_send_def g_call_def)
  then have step: "g_connect_drain_all ok s = g_connect_drain_all ok ?s1"
    by (subst g_connect_drain_all.simps) simp
  have "n = length (sb_abs b1)" using Suc.hyps(2) b1(2) by simp
  from Suc.hyps(1) [OF this, of ?s1] b1(3) Suc.prems(3) obtain b2 where
    "g_connect_drain_all ok ?s1 = ?s1\<lparr>g_audioBuffer := Some b2,
      g_calls := g_calls ?s1 @ map GWrite (sb_abs b1)\<rparr>" by auto
  with step b1(2) ne show ?case by (cases "sb_abs b") auto
qed

text \<open>The audio that was sent, in order.\<close>

fun gcall_audio :: "gcall \<Rightarrow> u8 option list" where
  "gcall_audio (GWrite d) = d"
| "gcall_audio _ = []"

text \<open>C29: whatever was written before the connection, in pieces of any length, \<open>connect\<close> writes the
  configuration first and then the audio in the order it came: all of it when it fits 15 chunks and
  less than one more, and otherwise all but the oldest whole chunks. No byte is invented, none is sent
  twice, and nothing is read that was not written.\<close>

theorem g_prebuffer_delivered:
  "\<exists>s1 s2 pieces. push_all (\<lambda>s d. andthen (g_write ok d s) (\<lambda>(_, s1). Inr s1)) GStreamer ds = Inr s1 \<and>
    g_connect ok s1 = Inr s2 \<and> g_connected s2 \<and> g_prebufStaging s2 = [] \<and>
    g_calls s2 = [GStart, GWriteConfig] @ pieces \<and>
    concat (map gcall_audio pieces) =
      map Some (drop ((length (concat ds) div CHUNKSIZE - PREBUFFER_CHUNKS) * CHUNKSIZE) (concat ds))"
proof -
  let ?a = "concat ds"
  let ?rest = "map Some (drop ((length ?a div CHUNKSIZE - PREBUFFER_CHUNKS) * CHUNKSIZE) ?a)"
  obtain s1 where s1: "push_all (\<lambda>s d. andthen (g_write ok d s) (\<lambda>(_, s1). Inr s1)) GStreamer ds = Inr s1"
    "g_kept s1 ?a" "g_same GStreamer s1"
    using g_writes_kept [OF g_kept_start, of ok ds] by (auto simp: GStreamer_def)
  then have f: "\<not> g_connected s1" "\<not> g_promise s1" "\<not> g_writesDone s1" "g_calls s1 = []"
    by (simp_all add: g_same_def GStreamer_def)
  let ?c = "s1\<lparr>g_connected := True, g_promise := True, g_calls := [GStart, GWriteConfig]\<rparr>"
  have c: "g_connect ok s1 = Inr (g_connect_flush ok (g_connect_drain_all ok ?c))"
    using f by (simp add: g_connect_def g_connect_begin_def g_connect_config_def g_call_def)
  obtain ps b1 where d: "g_connect_drain_all ok ?c = ?c\<lparr>g_audioBuffer := b1, g_calls := [GStart, GWriteConfig] @ map GWrite ps\<rparr>"
    "concat ps @ map Some (g_prebufStaging s1) = ?rest"
  proof (cases "g_audioBuffer s1")
    case None
    then have "?a = []" "g_prebufStaging s1 = []" using s1(2) by (simp_all add: g_kept_def)
    moreover have "g_connect_drain_all ok ?c = ?c"
      using None by (subst g_connect_drain_all.simps) (simp add: g_connect_drain_def)
    ultimately show ?thesis using that [of "[]" None] None unfolding \<open>?a = []\<close> by simp
  next
    case (Some b)
    then have b: "pb_kept CHUNKSIZE PREBUFFER_CHUNKS (b, g_prebufStaging s1) ?a"
      using s1(2) by (simp add: g_kept_def)
    have inv: "sb_inv b" using pb_kept_inv [OF b] by blast
    obtain b1 where "g_connect_drain_all ok ?c = ?c\<lparr>g_audioBuffer := Some b1,
        g_calls := g_calls ?c @ map GWrite (sb_abs b)\<rparr>"
      using g_drain_all [of ?c b ok] Some inv f(3) by auto
    then show ?thesis using that [of "sb_abs b" "Some b1"] pb_kept_audio [OF b] by (simp add: pb_audio_def)
  qed
  define pieces where "pieces = map GWrite ps @ (if g_prebufStaging s1 = [] then [] else [GWrite (map Some (g_prebufStaging s1))])"
  let ?s2 = "?c\<lparr>g_audioBuffer := b1, g_calls := [GStart, GWriteConfig] @ pieces, g_prebufStaging := []\<rparr>"
  have "g_connect ok s1 = Inr ?s2"
    using c d(1) f(3) by (simp add: g_connect_flush_def g_send_def g_call_def pieces_def)
  moreover have "concat (map gcall_audio (map GWrite ps)) = concat ps"
    by (induction ps) auto
  then have "concat (map gcall_audio pieces) = ?rest"
    by (simp add: pieces_def flip: d(2))
  ultimately show ?thesis using s1(1)
    by (intro exI [of _ s1] exI [of _ ?s2] exI [of _ pieces]) simp
qed

end
