(* ===== verification/GThreads.thy ===== *)
theory GThreads
  imports GStream
begin

text \<open>
  The threads around one \<open>GStreamer\<close> of mod_google_transcribe: the media thread (frames, and \<open>connect\<close>
  when a voice is detected), the thread that starts the session (\<open>connect\<close> at once when no detector is
  used), the gRPC read thread (\<open>grpc_read_thread\<close>) and the thread that tears the session down
  (\<open>reap_streamer\<close>). Each is a program counter; the media thread and the teardown exclude each other by
  the session's mutex. The properties are about the order of the calls on the gRPC stream.
\<close>

section \<open>Transitions\<close>

datatype media_pc = MIdle | MConfig | MDrain | MFlush
datatype read_pc = RNone | RWaiting | RReading | RDone
datatype reap_pc = CNone | CJoining | CDeleted

record g_threads =
  gt_stream :: g_stream
  gt_media :: media_pc
  gt_read :: read_pc
  gt_reap :: reap_pc
  gt_vad :: bool
  gt_single :: bool

datatype g_action =
    GConnect
  | GConfig
  | GDrain bool
  | GFlush bool
  | GFrame bool "u8 list"
  | GThread
  | GWake
  | GResponse bool
  | GStreamEnd
  | GReap
  | GJoined

text \<open>\<open>GResponse eou\<close> is one turn of the read loop; \<open>GStreamEnd\<close> is \<open>read\<close> answering false.\<close>

fun g_exec :: "g_action \<Rightarrow> g_threads \<Rightarrow> ub + g_threads" where
  "g_exec GConnect g = andthen (g_connect_begin (gt_stream g)) (\<lambda>s. Inr (g\<lparr>gt_stream := s, gt_media := MConfig\<rparr>))"
| "g_exec GConfig g = Inr (g\<lparr>gt_stream := g_connect_config (gt_stream g), gt_media := MDrain\<rparr>)"
| "g_exec (GDrain ok) g = (case g_connect_drain ok (gt_stream g) of (again, s) \<Rightarrow>
     Inr (g\<lparr>gt_stream := s, gt_media := (if again then MDrain else MFlush)\<rparr>))"
| "g_exec (GFlush ok) g = Inr (g\<lparr>gt_stream := g_connect_flush ok (gt_stream g), gt_media := MIdle\<rparr>)"
| "g_exec (GFrame ok data) g = andthen (g_write ok data (gt_stream g)) (\<lambda>(_, s). Inr (g\<lparr>gt_stream := s\<rparr>))"
| "g_exec GThread g = Inr (g\<lparr>gt_read := RWaiting\<rparr>)"
| "g_exec GWake g = (case g_waitForConnect (gt_stream g) of
     Some True \<Rightarrow> Inr (g\<lparr>gt_read := RReading\<rparr>) | _ \<Rightarrow> Inr (g\<lparr>gt_read := RDone\<rparr>))"
| "g_exec (GResponse eou) g =
     (if eou \<and> gt_single g then andthen (g_writes_done (gt_stream g)) (\<lambda>s. Inr (g\<lparr>gt_stream := s\<rparr>)) else Inr g)"
| "g_exec GStreamEnd g = Inr (g\<lparr>gt_stream := g_finish (gt_stream g), gt_read := RDone\<rparr>)"
| "g_exec GReap g = andthen (g_writes_done (gt_stream g)) (\<lambda>s. Inr (g\<lparr>gt_stream := s, gt_reap := CJoining\<rparr>))"
| "g_exec GJoined g = Inr (g\<lparr>gt_reap := CDeleted\<rparr>)"

fun g_enabled :: "g_action \<Rightarrow> g_threads \<Rightarrow> bool" where
  "g_enabled GConnect g \<longleftrightarrow> gt_media g = MIdle \<and> gt_reap g = CNone \<and> \<not> g_connected (gt_stream g) \<and>
     (gt_read g = RNone \<longleftrightarrow> \<not> gt_vad g)"
| "g_enabled GConfig g \<longleftrightarrow> gt_media g = MConfig"
| "g_enabled (GDrain ok) g \<longleftrightarrow> gt_media g = MDrain"
| "g_enabled (GFlush ok) g \<longleftrightarrow> gt_media g = MFlush"
| "g_enabled (GFrame ok data) g \<longleftrightarrow> gt_media g = MIdle \<and> gt_reap g = CNone \<and> gt_read g \<noteq> RNone"
| "g_enabled GThread g \<longleftrightarrow> gt_read g = RNone \<and> gt_media g = MIdle \<and> (gt_vad g \<or> g_connected (gt_stream g))"
| "g_enabled GWake g \<longleftrightarrow> gt_read g = RWaiting \<and> g_waitForConnect (gt_stream g) \<noteq> None"
| "g_enabled (GResponse eou) g \<longleftrightarrow> gt_read g = RReading"
| "g_enabled GStreamEnd g \<longleftrightarrow> gt_read g = RReading"
| "g_enabled GReap g \<longleftrightarrow> gt_media g = MIdle \<and> gt_reap g = CNone \<and> gt_read g \<noteq> RNone"
| "g_enabled GJoined g \<longleftrightarrow> gt_reap g = CJoining \<and> gt_read g = RDone"

definition g_start :: "bool \<Rightarrow> bool \<Rightarrow> g_threads" where
  "g_start vad single = \<lparr>gt_stream = GStreamer, gt_media = MIdle, gt_read = RNone, gt_reap = CNone,
     gt_vad = vad, gt_single = single\<rparr>"

inductive g_reach :: "g_threads \<Rightarrow> bool" where
  start: "g_reach (g_start vad single)"
| step: "g_reach g \<Longrightarrow> g_enabled a g \<Longrightarrow> g_exec a g = Inr g' \<Longrightarrow> g_reach g'"

text \<open>A sequence of steps each of which may be taken and goes well.\<close>

fun g_run :: "g_action list \<Rightarrow> g_threads \<Rightarrow> g_threads option" where
  "g_run [] g = Some g"
| "g_run (a # as) g = (if g_enabled a g then case g_exec a g of Inl e \<Rightarrow> None | Inr g1 \<Rightarrow> g_run as g1 else None)"

section \<open>The order of the calls\<close>

text \<open>The calls after \<open>StreamingRecognize\<close>, in the state: configuration written, write side closed,
  finished. With \<open>late\<close> the configuration may be written when the write side is closed.\<close>

fun proper :: "bool \<Rightarrow> bool \<Rightarrow> bool \<Rightarrow> bool \<Rightarrow> gcall list \<Rightarrow> bool" where
  "proper late cfg closed fin [] = True"
| "proper late cfg closed fin (GStart # cs) = False"
| "proper late cfg closed fin (GWriteConfig # cs) \<longleftrightarrow>
     \<not> cfg \<and> (late \<or> \<not> closed \<and> \<not> fin) \<and> proper late True closed fin cs"
| "proper late cfg closed fin (GWrite d # cs) \<longleftrightarrow> cfg \<and> \<not> closed \<and> \<not> fin \<and> proper late cfg closed fin cs"
| "proper late cfg closed fin (GWritesDone # cs) \<longleftrightarrow> \<not> closed \<and> \<not> fin \<and> proper late cfg True fin cs"
| "proper late cfg closed fin (GFinish # cs) \<longleftrightarrow> \<not> fin \<and> proper late cfg closed True cs"

lemma proper_snoc:
  "proper late cfg closed fin (cs @ [c]) \<longleftrightarrow> proper late cfg closed fin cs \<and>
     proper late (cfg \<or> GWriteConfig \<in> set cs) (closed \<or> GWritesDone \<in> set cs) (fin \<or> GFinish \<in> set cs) [c]"
  by (induction late cfg closed fin cs rule: proper.induct) auto

definition g_inv :: "g_threads \<Rightarrow> bool" where
  "g_inv g \<longleftrightarrow>
     (let s = gt_stream g; cs = g_calls s in
      (g_connected s \<longleftrightarrow> cs \<noteq> []) \<and>
      (cs \<noteq> [] \<longrightarrow> hd cs = GStart \<and> proper (gt_vad g) False False False (tl cs)) \<and>
      (g_writesDone s \<longleftrightarrow> GWritesDone \<in> set cs \<or> GFinish \<in> set cs) \<and>
      (GWriteConfig \<in> set cs \<longleftrightarrow> g_connected s \<and> gt_media g \<noteq> MConfig) \<and>
      (GFinish \<in> set cs \<longrightarrow> gt_read g = RDone) \<and>
      (gt_read g = RDone \<longrightarrow> g_connected s \<longrightarrow> GFinish \<in> set cs) \<and>
      (g_promise s \<longleftrightarrow> g_connected s \<or> gt_reap g \<noteq> CNone) \<and>
      (gt_read g = RReading \<longrightarrow> g_connected s) \<and>
      (gt_read g = RDone \<longrightarrow> g_promise s) \<and>
      (gt_media g \<noteq> MIdle \<longrightarrow> g_connected s \<and> gt_reap g = CNone \<and> (gt_vad g \<or> gt_read g = RNone)) \<and>
      (gt_read g \<noteq> RNone \<longrightarrow> gt_vad g \<or> g_connected s) \<and>
      (gt_read g = RNone \<longrightarrow> gt_reap g = CNone \<and> \<not> g_writesDone s) \<and>
      (\<not> g_connected s \<longrightarrow> (\<exists>audio. g_kept s audio)))"

lemma g_inv_start: "g_inv (g_start vad single)"
  using g_kept_start by (auto simp: g_inv_def g_start_def GStreamer_def)

lemma g_kept_cong:
  "g_audioBuffer s = g_audioBuffer t \<Longrightarrow> g_prebufStaging s = g_prebufStaging t \<Longrightarrow> g_kept s audio = g_kept t audio"
  by (simp add: g_kept_def split: option.split)

text \<open>A change of the stream that keeps its flags and at most writes audio.\<close>

definition g_audio_step :: "g_stream \<Rightarrow> g_stream \<Rightarrow> bool" where
  "g_audio_step s t \<longleftrightarrow> g_connected t = g_connected s \<and> g_writesDone t = g_writesDone s \<and>
     g_promise t = g_promise s \<and>
     (g_calls t = g_calls s \<or> \<not> g_writesDone s \<and> (\<exists>d. g_calls t = g_calls s @ [GWrite d]))"

lemma g_send_step: "g_audio_step s (snd (g_send ok d s))"
  by (auto simp: g_audio_step_def g_send_def g_call_def)

lemma g_inv_audio:
  assumes g: "g_inv g" and s: "g_audio_step (gt_stream g) s" and c: "g_connected s"
    and m: "gt_media g \<noteq> MConfig" "m \<noteq> MConfig" "m = MIdle \<or> gt_media g \<noteq> MIdle"
  shows "g_inv (g\<lparr>gt_stream := s, gt_media := m\<rparr>)"
proof -
  have c': "g_connected (gt_stream g)" using s c by (simp add: g_audio_step_def)
  then obtain cs where cs: "g_calls (gt_stream g) = GStart # cs"
    using g by (cases "g_calls (gt_stream g)") (auto simp: g_inv_def Let_def)
  show ?thesis
  proof (cases "g_calls s = g_calls (gt_stream g)")
    case True
    then show ?thesis using g s c m unfolding g_inv_def Let_def g_audio_step_def by auto
  next
    case False
    then obtain d where d: "g_calls s = GStart # cs @ [GWrite d]" "\<not> g_writesDone (gt_stream g)"
      using s cs by (auto simp: g_audio_step_def)
    have "proper (gt_vad g) False False False (cs @ [GWrite d])"
      using g d(2) cs c' m(1) by (auto simp: g_inv_def Let_def proper_snoc)
    then show ?thesis using g s c c' m cs d unfolding g_inv_def Let_def g_audio_step_def by auto
  qed
qed

lemma g_step_ok:
  assumes g: "g_inv g" and e: "g_enabled a g"
  shows "\<exists>g'. g_exec a g = Inr g' \<and> g_inv g'"
proof (cases a)
  case GConnect
  have "g_calls (gt_stream g) = []" "\<not> g_promise (gt_stream g)"
    using g e GConnect by (auto simp: g_inv_def Let_def)
  then show ?thesis using g e GConnect
    by (auto simp: g_inv_def Let_def g_connect_begin_def g_call_def)
next
  case GConfig
  then obtain cs where cs: "g_calls (gt_stream g) = GStart # cs"
    using g e by (cases "g_calls (gt_stream g)") (auto simp: g_inv_def Let_def)
  have "proper (gt_vad g) False False False (cs @ [GWriteConfig])"
    using g e GConfig cs by (auto simp: g_inv_def Let_def proper_snoc)
  then show ?thesis using g e GConfig cs
    by (auto simp: g_inv_def Let_def g_connect_config_def g_call_def)
next
  case (GDrain ok)
  have c: "g_connected (gt_stream g)" "gt_media g = MDrain" using g e GDrain by (auto simp: g_inv_def Let_def)
  obtain again s where d: "g_connect_drain ok (gt_stream g) = (again, s)" by fastforce
  have "g_audio_step (gt_stream g) s" using d
    by (auto simp: g_connect_drain_def g_audio_step_def g_send_def g_call_def split: option.splits prod.splits if_splits)
  then show ?thesis using g_inv_audio [OF g, of s "if again then MDrain else MFlush"] c d GDrain
    by (auto simp: g_audio_step_def)
next
  case (GFlush ok)
  have c: "g_connected (gt_stream g)" "gt_media g = MFlush" using g e GFlush by (auto simp: g_inv_def Let_def)
  have "g_audio_step (gt_stream g) (g_connect_flush ok (gt_stream g))"
    by (auto simp: g_connect_flush_def g_audio_step_def g_send_def g_call_def)
  then show ?thesis using g_inv_audio [OF g, of "g_connect_flush ok (gt_stream g)" MIdle] c GFlush
    by (auto simp: g_audio_step_def)
next
  case (GFrame ok data)
  have m: "gt_media g = MIdle" using e GFrame by simp
  show ?thesis
  proof (cases "g_connected (gt_stream g)")
    case True
    have same: "g\<lparr>gt_stream := s, gt_media := MIdle\<rparr> = g\<lparr>gt_stream := s\<rparr>" for s using m by (cases g) simp
    have "g_inv (g\<lparr>gt_stream := snd (g_send ok (map Some data) (gt_stream g))\<rparr>)"
      using g_inv_audio [OF g g_send_step, of ok "map Some data" MIdle] m True
      by (simp add: same g_send_def g_call_def split: if_splits)
    then show ?thesis using True GFrame by (auto simp: g_write_def split: prod.splits)
  next
    case False
    then obtain audio where "g_kept (gt_stream g) audio" using g by (auto simp: g_inv_def Let_def)
    from g_write_kept [OF this False, of ok data] obtain s where s: "g_write ok data (gt_stream g) = Inr (True, s)"
      "g_kept s (audio @ data)" "g_same (gt_stream g) s" by blast
    then have "g_inv (g\<lparr>gt_stream := s\<rparr>)" using g unfolding g_inv_def Let_def g_same_def by auto
    then show ?thesis using s(1) GFrame by simp
  qed
next
  case GThread
  then show ?thesis using g e by (auto simp: g_inv_def Let_def)
next
  case GWake
  then show ?thesis using g e by (auto simp: g_inv_def Let_def g_waitForConnect_def split: if_splits)
next
  case (GResponse eou)
  have c: "g_connected (gt_stream g)" using g e GResponse by (auto simp: g_inv_def Let_def)
  then obtain cs where cs: "g_calls (gt_stream g) = GStart # cs"
    using g by (cases "g_calls (gt_stream g)") (auto simp: g_inv_def Let_def)
  have "g_inv (g\<lparr>gt_stream := (g_call GWritesDone (gt_stream g))\<lparr>g_writesDone := True\<rparr>\<rparr>)" if "\<not> g_writesDone (gt_stream g)"
    using g e GResponse cs c that by (auto simp: g_inv_def Let_def g_call_def proper_snoc)
  then show ?thesis using GResponse g c by (auto simp: g_writes_done_def)
next
  case GStreamEnd
  have c: "g_connected (gt_stream g)" using g e GStreamEnd by (auto simp: g_inv_def Let_def)
  then obtain cs where cs: "g_calls (gt_stream g) = GStart # cs"
    using g by (cases "g_calls (gt_stream g)") (auto simp: g_inv_def Let_def)
  then show ?thesis using g e GStreamEnd c
    by (auto simp: g_inv_def Let_def g_finish_def g_call_def proper_snoc)
next
  case GReap
  then have r: "gt_reap g = CNone" "gt_media g = MIdle" "gt_read g \<noteq> RNone" using e by simp_all
  show ?thesis
  proof (cases "g_connected (gt_stream g)")
    case False
    then obtain audio where "g_kept (gt_stream g) audio" using g by (auto simp: g_inv_def Let_def)
    then have "\<exists>audio. g_kept ((gt_stream g)\<lparr>g_promise := True\<rparr>) audio"
      using g_kept_cong [of "gt_stream g" "(gt_stream g)\<lparr>g_promise := True\<rparr>"] by auto
    then show ?thesis using g r False GReap
      by (auto simp: g_inv_def Let_def g_writes_done_def g_cancelConnect_def)
  next
    case True
    then obtain cs where cs: "g_calls (gt_stream g) = GStart # cs"
      using g by (cases "g_calls (gt_stream g)") (auto simp: g_inv_def Let_def)
    show ?thesis using g r True cs GReap
      by (auto simp: g_inv_def Let_def g_writes_done_def g_call_def proper_snoc)
  qed
next
  case GJoined
  then show ?thesis using g e by (auto simp: g_inv_def Let_def)
qed

lemma g_reach_inv: "g_reach g \<Longrightarrow> g_inv g"
proof (induction rule: g_reach.induct)
  case (step g a g')
  then show ?case using g_step_ok [OF step.IH step.hyps(2)] by simp
qed (rule g_inv_start)

section \<open>Properties\<close>


text \<open>C31: with voice detection the configuration may be written to a stream that is already finished:
  \<open>connect\<close> releases the read thread before it writes the configuration, and this write, unlike every
  other, does not look at whether the write side is closed.\<close>

theorem g_config_after_finish:
  assumes "g_reach g" "gt_vad g" "gt_media g = MIdle" "gt_reap g = CNone" "gt_read g \<noteq> RNone"
    and "\<not> g_connected (gt_stream g)"
  shows "\<exists>g'. g_run [GConnect, GWake, GStreamEnd, GConfig] g = Some g' \<and>
    g_calls (gt_stream g') = [GStart, GFinish, GWriteConfig]"
proof -
  have "g_calls (gt_stream g) = []" "\<not> g_promise (gt_stream g)" "gt_read g = RWaiting"
    using g_reach_inv [OF assms(1)] assms(2-) by (cases "gt_read g"; auto simp: g_inv_def Let_def)+
  then show ?thesis using assms(2-)
    by (simp add: g_connect_begin_def g_call_def g_waitForConnect_def g_finish_def g_connect_config_def)
qed


section \<open>The properties on a concrete session\<close>

definition g_demo :: g_threads where
  "g_demo = (g_start True False)\<lparr>gt_read := RWaiting\<rparr>"

lemma g_demo_reach: "g_reach g_demo"
  using g_reach.step [OF g_reach.start [of True False], of GThread] by (simp add: g_demo_def g_start_def)


lemma g_config_after_finish_witness:
  "\<exists>g'. g_run [GConnect, GWake, GStreamEnd, GConfig] g_demo = Some g' \<and>
    g_calls (gt_stream g') = [GStart, GFinish, GWriteConfig]"
  using g_config_after_finish [OF g_demo_reach] by (simp add: g_demo_def g_start_def GStreamer_def)


end
