(* ===== verification/GReader.thy ===== *)
theory GReader
  imports GThreads
begin

text \<open>
  The gRPC read thread of mod_google_transcribe (\<open>grpc_read_thread\<close> of \<^verbatim>\<open>google_glue.cpp\<close>) and the
  events it fires, through \<open>responseHandler\<close> while the call is there and through
  \<open>google_fire_session_less\<close> when it is gone (\<^verbatim>\<open>mod_google_transcribe.c\<close>). cJSON's printing and parsing,
  protobuf's printing of a response, and floating point numbers are parameters.
\<close>

section \<open>Responses and JSON\<close>

datatype 'n json = JNull | JBool bool | JNum 'n | JStr string | JArr "'n json list" | JObj "(string \<times> 'n json) list"

text \<open>The parts of a response that the thread reads; \<open>'n\<close> is the type of floating point numbers.\<close>

record 'n word_info =
  wi_word :: string
  wi_start_time :: "int option"
  wi_end_time :: "int option"
  wi_speaker_tag :: int
  wi_confidence :: 'n

record 'n alternative =
  al_confidence :: 'n
  al_transcript :: string
  al_words :: "'n word_info list"

record 'n recognition_result =
  rr_stability :: 'n
  rr_is_final :: bool
  rr_language_code :: string
  rr_channel_tag :: int
  rr_seconds :: int
  rr_nanos :: int
  rr_alternatives :: "'n alternative list"

record 'n g_response =
  re_error :: "string option"
  re_results :: "'n recognition_result list"
  re_end_of_single_utterance :: bool

text \<open>The libraries: numbers from integers, the test \<open>> 0.0\<close>, the span of a result in milliseconds,
  cJSON's printer and parser (\<open>None\<close> is a null pointer), protobuf's JSON of a response.\<close>

record 'n g_lib =
  gl_num :: "int \<Rightarrow> 'n"
  gl_positive :: "'n \<Rightarrow> bool"
  gl_span :: "int \<Rightarrow> int \<Rightarrow> int"
  gl_print :: "'n json \<Rightarrow> string option"
  gl_parse :: "string \<Rightarrow> 'n json option"
  gl_response_json :: "'n g_response \<Rightarrow> string"

definition word_json :: "'n g_lib \<Rightarrow> 'n word_info \<Rightarrow> 'n json" where
  "word_json L w = JObj
     ([(''word'', JStr (wi_word w))]
      @ (case wi_start_time w of None \<Rightarrow> [] | Some t \<Rightarrow> [(''start_time'', JNum (gl_num L t))])
      @ (case wi_end_time w of None \<Rightarrow> [] | Some t \<Rightarrow> [(''end_time'', JNum (gl_num L t))])
      @ (if wi_speaker_tag w > 0 then [(''speaker_tag'', JNum (gl_num L (wi_speaker_tag w)))] else [])
      @ (if gl_positive L (wi_confidence w) then [(''confidence'', JNum (wi_confidence w))] else []))"

definition alternative_json :: "'n g_lib \<Rightarrow> 'n alternative \<Rightarrow> 'n json" where
  "alternative_json L a = JObj
     ([(''confidence'', JNum (al_confidence a)), (''transcript'', JStr (al_transcript a))]
      @ (if al_words a = [] then [] else [(''words'', JArr (map (word_json L) (al_words a)))]))"

definition result_json :: "'n g_lib \<Rightarrow> 'n g_response \<Rightarrow> 'n recognition_result \<Rightarrow> 'n json" where
  "result_json L re r = JObj
     ([(''stability'', JNum (rr_stability r)), (''is_final'', JBool (rr_is_final r)),
       (''alternatives'', JArr (map (alternative_json L) (rr_alternatives r))),
       (''language_code'', JStr (rr_language_code r)), (''channel_tag'', JNum (gl_num L (rr_channel_tag r))),
       (''result_end_time'', JNum (gl_num L (gl_span L (rr_seconds r) (rr_nanos r))))]
      @ (if gl_response_json L re = [] then []
         else case gl_parse L (gl_response_json L re) of None \<Rightarrow> [] | Some j \<Rightarrow> [(''provider_data'', j)]))"

definition error_json :: "string \<Rightarrow> 'n json" where
  "error_json msg = JObj [(''type'', JStr ''error''), (''error'', JStr msg)]"

section \<open>Events\<close>

datatype g_event = G_RESULTS | G_END_OF_UTTERANCE | G_START_OF_TRANSCRIPT | G_END_OF_TRANSCRIPT
  | G_NO_AUDIO_DETECTED | G_MAX_DURATION_EXCEEDED | G_PLAY_INTERRUPT | G_VAD_DETECTED | G_ERROR

text \<open>A fired event: whether it carries the channel's data, its call, subclass, body and bug name.\<close>

record g_fired =
  gf_channel_data :: bool
  gf_session :: string
  gf_subclass :: g_event
  gf_body :: "string option"
  gf_bugname :: string

definition g_marker :: "string \<Rightarrow> g_event option" where
  "g_marker m =
     (if m = ''vad_detected'' then Some G_VAD_DETECTED
      else if m = ''end_of_utterance'' then Some G_END_OF_UTTERANCE
      else if m = ''end_of_transcript'' then Some G_END_OF_TRANSCRIPT
      else if m = ''start_of_transcript'' then Some G_START_OF_TRANSCRIPT
      else if m = ''max_duration_exceeded'' then Some G_MAX_DURATION_EXCEEDED
      else if m = ''no_audio'' then Some G_NO_AUDIO_DETECTED
      else if m = ''play_interrupt'' then Some G_PLAY_INTERRUPT
      else None)"

text \<open>\<open>cJSON_GetObjectItem\<close> compares names without regard to case; \<open>cJSON_GetStringValue\<close> of anything but a
  string is null.\<close>

definition json_type :: "'n json \<Rightarrow> string option" where
  "json_type j = (case j of
     JObj kvs \<Rightarrow> (case find (\<lambda>(k, v). strcaseeq k ''type'') kvs of Some (_, JStr t) \<Rightarrow> Some t | _ \<Rightarrow> None)
   | _ \<Rightarrow> None)"

definition g_responseHandler :: "'n g_lib \<Rightarrow> string \<Rightarrow> string \<Rightarrow> string \<Rightarrow> g_fired" where
  "g_responseHandler L s json bugname =
     (case g_marker json of
        Some ev \<Rightarrow> \<lparr>gf_channel_data = True, gf_session = s, gf_subclass = ev, gf_body = None, gf_bugname = bugname\<rparr>
      | None \<Rightarrow> \<lparr>gf_channel_data = True, gf_session = s,
          gf_subclass = (case gl_parse L json of
              Some j \<Rightarrow> if json_type j = Some ''error'' then G_ERROR else G_RESULTS | None \<Rightarrow> G_RESULTS),
          gf_body = Some json, gf_bugname = bugname\<rparr>)"

definition google_fire_session_less :: "string \<Rightarrow> g_event \<Rightarrow> string \<Rightarrow> string \<Rightarrow> g_fired" where
  "google_fire_session_less s subclass json bugname =
     \<lparr>gf_channel_data = False, gf_session = s, gf_subclass = subclass, gf_body = Some json, gf_bugname = bugname\<rparr>"

text \<open>Either of the two, as the session is there or not.\<close>

definition g_fire :: "'n g_lib \<Rightarrow> bool \<Rightarrow> string \<Rightarrow> g_event \<Rightarrow> string \<Rightarrow> string \<Rightarrow> g_fired" where
  "g_fire L alive s subclass json bugname =
     (if alive then g_responseHandler L s json bugname else google_fire_session_less s subclass json bugname)"

definition g_fire_json :: "'n g_lib \<Rightarrow> bool \<Rightarrow> string \<Rightarrow> g_event \<Rightarrow> 'n json \<Rightarrow> string \<Rightarrow> g_fired list" where
  "g_fire_json L alive s subclass j bugname =
     (case gl_print L j of None \<Rightarrow> [] | Some json \<Rightarrow> [g_fire L alive s subclass json bugname])"

section \<open>The read thread\<close>

text \<open>One turn of the read loop.\<close>

definition g_response_events ::
  "'n g_lib \<Rightarrow> string \<Rightarrow> string \<Rightarrow> bool \<Rightarrow> bool \<Rightarrow> 'n g_response \<Rightarrow> g_fired list" where
  "g_response_events L s bugname play_file alive re =
     (case re_error re of None \<Rightarrow> [] | Some msg \<Rightarrow> g_fire_json L alive s G_ERROR (error_json msg) bugname)
     @ (if play_file \<and> alive then [g_responseHandler L s ''play_interrupt'' bugname] else [])
     @ concat (map (\<lambda>r. g_fire_json L alive s G_RESULTS (result_json L re r) bugname) (re_results re))
     @ (if re_end_of_single_utterance re
        then [g_fire L alive s G_END_OF_UTTERANCE ''end_of_utterance'' bugname] else [])"

text \<open>The status of \<open>Finish\<close>: its code (0 is OK), its message and whether the message says that the
  maximum duration was exceeded.\<close>

record g_status =
  st_code :: int
  st_message :: string
  st_max_duration :: bool

definition g_finish_events :: "'n g_lib \<Rightarrow> string \<Rightarrow> string \<Rightarrow> bool \<Rightarrow> g_status \<Rightarrow> g_fired list" where
  "g_finish_events L s bugname alive st =
     (if st_code st = 11 then
        (if st_max_duration st then [g_fire L alive s G_MAX_DURATION_EXCEEDED ''max_duration_exceeded'' bugname]
         else [g_fire L alive s G_NO_AUDIO_DETECTED ''no_audio'' bugname])
      else if st_code st \<noteq> 0 then g_fire_json L alive s G_ERROR (error_json (st_message st)) bugname
      else [])"

text \<open>What happens on a stream until it ends: the responses, each with whether the call was there, and
  the final status.\<close>

fun g_read_thread ::
  "'n g_lib \<Rightarrow> string \<Rightarrow> string \<Rightarrow> bool \<Rightarrow> (bool \<times> 'n g_response) list \<Rightarrow> bool \<Rightarrow> g_status \<Rightarrow> g_fired list" where
  "g_read_thread L s bugname play_file [] alive st = g_finish_events L s bugname alive st"
| "g_read_thread L s bugname play_file ((al, re) # res) alive st =
     g_response_events L s bugname play_file al re @ g_read_thread L s bugname play_file res alive st"

section \<open>Properties\<close>

text \<open>What cJSON promises of an object it has built: it prints as text that starts with a brace and
  parses back.\<close>

definition cjson_ok :: "'n g_lib \<Rightarrow> bool" where
  "cjson_ok L \<longleftrightarrow> (\<forall>kvs s. gl_print L (JObj kvs) = Some s \<longrightarrow> gl_parse L s = Some (JObj kvs) \<and> s \<noteq> [] \<and> hd s = CHR ''{'')"

lemma brace_no_marker:
  assumes "s \<noteq> []" "hd s = CHR ''{''"
  shows "g_marker s = None"
proof -
  obtain cs where "s = CHR ''{'' # cs" using assms by (cases s) simp_all
  then show ?thesis by (simp add: g_marker_def)
qed

lemma result_names:
  "\<not> strcaseeq ''stability'' ''type''" "\<not> strcaseeq ''is_final'' ''type''" "\<not> strcaseeq ''alternatives'' ''type''"
  "\<not> strcaseeq ''language_code'' ''type''" "\<not> strcaseeq ''channel_tag'' ''type''"
  "\<not> strcaseeq ''result_end_time'' ''type''" "\<not> strcaseeq ''provider_data'' ''type''"
  by code_simp+

lemma result_json_type: "json_type (result_json L re r) = None"
  by (simp add: json_type_def result_json_def result_names split: option.split)

lemma error_json_type: "json_type (error_json msg) = Some ''error''"
  by (simp add: json_type_def error_json_def strcaseeq_def)

lemma g_fire_json_subclass:
  assumes "cjson_ok L" "j = result_json L re r \<and> ev = G_RESULTS \<or> j = error_json msg \<and> ev = G_ERROR"
  shows "g_fire_json L alive s ev j bugname =
    (case gl_print L j of None \<Rightarrow> [] | Some json \<Rightarrow>
      [\<lparr>gf_channel_data = alive, gf_session = s, gf_subclass = ev, gf_body = Some json, gf_bugname = bugname\<rparr>])"
proof (cases "gl_print L j")
  case (Some json)
  obtain kvs where "j = JObj kvs" using assms(2) by (auto simp: result_json_def error_json_def)
  with assms(1) Some have "gl_parse L json = Some j" "g_marker json = None"
    unfolding cjson_ok_def using brace_no_marker by blast+
  moreover have "(json_type j = Some ''error'') = (ev = G_ERROR)" "ev = G_ERROR \<or> ev = G_RESULTS"
    using assms(2) result_json_type error_json_type by (auto simp: result_json_type error_json_type)
  ultimately show ?thesis using Some
    by (auto simp: g_fire_json_def g_fire_def g_responseHandler_def google_fire_session_less_def)
qed (simp add: g_fire_json_def)

text \<open>Everything of an event but the channel's data and the body of a marker.\<close>

definition g_core :: "g_fired \<Rightarrow> string \<times> g_event \<times> string" where
  "g_core f = (gf_session f, gf_subclass f, gf_bugname f)"

definition g_bodies :: "g_event \<Rightarrow> g_fired list \<Rightarrow> string option list" where
  "g_bodies ev fs = map gf_body (filter (\<lambda>f. gf_subclass f = ev) fs)"

definition g_printed :: "'n g_lib \<Rightarrow> 'n json \<Rightarrow> string option list" where
  "g_printed L j = (case gl_print L j of None \<Rightarrow> [] | Some s \<Rightarrow> [Some s])"

lemma g_bodies_append [simp]: "g_bodies ev (xs @ ys) = g_bodies ev xs @ g_bodies ev ys"
  by (simp add: g_bodies_def)

lemma g_bodies_Nil [simp]: "g_bodies ev [] = []"
  by (simp add: g_bodies_def)

lemma g_bodies_fire_json:
  assumes "cjson_ok L" "j = result_json L re r \<and> ev = G_RESULTS \<or> j = error_json msg \<and> ev = G_ERROR"
  shows "g_bodies ev' (g_fire_json L alive s ev j bugname) = (if ev' = ev then g_printed L j else [])"
  using g_fire_json_subclass [OF assms] by (auto simp: g_bodies_def g_printed_def split: option.splits)

lemma g_fire_marker:
  assumes "g_marker m = Some ev"
  shows "gf_subclass (g_fire L alive s ev m bugname) = ev"
  using assms by (simp add: g_fire_def g_responseHandler_def google_fire_session_less_def)

lemma g_bodies_marker:
  assumes "g_marker m = Some ev" "ev' \<noteq> ev"
  shows "g_bodies ev' [g_fire L alive s ev m bugname] = []"
  using g_fire_marker [OF assms(1), of L alive s bugname] assms(2) by (simp add: g_bodies_def)

lemma g_bodies_response:
  assumes "cjson_ok L"
  shows "g_bodies G_RESULTS (g_response_events L s bugname pf alive re)
      = concat (map (\<lambda>r. g_printed L (result_json L re r)) (re_results re))"
    and "g_bodies G_ERROR (g_response_events L s bugname pf alive re)
      = (case re_error re of None \<Rightarrow> [] | Some msg \<Rightarrow> g_printed L (error_json msg))"
proof -
  have r: "g_bodies ev (concat (map (\<lambda>r. g_fire_json L al s G_RESULTS (result_json L re r) bugname) rs))
      = (if ev = G_RESULTS then concat (map (\<lambda>r. g_printed L (result_json L re r)) rs) else [])" for rs ev al
    using g_bodies_fire_json [OF assms, of "result_json L re _" re _ G_RESULTS] by (induction rs) auto
  have e: "g_bodies ev (g_fire_json L al s G_ERROR (error_json msg) bugname)
      = (if ev = G_ERROR then g_printed L (error_json msg) else [])" for msg ev al
    using g_bodies_fire_json [OF assms, of "error_json msg" re undefined G_ERROR msg] by simp
  have m: "g_bodies ev [g_fire L al s G_END_OF_UTTERANCE ''end_of_utterance'' bugname] = []"
    if "ev \<noteq> G_END_OF_UTTERANCE" for ev al
    using that by (intro g_bodies_marker) (simp_all add: g_marker_def)
  have p: "g_bodies ev [g_responseHandler L s ''play_interrupt'' bugname] = []" if "ev \<noteq> G_PLAY_INTERRUPT" for ev
    using that by (simp add: g_bodies_def g_responseHandler_def g_marker_def)
  show "g_bodies G_RESULTS (g_response_events L s bugname pf alive re)
      = concat (map (\<lambda>r. g_printed L (result_json L re r)) (re_results re))"
    by (auto simp: g_response_events_def r e m p split: option.split)
  show "g_bodies G_ERROR (g_response_events L s bugname pf alive re)
      = (case re_error re of None \<Rightarrow> [] | Some msg \<Rightarrow> g_printed L (error_json msg))"
    by (auto simp: g_response_events_def r e m p split: option.split)
qed

lemma g_bodies_finish:
  assumes "cjson_ok L"
  shows "g_bodies G_RESULTS (g_finish_events L s bugname alive st) = []"
    and "g_bodies G_ERROR (g_finish_events L s bugname alive st)
      = (if st_code st \<noteq> 0 \<and> st_code st \<noteq> 11 then g_printed L (error_json (st_message st)) else [])"
proof -
  have e: "g_bodies ev (g_fire_json L alive s G_ERROR (error_json msg) bugname)
      = (if ev = G_ERROR then g_printed L (error_json msg) else [])" for msg ev
    using g_bodies_fire_json [OF assms, of "error_json msg" undefined undefined G_ERROR msg] by simp
  have m: "g_bodies ev [g_fire L alive s G_MAX_DURATION_EXCEEDED ''max_duration_exceeded'' bugname] = []"
    "g_bodies ev [g_fire L alive s G_NO_AUDIO_DETECTED ''no_audio'' bugname] = []"
    if "ev = G_RESULTS \<or> ev = G_ERROR" for ev
    using that by (auto intro!: g_bodies_marker simp: g_marker_def)
  show "g_bodies G_RESULTS (g_finish_events L s bugname alive st) = []"
    by (simp add: g_finish_events_def e m)
  show "g_bodies G_ERROR (g_finish_events L s bugname alive st)
      = (if st_code st \<noteq> 0 \<and> st_code st \<noteq> 11 then g_printed L (error_json (st_message st)) else [])"
    by (simp add: g_finish_events_def e m)
qed


text \<open>Without the call an event has the same call, subclass and bug name as with it, for every
  response, except that no interrupt is reported; but a marker has its word as body, where with the
  call it has none.\<close>

lemma g_session_less_same:
  assumes "cjson_ok L"
  shows "map g_core (g_response_events L s bugname False False re) = map g_core (g_response_events L s bugname False True re) \<and>
    map g_core (g_finish_events L s bugname False st) = map g_core (g_finish_events L s bugname True st) \<and>
    gf_body (g_fire L False s G_END_OF_UTTERANCE ''end_of_utterance'' bugname) = Some ''end_of_utterance'' \<and>
    gf_body (g_fire L True s G_END_OF_UTTERANCE ''end_of_utterance'' bugname) = None"
proof -
  have r: "map g_core (g_fire_json L False s G_RESULTS (result_json L re r) bugname) =
      map g_core (g_fire_json L True s G_RESULTS (result_json L re r) bugname)" for r
    using g_fire_json_subclass [OF assms, of "result_json L re r" re r G_RESULTS undefined]
    by (auto simp: g_core_def split: option.split)
  have e: "map g_core (g_fire_json L False s G_ERROR (error_json msg) bugname) =
      map g_core (g_fire_json L True s G_ERROR (error_json msg) bugname)" for msg
    using g_fire_json_subclass [OF assms, of "error_json msg" re undefined G_ERROR msg]
    by (auto simp: g_core_def split: option.split)
  have rs: "map g_core (concat (map (\<lambda>r. g_fire_json L False s G_RESULTS (result_json L re r) bugname) rs)) =
      map g_core (concat (map (\<lambda>r. g_fire_json L True s G_RESULTS (result_json L re r) bugname) rs))" for rs
    using r by (induction rs) simp_all
  have m: "g_core (g_fire L False s ev w bugname) = g_core (g_fire L True s ev w bugname)" if "g_marker w = Some ev" for ev w
    using that by (simp add: g_fire_def g_core_def g_responseHandler_def google_fire_session_less_def)
  have ms: "g_marker ''end_of_utterance'' = Some G_END_OF_UTTERANCE" "g_marker ''no_audio'' = Some G_NO_AUDIO_DETECTED"
    "g_marker ''max_duration_exceeded'' = Some G_MAX_DURATION_EXCEEDED"
    by (simp_all add: g_marker_def)
  show ?thesis
    using m [OF ms(1)] m [OF ms(2)] m [OF ms(3)] rs e ms(1)
    by (simp add: g_response_events_def g_finish_events_def g_fire_def [of _ False s G_END_OF_UTTERANCE]
        g_fire_def [of _ True s G_END_OF_UTTERANCE] g_responseHandler_def google_fire_session_less_def split: option.split)
qed

section \<open>A concrete library and stream\<close>

text \<open>Integers as numbers, and a printer that knows one error and one result.\<close>

definition demo_error :: "(string \<times> int json) list" where
  "demo_error = [(''type'', JStr ''error''), (''error'', JStr ''quota'')]"

definition demo_result :: "(string \<times> int json) list" where
  "demo_result = [(''stability'', JNum 0), (''is_final'', JBool True),
     (''alternatives'', JArr [JObj [(''confidence'', JNum 1), (''transcript'', JStr ''hello'')]]),
     (''language_code'', JStr ''en-us''), (''channel_tag'', JNum 0), (''result_end_time'', JNum 1500)]"

definition demo_lib :: "int g_lib" where
  "demo_lib = \<lparr>gl_num = \<lambda>i. i, gl_positive = \<lambda>i. i > 0, gl_span = \<lambda>sec nanos. sec * 1000 + nanos div 1000000,
     gl_print = \<lambda>j. (if j = JObj demo_error then Some ''{e}'' else if j = JObj demo_result then Some ''{r}'' else None),
     gl_parse = \<lambda>s. (if s = ''{e}'' then Some (JObj demo_error) else if s = ''{r}'' then Some (JObj demo_result) else None),
     gl_response_json = \<lambda>re. []\<rparr>"

definition demo_response :: "int g_response" where
  "demo_response = \<lparr>re_error = None, re_results =
     [\<lparr>rr_stability = 0, rr_is_final = True, rr_language_code = ''en-us'', rr_channel_tag = 0, rr_seconds = 1,
       rr_nanos = 500000000, rr_alternatives = [\<lparr>al_confidence = 1, al_transcript = ''hello'', al_words = []\<rparr>]\<rparr>],
     re_end_of_single_utterance = False\<rparr>"

lemma demo_lib_ok: "cjson_ok demo_lib"
  by (auto simp: cjson_ok_def demo_lib_def split: if_splits)

lemma demo_prints:
  "concat (map (\<lambda>r. g_printed demo_lib (result_json demo_lib demo_response r)) (re_results demo_response)) = [Some ''{r}'']"
  "re_error demo_response = None"
  "g_printed demo_lib (error_json ''quota'') = [Some ''{e}'']"
  by (simp_all add: g_printed_def demo_lib_def result_json_def demo_response_def demo_result_def demo_error_def
      alternative_json_def error_json_def)


end
