(* ===== verification/GGlue.thy ===== *)
theory GGlue
  imports GReader SimpleVad
begin

text \<open>
  The sessions of mod_google_transcribe: \<open>google_speech_session_init\<close>, \<open>reap_streamer\<close>,
  \<open>google_speech_session_cleanup\<close> and \<open>google_speech_frame\<close> of \<^verbatim>\<open>google_glue.cpp\<close>, and the starts, the stop
  and the media callback of \<^verbatim>\<open>mod_google_transcribe.c\<close>. The recogniser's constructor, the detector, the
  resampler and FreeSWITCH are parameters. The mutex of a session is held through a teardown, so a
  teardown is one step; what the read thread still receives during it is an argument.
\<close>

section \<open>State\<close>

text \<open>\<open>struct cap_cb\<close>. A thread handle is null once the thread is joined.\<close>

record ('r, 'v) g_cap =
  gc_sessionId :: string
  gc_bugname :: string
  gc_channels :: nat
  gc_single :: bool
  gc_eou :: bool
  gc_play_file :: bool
  gc_write_only :: bool
  gc_resampler :: "'r option"
  gc_vad :: "'v option"
  gc_streamer :: "g_stream option"
  gc_thread :: bool

text \<open>Blocks and bugs are in the pool of their session; a bug has its session, its user data and whether
  it is stereo, and may be on its channel or not. \<open>gg_running\<close> says whose read thread runs.\<close>

record ('r, 'v) g_glue =
  gg_cbs :: "ptr \<Rightarrow> ('r, 'v) g_cap option"
  gg_pool :: "ptr \<Rightarrow> string option"
  gg_bugs :: "ptr \<Rightarrow> (string \<times> ptr \<times> bool) option"
  gg_attached :: "ptr \<Rightarrow> bool"
  gg_private :: "string \<Rightarrow> string \<Rightarrow> ptr option"
  gg_sessions :: "string \<Rightarrow> bool"
  gg_running :: "ptr \<Rightarrow> bool"
  gg_active :: int
  gg_events :: "g_fired list"

definition g_cb :: "ptr \<Rightarrow> ('r, 'v) g_glue \<Rightarrow> ub + ('r, 'v) g_cap" where
  "g_cb a g = (case gg_cbs g a of None \<Rightarrow> Inl UseAfterFree | Some cb \<Rightarrow> Inr cb)"

definition g_set :: "ptr \<Rightarrow> ('r, 'v) g_cap \<Rightarrow> ('r, 'v) g_glue \<Rightarrow> ('r, 'v) g_glue" where
  "g_set a cb g = g\<lparr>gg_cbs := (gg_cbs g)(a := Some cb)\<rparr>"

definition g_emit :: "g_fired list \<Rightarrow> ('r, 'v) g_glue \<Rightarrow> ('r, 'v) g_glue" where
  "g_emit fs g = g\<lparr>gg_events := gg_events g @ fs\<rparr>"

section \<open>The read thread in its session\<close>

text \<open>One response. \<open>alive\<close> says whether the session is there.\<close>

definition g_thread_response ::
  "'n g_lib \<Rightarrow> ptr \<Rightarrow> bool \<Rightarrow> 'n g_response \<Rightarrow> ('r, 'v) g_glue \<Rightarrow> ub + ('r, 'v) g_glue" where
  "g_thread_response L a alive re g =
     andthen (g_cb a g) (\<lambda>cb.
       case gc_streamer cb of
         None \<Rightarrow> Inl UseAfterFree
       | Some st \<Rightarrow>
           let eou = re_end_of_single_utterance re;
               g1 = g_emit (g_response_events L (gc_sessionId cb) (gc_bugname cb) (gc_play_file cb) alive re) g
           in andthen (if eou \<and> gc_single cb then g_writes_done st else Inr st) (\<lambda>st1.
                Inr (g_set a (cb\<lparr>gc_eou := gc_eou cb \<or> eou, gc_streamer := Some st1\<rparr>) g1)))"

fun g_thread_responses ::
  "'n g_lib \<Rightarrow> ptr \<Rightarrow> (bool \<times> 'n g_response) list \<Rightarrow> ('r, 'v) g_glue \<Rightarrow> ub + ('r, 'v) g_glue" where
  "g_thread_responses L a [] g = Inr g"
| "g_thread_responses L a ((alive, re) # res) g =
     andthen (g_thread_response L a alive re g) (\<lambda>g1. g_thread_responses L a res g1)"

text \<open>The end of the stream: \<open>Finish\<close>, its report, and the thread returns.\<close>

definition g_thread_end ::
  "'n g_lib \<Rightarrow> ptr \<Rightarrow> bool \<Rightarrow> g_status \<Rightarrow> ('r, 'v) g_glue \<Rightarrow> ub + ('r, 'v) g_glue" where
  "g_thread_end L a alive st g =
     andthen (g_cb a g) (\<lambda>cb.
       case gc_streamer cb of
         None \<Rightarrow> Inl UseAfterFree
       | Some s \<Rightarrow> Inr ((g_set a (cb\<lparr>gc_streamer := Some (g_finish s)\<rparr>)
           (g_emit (g_finish_events L (gc_sessionId cb) (gc_bugname cb) alive st) g))
             \<lparr>gg_running := (gg_running g)(a := False)\<rparr>))"

text \<open>What the thread has before it: the rest of the responses and the final status.\<close>

record 'n g_tail =
  tl_responses :: "(bool \<times> 'n g_response) list"
  tl_alive :: bool
  tl_status :: g_status

text \<open>Joining: the thread runs to its end. It waits for the promise first, and leaves if the stream was
  never connected.\<close>

definition g_join :: "'n g_lib \<Rightarrow> ptr \<Rightarrow> 'n g_tail \<Rightarrow> ('r, 'v) g_glue \<Rightarrow> ub + ('r, 'v) g_glue" where
  "g_join L a t g =
     (if \<not> gg_running g a then Inr g
      else andthen (g_cb a g) (\<lambda>cb.
        case gc_streamer cb of
          None \<Rightarrow> Inl UseAfterFree
        | Some st \<Rightarrow> (case g_waitForConnect st of
            None \<Rightarrow> Inl Hang
          | Some False \<Rightarrow> Inr (g\<lparr>gg_running := (gg_running g)(a := False)\<rparr>)
          | Some True \<Rightarrow> andthen (g_thread_responses L a (tl_responses t) g) (\<lambda>g1.
              g_thread_end L a (tl_alive t) (tl_status t) g1))))"

definition reap_streamer :: "'n g_lib \<Rightarrow> ptr \<Rightarrow> 'n g_tail \<Rightarrow> ('r, 'v) g_glue \<Rightarrow> ub + ('r, 'v) g_glue" where
  "reap_streamer L a t g =
     andthen (g_cb a g) (\<lambda>cb.
     andthen (case gc_streamer cb of
         None \<Rightarrow> Inr g
       | Some st \<Rightarrow> andthen (g_writes_done st) (\<lambda>st1. Inr (g_set a (cb\<lparr>gc_streamer := Some st1\<rparr>) g))) (\<lambda>g1.
     andthen (if gc_thread cb then g_join L a t g1 else Inr g1) (\<lambda>g2.
     andthen (g_cb a g2) (\<lambda>cb2.
       Inr ((g_set a (cb2\<lparr>gc_resampler := None, gc_vad := None, gc_streamer := None, gc_thread := False\<rparr>) g2)
         \<lparr>gg_active := gg_active g2 - (if gc_streamer cb = None then 0 else 1)\<rparr>)))))"

definition google_speech_session_orphan_cleanup ::
  "'n g_lib \<Rightarrow> ptr \<Rightarrow> 'n g_tail \<Rightarrow> ('r, 'v) g_glue \<Rightarrow> ub + ('r, 'v) g_glue" where
  "google_speech_session_orphan_cleanup L a t g = reap_streamer L a t g"

section \<open>Cleaning up\<close>

text \<open>The part under the mutex; the answer is whether the private of that name was there. The private
  may be another bug's: it is asked for, not compared.\<close>

definition g_cleanup_locked ::
  "'n g_lib \<Rightarrow> string \<Rightarrow> ptr \<Rightarrow> 'n g_tail \<Rightarrow> ('r, 'v) g_glue \<Rightarrow> ub + bool \<times> ('r, 'v) g_glue" where
  "g_cleanup_locked L s bug t g =
     (case gg_bugs g bug of
        None \<Rightarrow> Inl UseAfterFree
      | Some (_, a, _) \<Rightarrow> andthen (g_cb a g) (\<lambda>cb.
          let found = (gg_private g s (gc_bugname cb) \<noteq> None);
              g1 = (if found then g\<lparr>gg_private := (gg_private g)(s := (gg_private g s)(gc_bugname cb := None))\<rparr> else g)
          in andthen (reap_streamer L a t g1) (\<lambda>g2. Inr (found, g2))))"

text \<open>CLOSE, for a bug that has been taken off its channel; and its removal, which fires CLOSE.\<close>

definition g_capture_close ::
  "'n g_lib \<Rightarrow> ptr \<Rightarrow> 'n g_tail \<Rightarrow> ('r, 'v) g_glue \<Rightarrow> ub + ('r, 'v) g_glue" where
  "g_capture_close L bug t g =
     (case gg_bugs g bug of
        None \<Rightarrow> Inl UseAfterFree
      | Some (s, a, _) \<Rightarrow> andthen (g_cb a g) (\<lambda>cb.
          andthen (g_cleanup_locked L s bug t
              (g_emit [g_responseHandler L s ''end_of_transcript'' (gc_bugname cb)] g)) (\<lambda>(_, g1). Inr g1)))"

definition g_bug_remove ::
  "'n g_lib \<Rightarrow> ptr \<Rightarrow> 'n g_tail \<Rightarrow> ('r, 'v) g_glue \<Rightarrow> ub + ('r, 'v) g_glue" where
  "g_bug_remove L bug t g =
     (if gg_attached g bug then g_capture_close L bug t (g\<lparr>gg_attached := (gg_attached g)(bug := False)\<rparr>)
      else Inr g)"

definition google_speech_session_cleanup ::
  "'n g_lib \<Rightarrow> string \<Rightarrow> bool \<Rightarrow> ptr option \<Rightarrow> 'n g_tail \<Rightarrow> ('r, 'v) g_glue
     \<Rightarrow> ub + switch_status \<times> ('r, 'v) g_glue" where
  "google_speech_session_cleanup L s channelIsClosing seen t g =
     (case seen of
        None \<Rightarrow> Inr (SWITCH_STATUS_FALSE, g)
      | Some bug \<Rightarrow> andthen (g_cleanup_locked L s bug t g) (\<lambda>(found, g1).
          if \<not> found then Inr (SWITCH_STATUS_FALSE, g1)
          else andthen (if channelIsClosing then Inr g1 else g_bug_remove L bug t g1) (\<lambda>g2.
            Inr (SWITCH_STATUS_SUCCESS, g2))))"

text \<open>Stop, with the bug it has read; without one it succeeds.\<close>

definition g_do_stop_seen ::
  "'n g_lib \<Rightarrow> string \<Rightarrow> ptr option \<Rightarrow> 'n g_tail \<Rightarrow> ('r, 'v) g_glue \<Rightarrow> ub + switch_status \<times> ('r, 'v) g_glue" where
  "g_do_stop_seen L s seen t g =
     (if seen = None then Inr (SWITCH_STATUS_SUCCESS, g) else google_speech_session_cleanup L s False seen t g)"

definition g_do_stop ::
  "'n g_lib \<Rightarrow> string \<Rightarrow> string \<Rightarrow> 'n g_tail \<Rightarrow> ('r, 'v) g_glue \<Rightarrow> ub + switch_status \<times> ('r, 'v) g_glue" where
  "g_do_stop L s bugname t g = g_do_stop_seen L s (gg_private g s bugname) t g"

section \<open>Starting\<close>

text \<open>What FreeSWITCH and the libraries answer during a start: the block, the rate of the read codec, the
  resampler and whether it reported no error, whether recognition waits for a voice, the detector,
  whether the recogniser's constructor returns, the writes on connecting, whether the thread starts,
  the codec and pre-answer checks, and the bug (\<open>None\<close> when it cannot be added).\<close>

record ('r, 'v) g_env =
  ge_cb :: ptr
  ge_codec :: "nat option"
  ge_resampler :: "nat \<Rightarrow> nat \<Rightarrow> nat \<Rightarrow> 'r option \<times> bool"
  ge_on_vad :: bool
  ge_vad :: "'v option"
  ge_streamer :: bool
  ge_write :: bool
  ge_thread :: bool
  ge_read_impl :: bool
  ge_pre_answer :: bool
  ge_added :: "ptr option"

record g_args =
  ga_to_rate :: nat
  ga_stereo :: bool
  ga_write_only :: bool
  ga_bugname :: string
  ga_single :: bool
  ga_play_file :: bool

definition MAX_SESSION_ID :: nat where "MAX_SESSION_ID = 256"

definition google_speech_session_init ::
  "('r, 'v) g_env \<Rightarrow> string \<Rightarrow> nat \<Rightarrow> g_args \<Rightarrow> ('r, 'v) g_glue
     \<Rightarrow> ub + (switch_status \<times> ptr option) \<times> ('r, 'v) g_glue" where
  "google_speech_session_init E s channels A g =
     (case ge_codec E of
        None \<Rightarrow> Inr ((SWITCH_STATUS_FALSE, None), g)
      | Some sampleRate \<Rightarrow>
          let a = ge_cb E;
              cb = \<lparr>gc_sessionId = take MAX_SESSION_ID s, gc_bugname = take MAX_BUG_LEN (ga_bugname A),
                gc_channels = channels, gc_single = ga_single A, gc_eou = False, gc_play_file = ga_play_file A,
                gc_write_only = False, gc_resampler = None, gc_vad = None, gc_streamer = None, gc_thread = False\<rparr>;
              g1 = g\<lparr>gg_pool := (gg_pool g)(a := Some s)\<rparr>;
              (resampler, ok) = (if sampleRate \<noteq> ga_to_rate A then ge_resampler E channels sampleRate (ga_to_rate A)
                else (None, True));
              failed = (\<lambda>cb. Inr ((SWITCH_STATUS_FALSE, None), g_set a cb g1));
              cb1 = cb\<lparr>gc_resampler := resampler\<rparr>
          in if \<not> ok then failed (cb1\<lparr>gc_resampler := None\<rparr>)
             else if ge_on_vad E \<and> ge_vad E = None then failed (cb1\<lparr>gc_resampler := None\<rparr>)
             else
               let cb2 = cb1\<lparr>gc_vad := (if ge_on_vad E then ge_vad E else None)\<rparr>
               in if \<not> ge_streamer E then failed (cb2\<lparr>gc_resampler := None, gc_vad := None\<rparr>)
                  else andthen (if gc_vad cb2 = None then g_connect (ge_write E) GStreamer else Inr GStreamer) (\<lambda>st.
                    let cb3 = cb2\<lparr>gc_streamer := Some st\<rparr>
                    in if \<not> ge_thread E
                       then failed (cb3\<lparr>gc_resampler := None, gc_vad := None, gc_streamer := None\<rparr>)
                       else Inr ((SWITCH_STATUS_SUCCESS, Some a),
                         (g_set a (cb3\<lparr>gc_thread := True\<rparr>) g1)
                           \<lparr>gg_running := (gg_running g1)(a := True), gg_active := gg_active g1 + 1\<rparr>)))"

text \<open>A start after the old capture of that name has been stopped: \<open>start_capture\<close> and \<open>start_capture2\<close>
  have this in common. INIT is fired while the bug is added.\<close>

definition g_start_rest ::
  "'n g_lib \<Rightarrow> ('r, 'v) g_env \<Rightarrow> string \<Rightarrow> g_args \<Rightarrow> 'n g_tail \<Rightarrow> ('r, 'v) g_glue
     \<Rightarrow> ub + switch_status \<times> ('r, 'v) g_glue" where
  "g_start_rest L E s A t g =
     (if \<not> ge_read_impl E then Inr (SWITCH_STATUS_FALSE, g)
      else if \<not> ge_pre_answer E then Inr (SWITCH_STATUS_FALSE, g)
      else andthen (google_speech_session_init E s (if ga_stereo A \<and> \<not> ga_write_only A then 2 else 1) A g)
        (\<lambda>((status, ud), g1).
          case ud of
            None \<Rightarrow> Inr (SWITCH_STATUS_FALSE, g1)
          | Some a \<Rightarrow>
              andthen (g_cb a g1) (\<lambda>cb.
              let g2 = g_set a (cb\<lparr>gc_write_only := ga_write_only A\<rparr>) g1
              in case ge_added E of
                   None \<Rightarrow> andthen (google_speech_session_orphan_cleanup L a t g2) (\<lambda>g3.
                     Inr (SWITCH_STATUS_FALSE, g3))
                 | Some bug \<Rightarrow> Inr (SWITCH_STATUS_SUCCESS,
                     (g_emit [g_responseHandler L s ''start_of_transcript'' (gc_bugname cb)] g2)
                       \<lparr>gg_bugs := (gg_bugs g2)(bug := Some (s, a, ga_stereo A)),
                        gg_attached := (gg_attached g2)(bug := True),
                        gg_private := (gg_private g2)(s := (gg_private g2 s)(ga_bugname A := Some bug))\<rparr>))))"

definition g_start_capture2 ::
  "'n g_lib \<Rightarrow> ('r, 'v) g_env \<Rightarrow> string \<Rightarrow> g_args \<Rightarrow> 'n g_tail \<Rightarrow> ('r, 'v) g_glue
     \<Rightarrow> ub + switch_status \<times> ('r, 'v) g_glue" where
  "g_start_capture2 L E s A t g =
     andthen (if gg_private g s (ga_bugname A) \<noteq> None then g_do_stop L s (ga_bugname A) t g
         else Inr (SWITCH_STATUS_SUCCESS, g)) (\<lambda>(_, g1).
       g_start_rest L E s A t g1)"

definition g_start_capture ::
  "'n g_lib \<Rightarrow> ('r, 'v) g_env \<Rightarrow> string \<Rightarrow> g_args \<Rightarrow> 'n g_tail \<Rightarrow> ('r, 'v) g_glue
     \<Rightarrow> ub + switch_status \<times> ('r, 'v) g_glue" where
  "g_start_capture L E s A t g =
     (if length (ga_bugname A) > MAX_BUG_LEN then Inr (SWITCH_STATUS_FALSE, g)
      else andthen (if gg_private g s (ga_bugname A) \<noteq> None then g_do_stop L s (ga_bugname A) t g
          else Inr (SWITCH_STATUS_SUCCESS, g)) (\<lambda>(_, g1).
        g_start_rest L E s A t g1))"

section \<open>The media callback\<close>

text \<open>A frame as \<open>switch_core_media_bug_read\<close> leaves it: the whole buffer, the bytes of it in use, the
  samples per channel, the channels, and the answer of the write it leads to.\<close>

record g_frame_in =
  gf_data :: "u8 list"
  gf_datalen :: nat
  gf_samples :: nat
  gf_channels :: nat
  gf_ok :: bool

definition SWITCH_RECOMMENDED_BUFFER_SIZE :: nat where "SWITCH_RECOMMENDED_BUFFER_SIZE = 8192"
definition MEDIA_BUG_FRAME_BUF_SIZE :: nat where "MEDIA_BUG_FRAME_BUF_SIZE = 2 * SWITCH_RECOMMENDED_BUFFER_SIZE"

text \<open>The second channel of a frame of two: sample \<open>2 * i + 1\<close> of 16 bits each.\<close>

definition g_write_side :: "g_frame_in \<Rightarrow> ub + u8 list" where
  "g_write_side f =
     (let n = min (gf_samples f) SWITCH_RECOMMENDED_BUFFER_SIZE
      in if 4 * n > length (gf_data f) then Inl OutOfBounds
         else Inr (concat (map (\<lambda>i. take 2 (drop (2 * (2 * i + 1)) (gf_data f))) [0..<n])))"

definition g_frame_step ::
  "'n g_lib \<Rightarrow> ('v \<Rightarrow> u8 list \<Rightarrow> nat \<Rightarrow> vad_state \<times> 'v) \<Rightarrow> ('r \<Rightarrow> u8 list \<Rightarrow> nat \<Rightarrow> u8 list \<times> 'r)
     \<Rightarrow> string \<Rightarrow> g_frame_in \<Rightarrow> ('r, 'v) g_cap \<times> g_stream \<times> g_fired list
     \<Rightarrow> ub + ('r, 'v) g_cap \<times> g_stream \<times> g_fired list" where
  "g_frame_step L process resample s f acc =
     (case acc of (cb, st, evs) \<Rightarrow>
      if gf_datalen f = 0 then Inr (cb, st, evs)
      else andthen (if gc_write_only cb \<and> gf_channels f = 2 then g_write_side f
          else Inr (take (gf_datalen f) (gf_data f))) (\<lambda>pcm.
        andthen (case gc_vad cb of
            None \<Rightarrow> Inr (cb, st, evs)
          | Some v \<Rightarrow>
              if g_connected st then Inr (cb, st, evs)
              else (case process v pcm (gf_samples f) of (state, v1) \<Rightarrow>
                if state = VAD_START_TALKING
                then andthen (g_connect (gf_ok f) st) (\<lambda>st1.
                  Inr (cb\<lparr>gc_vad := Some v1\<rparr>, st1, evs @ [g_responseHandler L s ''vad_detected'' (gc_bugname cb)]))
                else Inr (cb\<lparr>gc_vad := Some v1\<rparr>, st, evs))) (\<lambda>(cb1, st1, evs1).
          case gc_resampler cb1 of
            None \<Rightarrow> andthen (g_write (gf_ok f) pcm st1) (\<lambda>(_, st2). Inr (cb1, st2, evs1))
          | Some r \<Rightarrow>
              if gc_channels cb1 = 0 then Inl DivByZero
              else (case resample r pcm (SWITCH_RECOMMENDED_BUFFER_SIZE div gc_channels cb1) of (out, r1) \<Rightarrow>
                andthen (g_write (gf_ok f) out st1) (\<lambda>(_, st2). Inr (cb1\<lparr>gc_resampler := Some r1\<rparr>, st2, evs1))))))"

fun g_frame_loop ::
  "'n g_lib \<Rightarrow> ('v \<Rightarrow> u8 list \<Rightarrow> nat \<Rightarrow> vad_state \<times> 'v) \<Rightarrow> ('r \<Rightarrow> u8 list \<Rightarrow> nat \<Rightarrow> u8 list \<times> 'r)
     \<Rightarrow> string \<Rightarrow> g_frame_in list \<Rightarrow> ('r, 'v) g_cap \<times> g_stream \<times> g_fired list
     \<Rightarrow> ub + ('r, 'v) g_cap \<times> g_stream \<times> g_fired list" where
  "g_frame_loop L process resample s [] acc = Inr acc"
| "g_frame_loop L process resample s (f # fs) acc =
     andthen (g_frame_step L process resample s f acc) (\<lambda>acc1. g_frame_loop L process resample s fs acc1)"

text \<open>\<open>locked\<close> is the answer of \<open>trylock\<close>; \<open>read\<close> gives the frames the bug has, for the answer it is asked
  to give when a side is missing.\<close>

definition google_speech_frame ::
  "'n g_lib \<Rightarrow> ('v \<Rightarrow> u8 list \<Rightarrow> nat \<Rightarrow> vad_state \<times> 'v) \<Rightarrow> ('r \<Rightarrow> u8 list \<Rightarrow> nat \<Rightarrow> u8 list \<times> 'r)
     \<Rightarrow> ptr \<Rightarrow> bool \<Rightarrow> (bool \<Rightarrow> g_frame_in list) \<Rightarrow> ('r, 'v) g_glue \<Rightarrow> ub + ('r, 'v) g_glue" where
  "google_speech_frame L process resample bug locked read g =
     (case gg_bugs g bug of
        None \<Rightarrow> Inl UseAfterFree
      | Some (s, a, stereo) \<Rightarrow> andthen (g_cb a g) (\<lambda>cb.
          case gc_streamer cb of
            None \<Rightarrow> Inr g
          | Some st \<Rightarrow>
              if gc_single cb \<and> gc_eou cb \<or> \<not> locked then Inr g
              else andthen (g_frame_loop L process resample s (read (\<not> stereo)) (cb, st, [])) (\<lambda>(cb1, st1, evs).
                Inr (g_emit evs (g_set a (cb1\<lparr>gc_streamer := Some st1\<rparr>) g)))))"

end
