(* ===== verification/GApi.thy ===== *)
theory GApi
  imports GGlue
begin

text \<open>
  The commands \<open>uuid_google_transcribe\<close> and \<open>uuid_google_transcribe2\<close>, and the loading and unloading of the
  module (\<^verbatim>\<open>mod_google_transcribe.c\<close>).
\<close>

section \<open>The commands\<close>

definition GOOGLE_BUG_NAME :: string where "GOOGLE_BUG_NAME = ''google_transcribe''"
definition DEFAULT_SAMPLE_RATE :: nat where "DEFAULT_SAMPLE_RATE = 8000"

text \<open>The last optional argument: a name for the bug.\<close>

definition transcribe_args :: "bool \<Rightarrow> string list \<Rightarrow> g_args" where
  "transcribe_args single argv =
     (let mode = (if length argv > 4 then argv ! 4 else []) in
      \<lparr>ga_to_rate = DEFAULT_SAMPLE_RATE, ga_stereo = (mode = ''stereo'' \<or> mode = ''write''),
       ga_write_only = (mode = ''write''),
       ga_bugname = (if length argv > 5 then argv ! 5 else GOOGLE_BUG_NAME),
       ga_single = single, ga_play_file = False\<rparr>)"

text \<open>\<open>single\<close> is the channel variable \<^verbatim>\<open>GOOGLE_SPEECH_SINGLE_UTTERANCE\<close>.\<close>

definition transcribe_function ::
  "'n g_lib \<Rightarrow> (string \<Rightarrow> string list) \<Rightarrow> ('r, 'v) g_env \<Rightarrow> bool \<Rightarrow> 'n g_tail \<Rightarrow> string option
     \<Rightarrow> ('r, 'v) g_glue \<Rightarrow> ub + api_reply \<times> ('r, 'v) g_glue" where
  "transcribe_function L separate E single t cmd g =
     (let argv = (case cmd of None \<Rightarrow> [] | Some c \<Rightarrow> if c = [] then [] else separate c);
          replying = (\<lambda>r. andthen r (\<lambda>(status, g1). Inr (reply_of status, g1)))
      in if cmd = None \<or> cmd = Some [] \<or> length argv < 2 \<or> strcaseeq (argv ! 1) ''start'' \<and> length argv < 3 \<or>
            argv ! 0 = []
         then Inr (Usage, g)
         else let s = argv ! 0 in
           if \<not> gg_sessions g s then Inr (ErrFailed, g)
           else if strcaseeq (argv ! 1) ''stop'' then
             replying (g_do_stop L s (if length argv > 2 then argv ! 2 else GOOGLE_BUG_NAME) t g)
           else if strcaseeq (argv ! 1) ''start'' then
             replying (g_start_capture L E s (transcribe_args single argv) t g)
           else Inr (ErrFailed, g))"

text \<open>The second command: \<open>None\<close> is a sample rate out of bounds; \<open>atol\<close>'s answer is cut to 32 bits.\<close>

definition transcribe2_args :: "(string \<Rightarrow> int) \<Rightarrow> string list \<Rightarrow> ub + g_args option" where
  "transcribe2_args atol argv =
     andthen (argv_at argv 4) (\<lambda>single.
     andthen (argv_at argv 9) (\<lambda>_.
       let rate = (if length argv > 10 then (word_of_int (atol (argv ! 10)) :: u32) else of_nat DEFAULT_SAMPLE_RATE)
       in if length argv > 10 \<and> (rate < 4000 \<or> rate > 48000) then Inr None
          else Inr (Some \<lparr>ga_to_rate = unat rate, ga_stereo = False, ga_write_only = False,
            ga_bugname = GOOGLE_BUG_NAME, ga_single = (single = ''true''), ga_play_file = (length argv > 14)\<rparr>)))"

definition transcribe2_function ::
  "'n g_lib \<Rightarrow> (string \<Rightarrow> int) \<Rightarrow> (string \<Rightarrow> string list) \<Rightarrow> ('r, 'v) g_env \<Rightarrow> 'n g_tail \<Rightarrow> string option
     \<Rightarrow> ('r, 'v) g_glue \<Rightarrow> ub + api_reply \<times> ('r, 'v) g_glue" where
  "transcribe2_function L atol separate E t cmd g =
     (let argv = (case cmd of None \<Rightarrow> [] | Some c \<Rightarrow> if c = [] then [] else separate c);
          replying = (\<lambda>r. andthen r (\<lambda>(status, g1). Inr (reply_of status, g1)))
      in if cmd = None \<or> cmd = Some [] \<or> length argv < 2 \<or> strcaseeq (argv ! 1) ''start'' \<and> length argv < 10 \<or>
            argv ! 0 = []
         then Inr (Usage, g)
         else let s = argv ! 0 in
           if \<not> gg_sessions g s then Inr (ErrFailed, g)
           else if strcaseeq (argv ! 1) ''stop'' then replying (g_do_stop L s GOOGLE_BUG_NAME t g)
           else if strcaseeq (argv ! 1) ''start'' then
             andthen (transcribe2_args atol argv) (\<lambda>q. case q of
                 None \<Rightarrow> Inr (NoReply, g)
               | Some A \<Rightarrow> replying (g_start_capture2 L E s A t g))
           else Inr (ErrFailed, g))"

section \<open>Loading and unloading\<close>

definition g_subclasses :: "g_event list" where
  "g_subclasses = [G_RESULTS, G_END_OF_UTTERANCE, G_START_OF_TRANSCRIPT, G_END_OF_TRANSCRIPT,
     G_NO_AUDIO_DETECTED, G_MAX_DURATION_EXCEEDED, G_PLAY_INTERRUPT, G_VAD_DETECTED, G_ERROR]"

text \<open>FreeSWITCH's table of reserved names, the names this module has reserved, and the answer of a
  reservation: a name that is taken is in use; \<open>room\<close> says whether a free one can be reserved.\<close>

record g_reserved =
  rv_table :: "g_event set"
  rv_owned :: "g_event set"

fun g_release :: "g_event list \<Rightarrow> g_reserved \<Rightarrow> g_reserved" where
  "g_release [] v = v"
| "g_release (x # xs) v = g_release xs
     (if x \<in> rv_owned v then \<lparr>rv_table = rv_table v - {x}, rv_owned = rv_owned v - {x}\<rparr> else v)"

text \<open>\<open>don\<close> are the names already handled, the last first.\<close>

fun g_reserve :: "(g_event \<Rightarrow> bool) \<Rightarrow> g_event list \<Rightarrow> g_event list \<Rightarrow> g_reserved \<Rightarrow> bool \<times> g_reserved" where
  "g_reserve room don [] v = (True, v)"
| "g_reserve room don (x # xs) v =
     (if x \<in> rv_table v then g_reserve room (x # don) xs (v\<lparr>rv_owned := rv_owned v - {x}\<rparr>)
      else if \<not> room x then (False, g_release don v)
      else g_reserve room (x # don) xs \<lparr>rv_table = insert x (rv_table v), rv_owned = insert x (rv_owned v)\<rparr>)"

definition mod_google_transcribe_load :: "(g_event \<Rightarrow> bool) \<Rightarrow> g_reserved \<Rightarrow> switch_status \<times> g_reserved" where
  "mod_google_transcribe_load room v =
     (case g_reserve room [] g_subclasses v of
        (ok, v1) \<Rightarrow> (if ok then SWITCH_STATUS_SUCCESS else SWITCH_STATUS_TERM, v1))"

definition google_speech_sessions_active :: "('r, 'v) g_glue \<Rightarrow> int" where
  "google_speech_sessions_active g = gg_active g"

definition mod_google_transcribe_shutdown ::
  "('r, 'v) g_glue \<Rightarrow> g_reserved \<Rightarrow> switch_status \<times> g_reserved" where
  "mod_google_transcribe_shutdown g v =
     (if google_speech_sessions_active g > 0 then (SWITCH_STATUS_FALSE, v)
      else (SWITCH_STATUS_SUCCESS, g_release g_subclasses v))"

section \<open>Reservations\<close>

lemma g_release_set:
  "g_release xs v = \<lparr>rv_table = rv_table v - (rv_owned v \<inter> set xs), rv_owned = rv_owned v - set xs\<rparr>"
  by (induction xs arbitrary: v) (auto intro!: g_reserved.equality)

lemma g_reserve_spec:
  assumes "rv_owned v = {}" "rv_table v1 = rv_table v \<union> set don" "rv_owned v1 = set don - rv_table v"
    "distinct (rev don @ xs)" "g_reserve room don xs v1 = (ok, v2)"
  shows "if ok then rv_table v2 = rv_table v \<union> (set don \<union> set xs) \<and> rv_owned v2 = (set don \<union> set xs) - rv_table v
    else v2 = v"
  using assms(2-)
proof (induction room don xs v1 rule: g_reserve.induct)
  case (1 room don v1)
  then show ?case by simp
next
  case (2 room don x xs v1)
  have x: "x \<notin> set don" "distinct (rev (x # don) @ xs)" using "2.prems"(3) by auto
  have e: "set (x # don) \<union> set xs = set don \<union> set (x # xs)" by auto
  consider "x \<in> rv_table v1" | "x \<notin> rv_table v1" "room x" | "x \<notin> rv_table v1" "\<not> room x" by blast
  then show ?case
  proof cases
    case 1
    then have "x \<in> rv_table v" using "2.prems"(1) x(1) by simp
    then show ?thesis using "2.IH"(1) [OF 1] "2.prems" 1 x by (simp only: e) (simp add: insert_absorb Diff_insert0 insert_Diff_if)
  next
    case 2
    then have "x \<notin> rv_table v" using "2.prems"(1) by simp
    then show ?thesis using "2.IH"(2) [OF 2(1)] 2 "2.prems" x by (simp only: e) (simp add: insert_Diff_if)
  next
    case 3
    then have "v2 = g_release don v1" "\<not> ok" using "2.prems"(4) by simp_all
    then show ?thesis using "2.prems"(1,2) assms(1) by (auto simp: g_release_set intro!: g_reserved.equality)
  qed
qed

text \<open>C34: a failed load leaves FreeSWITCH's table of names as it was; after a load the names are reserved,
  and the unload after it is refused while a session is active, and otherwise gives the table back as it
  was, whichever names a sibling module had reserved.\<close>

theorem g_load_unload:
  assumes "rv_owned v = {}" "mod_google_transcribe_load room v = (status, v1)"
  shows "if status \<noteq> SWITCH_STATUS_SUCCESS then v1 = v
    else rv_table v1 = rv_table v \<union> set g_subclasses \<and>
      mod_google_transcribe_shutdown g v1 =
        (if google_speech_sessions_active g > 0 then (SWITCH_STATUS_FALSE, v1) else (SWITCH_STATUS_SUCCESS, v))"
proof -
  obtain ok where l: "g_reserve room [] g_subclasses v = (ok, v1)"
    "status = (if ok then SWITCH_STATUS_SUCCESS else SWITCH_STATUS_TERM)"
    using assms(2) by (auto simp: mod_google_transcribe_load_def split: prod.splits)
  have "distinct g_subclasses" by (simp add: g_subclasses_def)
  with g_reserve_spec [OF assms(1) _ _ _ l(1)] assms(1)
  have s: "if ok then rv_table v1 = rv_table v \<union> set g_subclasses \<and> rv_owned v1 = set g_subclasses - rv_table v
    else v1 = v" by simp
  moreover have "g_release g_subclasses v1 = v" if ok
    using s that assms(1) by (auto simp: g_release_set intro!: g_reserved.equality)
  ultimately show ?thesis using l(2) by (auto simp: mod_google_transcribe_shutdown_def)
qed

lemma g_load_unload_witness:
  fixes g :: "(unit, unit) g_glue"
  shows "rv_table (snd (mod_google_transcribe_load (\<lambda>_. True) \<lparr>rv_table = {G_ERROR}, rv_owned = {}\<rparr>))
    = {G_ERROR} \<union> set g_subclasses"
  using g_load_unload [of "\<lparr>rv_table = {G_ERROR}, rv_owned = {}\<rparr>" "\<lambda>_. True"
      "fst (mod_google_transcribe_load (\<lambda>_. True) \<lparr>rv_table = {G_ERROR}, rv_owned = {}\<rparr>)"
      "snd (mod_google_transcribe_load (\<lambda>_. True) \<lparr>rv_table = {G_ERROR}, rv_owned = {}\<rparr>)"
      "undefined :: (unit, unit) g_glue"]
  by (auto simp: mod_google_transcribe_load_def g_subclasses_def)

end
