(* ===== verification/GSafe.thy ===== *)
theory GSafe
  imports GApi
begin

text \<open>
  All sessions of mod_google_transcribe as a transition system, and its invariant: blocks that are used
  are allocated, a stream that lives has its bug on the channel, and the number of active sessions is
  the number of streams. A start may be in two parts, so that two starts under one name can race; a stop
  may have read its bug at any earlier time.
\<close>

section \<open>Transitions\<close>

datatype ('n, 'r, 'v) gs_action =
    GSStart "('r, 'v) g_env" string g_args "'n g_tail"
  | GSRest "('r, 'v) g_env" string g_args "'n g_tail"
  | GSStop string "ptr option" "'n g_tail"
  | GSFrame ptr bool "bool \<Rightarrow> g_frame_in list"
  | GSClose ptr "'n g_tail"
  | GSResponse ptr bool "'n g_response"
  | GSStreamEnd ptr bool g_status
  | GSHangup string
  | GSDestroy string

text \<open>The pool of a session is freed with everything in it.\<close>

definition gs_destroy :: "string \<Rightarrow> ('r, 'v) g_glue \<Rightarrow> ('r, 'v) g_glue" where
  "gs_destroy s g = g\<lparr>
     gg_cbs := (\<lambda>a. if gg_pool g a = Some s then None else gg_cbs g a),
     gg_bugs := (\<lambda>b. case gg_bugs g b of Some (s', _) \<Rightarrow> if s' = s then None else gg_bugs g b | None \<Rightarrow> None),
     gg_private := (gg_private g)(s := (\<lambda>_. None))\<rparr>"

text \<open>The library parameters of a run: cJSON and protobuf, the detector, the resampler.\<close>

fun gs_exec ::
  "'n g_lib \<Rightarrow> ('v \<Rightarrow> u8 list \<Rightarrow> nat \<Rightarrow> vad_state \<times> 'v) \<Rightarrow> ('r \<Rightarrow> u8 list \<Rightarrow> nat \<Rightarrow> u8 list \<times> 'r)
     \<Rightarrow> ('n, 'r, 'v) gs_action \<Rightarrow> ('r, 'v) g_glue \<Rightarrow> ub + ('r, 'v) g_glue" where
  "gs_exec L p r (GSStart E s A t) g = andthen (g_start_capture L E s A t g) (\<lambda>(_, g1). Inr g1)"
| "gs_exec L p r (GSRest E s A t) g = andthen (g_start_rest L E s A t g) (\<lambda>(_, g1). Inr g1)"
| "gs_exec L p r (GSStop s seen t) g = andthen (g_do_stop_seen L s seen t g) (\<lambda>(_, g1). Inr g1)"
| "gs_exec L p r (GSFrame bug locked read) g = google_speech_frame L p r bug locked read g"
| "gs_exec L p r (GSClose bug t) g =
     g_capture_close L bug t (g\<lparr>gg_attached := (gg_attached g)(bug := False)\<rparr>)"
| "gs_exec L p r (GSResponse a alive re) g = g_thread_response L a alive re g"
| "gs_exec L p r (GSStreamEnd a alive st) g = g_thread_end L a alive st g"
| "gs_exec L p r (GSHangup s) g = Inr (g\<lparr>gg_sessions := (gg_sessions g)(s := False)\<rparr>)"
| "gs_exec L p r (GSDestroy s) g = Inr (gs_destroy s g)"

text \<open>What FreeSWITCH documents of a frame it has read.\<close>

definition gf_ok_frame :: "g_frame_in \<Rightarrow> bool" where
  "gf_ok_frame f \<longleftrightarrow> length (gf_data f) = MEDIA_BUG_FRAME_BUF_SIZE \<and> gf_datalen f \<le> MEDIA_BUG_FRAME_BUF_SIZE \<and>
     gf_datalen f = 2 * gf_channels f * gf_samples f"

text \<open>A start gets a fresh block and a fresh bug on a call that is there; a bug that is read or closed was
  that of a capture; the thread acts when it has left \<open>waitForConnect\<close>; a session is destroyed when
  its bugs are off the channel.\<close>

fun gs_enabled :: "('n, 'r, 'v) gs_action \<Rightarrow> ('r, 'v) g_glue \<Rightarrow> bool" where
  "gs_enabled (GSStart E s A t) g \<longleftrightarrow> gg_sessions g s \<and> gg_cbs g (ge_cb E) = None \<and>
     (case ge_added E of None \<Rightarrow> True | Some bug \<Rightarrow> gg_bugs g bug = None)"
| "gs_enabled (GSRest E s A t) g \<longleftrightarrow> gg_sessions g s \<and> gg_cbs g (ge_cb E) = None \<and>
     (case ge_added E of None \<Rightarrow> True | Some bug \<Rightarrow> gg_bugs g bug = None)"
| "gs_enabled (GSStop s seen t) g \<longleftrightarrow> (case seen of None \<Rightarrow> True | Some bug \<Rightarrow> \<exists>a x. gg_bugs g bug = Some (s, a, x))"
| "gs_enabled (GSFrame bug locked read) g \<longleftrightarrow> gg_attached g bug \<and> (\<forall>fill. list_all gf_ok_frame (read fill))"
| "gs_enabled (GSClose bug t) g \<longleftrightarrow> gg_attached g bug"
| "gs_enabled (GSResponse a alive re) g \<longleftrightarrow> gg_running g a \<and>
     (\<forall>cb st. gg_cbs g a = Some cb \<longrightarrow> gc_streamer cb = Some st \<longrightarrow> g_connected st)"
| "gs_enabled (GSStreamEnd a alive st) g \<longleftrightarrow> gg_running g a \<and>
     (\<forall>cb st. gg_cbs g a = Some cb \<longrightarrow> gc_streamer cb = Some st \<longrightarrow> g_connected st)"
| "gs_enabled (GSHangup s) g \<longleftrightarrow> True"
| "gs_enabled (GSDestroy s) g \<longleftrightarrow> \<not> gg_sessions g s \<and>
     (\<forall>bug a x. gg_bugs g bug = Some (s, a, x) \<longrightarrow> \<not> gg_attached g bug)"

definition gs_start :: "('r, 'v) g_glue \<Rightarrow> bool" where
  "gs_start g \<longleftrightarrow> gg_cbs g = (\<lambda>_. None) \<and> gg_bugs g = (\<lambda>_. None) \<and> gg_attached g = (\<lambda>_. False) \<and>
     gg_private g = (\<lambda>_ _. None) \<and> gg_running g = (\<lambda>_. False) \<and> gg_active g = 0"

inductive gs_reach ::
  "'n g_lib \<Rightarrow> ('v \<Rightarrow> u8 list \<Rightarrow> nat \<Rightarrow> vad_state \<times> 'v) \<Rightarrow> ('r \<Rightarrow> u8 list \<Rightarrow> nat \<Rightarrow> u8 list \<times> 'r)
     \<Rightarrow> ('r, 'v) g_glue \<Rightarrow> bool" for L p r where
  start: "gs_start g \<Longrightarrow> gs_reach L p r g"
| step: "gs_reach L p r g \<Longrightarrow> gs_enabled a g \<Longrightarrow> gs_exec L p r a g = Inr g' \<Longrightarrow> gs_reach L p r g'"

section \<open>The invariant\<close>

text \<open>A stream that is not connected has its thread waiting and its ring in order.\<close>

definition gs_stream_ok :: "bool \<Rightarrow> g_stream \<Rightarrow> bool" where
  "gs_stream_ok run st \<longleftrightarrow> (g_promise st \<longleftrightarrow> g_connected st) \<and>
     (\<not> g_connected st \<longrightarrow> run \<and> (\<exists>audio. g_kept st audio))"

definition gs_cap_ok :: "bool \<Rightarrow> ('r, 'v) g_cap \<Rightarrow> bool" where
  "gs_cap_ok run cb \<longleftrightarrow> (case gc_streamer cb of
       None \<Rightarrow> \<not> run \<and> \<not> gc_thread cb \<and> gc_resampler cb = None \<and> gc_vad cb = None
     | Some st \<Rightarrow> gc_thread cb \<and> gc_channels cb \<noteq> 0 \<and> gs_stream_ok run st)"

definition gs_live :: "('r, 'v) g_glue \<Rightarrow> ptr set" where
  "gs_live g = {a. \<exists>cb. gg_cbs g a = Some cb \<and> gc_streamer cb \<noteq> None}"

text \<open>\<open>X\<close> is who may have a stream without a bug on the channel: the capture that is being started or
  closed.\<close>

definition gs_inv :: "ptr set \<Rightarrow> ('r, 'v) g_glue \<Rightarrow> bool" where
  "gs_inv X g \<longleftrightarrow>
     (\<forall>b s a x. gg_bugs g b = Some (s, a, x) \<longrightarrow> gg_cbs g a \<noteq> None \<and> gg_pool g a = Some s) \<and>
     (\<forall>b. gg_attached g b \<longrightarrow> gg_bugs g b \<noteq> None) \<and>
     (\<forall>s n b. gg_private g s n = Some b \<longrightarrow> (\<exists>a x. gg_bugs g b = Some (s, a, x))) \<and>
     (\<forall>a cb. gg_cbs g a = Some cb \<longrightarrow> gs_cap_ok (gg_running g a) cb) \<and>
     (\<forall>a. gg_running g a \<longrightarrow> a \<in> gs_live g) \<and>
     (\<forall>a. a \<in> gs_live g \<longrightarrow> a \<notin> X \<longrightarrow> (\<exists>b s x. gg_bugs g b = Some (s, a, x) \<and> gg_attached g b)) \<and>
     finite (gs_live g) \<and> gg_active g = int (card (gs_live g))"

lemma gs_invD:
  assumes "gs_inv X g"
  shows "gg_bugs g b = Some (s, a, x) \<Longrightarrow> \<exists>cb. gg_cbs g a = Some cb"
    and "gg_bugs g b = Some (s, a, x) \<Longrightarrow> gg_pool g a = Some s"
    and "gg_attached g b \<Longrightarrow> \<exists>s a x. gg_bugs g b = Some (s, a, x)"
    and "gg_private g s n = Some b \<Longrightarrow> \<exists>a x. gg_bugs g b = Some (s, a, x)"
    and "gg_cbs g a = Some cb \<Longrightarrow> gs_cap_ok (gg_running g a) cb"
    and "gg_running g a \<Longrightarrow> a \<in> gs_live g"
    and "a \<in> gs_live g \<Longrightarrow> a \<notin> X \<Longrightarrow> \<exists>b s x. gg_bugs g b = Some (s, a, x) \<and> gg_attached g b"
    and "finite (gs_live g)" "gg_active g = int (card (gs_live g))"
proof -
  note i = assms [unfolded gs_inv_def]
  note j = i [THEN conjunct2]
  note k = j [THEN conjunct2]
  note l = k [THEN conjunct2]
  note m = l [THEN conjunct2]
  note n = m [THEN conjunct2]
  note f = n [THEN conjunct2]
  show "gg_bugs g b = Some (s, a, x) \<Longrightarrow> \<exists>cb. gg_cbs g a = Some cb"
    "gg_bugs g b = Some (s, a, x) \<Longrightarrow> gg_pool g a = Some s"
    using i [THEN conjunct1] by blast+
  show "gg_attached g b \<Longrightarrow> \<exists>s a x. gg_bugs g b = Some (s, a, x)"
    using j [THEN conjunct1] by (cases "gg_bugs g b") auto
  show "gg_private g s n = Some b \<Longrightarrow> \<exists>a x. gg_bugs g b = Some (s, a, x)" using k [THEN conjunct1] by blast
  show "gg_cbs g a = Some cb \<Longrightarrow> gs_cap_ok (gg_running g a) cb" using l [THEN conjunct1] by blast
  show "gg_running g a \<Longrightarrow> a \<in> gs_live g" using m [THEN conjunct1] by blast
  show "a \<in> gs_live g \<Longrightarrow> a \<notin> X \<Longrightarrow> \<exists>b s x. gg_bugs g b = Some (s, a, x) \<and> gg_attached g b"
    using n [THEN conjunct1] by blast
  show "finite (gs_live g)" "gg_active g = int (card (gs_live g))" using f by simp_all
qed

section \<open>Streams\<close>

lemma g_drain_all_flags:
  "g_connected (g_connect_drain_all ok s) = g_connected s \<and> g_promise (g_connect_drain_all ok s) = g_promise s"
proof (induction ok s rule: g_connect_drain_all.induct)
  case (1 ok s)
  obtain again s1 where d: "g_connect_drain ok s = (again, s1)" by fastforce
  then have "g_connected s1 = g_connected s" "g_promise s1 = g_promise s"
    by (auto simp: g_connect_drain_def g_send_def g_call_def split: option.splits prod.splits if_splits)
  with 1 [OF d [symmetric]] d show ?case by (cases again) (simp_all add: g_connect_drain_all.simps [of ok s])
qed

lemma g_connect_ok:
  assumes "\<not> g_connected s" "\<not> g_promise s"
  obtains s1 where "g_connect ok s = Inr s1" "g_connected s1" "g_promise s1"
  using assms g_drain_all_flags
  by (auto simp: g_connect_def g_connect_begin_def g_connect_flush_def g_connect_config_def g_call_def g_send_def)

lemma gs_write_ok:
  assumes "gs_stream_ok run st"
  shows "\<exists>b st1. g_write ok d st = Inr (b, st1) \<and> gs_stream_ok run st1 \<and> g_connected st1 = g_connected st"
proof (cases "g_connected st")
  case True
  then have "g_write ok d st = Inr (g_send ok (map Some d) st)" by (simp add: g_write_def)
  moreover have "g_audio_step st (snd (g_send ok (map Some d) st))" by (rule g_send_step)
  ultimately show ?thesis using assms True
    by (cases "g_send ok (map Some d) st") (simp add: gs_stream_ok_def g_audio_step_def)
next
  case False
  then obtain audio where "g_kept st audio" using assms by (auto simp: gs_stream_ok_def)
  from g_write_kept [OF this False, of ok d] show ?thesis using assms False
    by (fastforce simp: gs_stream_ok_def g_same_def)
qed

lemma gs_writes_done_ok:
  assumes "gs_stream_ok run st"
  shows "\<exists>st1. g_writes_done st = Inr st1 \<and> g_promise st1 \<and> g_connected st1 = g_connected st"
  using assms by (auto simp: g_writes_done_def g_cancelConnect_def gs_stream_ok_def g_call_def)

section \<open>The read thread and the teardown\<close>

lemma g_emit_emit [simp]: "g_emit ys (g_emit xs g) = g_emit (xs @ ys) g"
  by (simp add: g_emit_def)

lemma g_emit_Nil [simp]: "g_emit [] g = g"
  by (simp add: g_emit_def)

lemma g_set_emit: "g_set a cb (g_emit es g) = g_emit es (g_set a cb g)"
  by (simp add: g_set_def g_emit_def)

lemma g_set_set [simp]: "g_set a cb (g_set a cb1 g) = g_set a cb g"
  by (simp add: g_set_def)

lemma g_set_sel [simp]:
  "gg_cbs (g_set a cb g) = (gg_cbs g)(a := Some cb)" "gg_running (g_set a cb g) = gg_running g"
  "gg_bugs (g_set a cb g) = gg_bugs g" "gg_attached (g_set a cb g) = gg_attached g"
  "gg_private (g_set a cb g) = gg_private g" "gg_pool (g_set a cb g) = gg_pool g"
  "gg_active (g_set a cb g) = gg_active g" "gg_sessions (g_set a cb g) = gg_sessions g"
  by (simp_all add: g_set_def)

lemma g_emit_sel [simp]:
  "gg_cbs (g_emit es g) = gg_cbs g" "gg_running (g_emit es g) = gg_running g"
  "gg_bugs (g_emit es g) = gg_bugs g" "gg_attached (g_emit es g) = gg_attached g"
  "gg_private (g_emit es g) = gg_private g" "gg_pool (g_emit es g) = gg_pool g"
  "gg_active (g_emit es g) = gg_active g" "gg_sessions (g_emit es g) = gg_sessions g"
  by (simp_all add: g_emit_def)

lemma g_thread_response_ok:
  assumes "gg_cbs g a = Some cb" "gc_streamer cb = Some st" "g_connected st" "g_promise st"
  shows "\<exists>es eou st1. g_thread_response L a alive re g
      = Inr (g_emit es (g_set a (cb\<lparr>gc_eou := eou, gc_streamer := Some st1\<rparr>) g)) \<and>
    g_connected st1 \<and> g_promise st1"
proof -
  have "gs_stream_ok True st" using assms(3,4) by (simp add: gs_stream_ok_def)
  from gs_writes_done_ok [OF this] assms(3) obtain st1 where
    "g_writes_done st = Inr st1" "g_connected st1" "g_promise st1" by auto
  with assms show ?thesis
    by (cases "re_end_of_single_utterance re \<and> gc_single cb")
      (auto simp: g_thread_response_def g_cb_def Let_def g_set_emit intro!: exI)
qed

lemma g_thread_responses_ok:
  assumes "gg_cbs g a = Some cb" "gc_streamer cb = Some st" "g_connected st" "g_promise st"
  shows "\<exists>es eou st1. g_thread_responses L a res g
      = Inr (g_emit es (g_set a (cb\<lparr>gc_eou := eou, gc_streamer := Some st1\<rparr>) g)) \<and>
    g_connected st1 \<and> g_promise st1"
  using assms
proof (induction res arbitrary: g cb st)
  case Nil
  have "g_set a (cb\<lparr>gc_eou := gc_eou cb, gc_streamer := Some st\<rparr>) g = g"
    using Nil by (simp add: g_set_def fun_upd_idem)
  then show ?case using Nil(3,4) by (intro exI [of _ "[]"] exI [of _ "gc_eou cb"] exI [of _ st]) simp
next
  case (Cons x res)
  obtain alive re where x: "x = (alive, re)" by (cases x)
  from g_thread_response_ok [OF Cons.prems] obtain es eou st1 where
    r: "g_thread_response L a alive re g = Inr (g_emit es (g_set a (cb\<lparr>gc_eou := eou, gc_streamer := Some st1\<rparr>) g))"
    "g_connected st1" "g_promise st1" by blast
  let ?g = "g_emit es (g_set a (cb\<lparr>gc_eou := eou, gc_streamer := Some st1\<rparr>) g)"
  from Cons.IH [of ?g "cb\<lparr>gc_eou := eou, gc_streamer := Some st1\<rparr>" st1] r(2,3) obtain es2 eou2 st2 where
    "g_thread_responses L a res ?g = Inr (g_emit es2 (g_set a (cb\<lparr>gc_eou := eou2, gc_streamer := Some st2\<rparr>) ?g))"
    "g_connected st2" "g_promise st2" by auto
  then show ?case
    by (intro exI [of _ "es @ es2"] exI [of _ eou2] exI [of _ st2]) (simp add: x r(1) g_set_emit)
qed

lemma g_join_ok:
  assumes cb: "gg_cbs g a = Some cb" and st: "gc_streamer cb = Some st" and p: "g_promise st"
  shows "\<exists>es eou st1. g_join L a t g = Inr ((g_emit es (g_set a (cb\<lparr>gc_eou := eou, gc_streamer := Some st1\<rparr>) g))
    \<lparr>gg_running := (gg_running g)(a := False)\<rparr>)"
proof (cases "gg_running g a \<and> g_connected st")
  case True
  with g_thread_responses_ok [OF cb st _ p, of L "tl_responses t"] obtain es eou st1 where
    r: "g_thread_responses L a (tl_responses t) g = Inr (g_emit es (g_set a (cb\<lparr>gc_eou := eou, gc_streamer := Some st1\<rparr>) g))"
    by blast
  show ?thesis
    by (intro exI [of _ "es @ g_finish_events L (gc_sessionId cb) (gc_bugname cb) (tl_alive t) (tl_status t)"]
        exI [of _ eou] exI [of _ "g_finish st1"])
      (simp add: g_join_def cb g_cb_def st True g_waitForConnect_def p r g_thread_end_def g_set_emit)
next
  case False
  have same: "g_set a (cb\<lparr>gc_eou := gc_eou cb, gc_streamer := Some st\<rparr>) g = g"
    using cb st by (simp add: g_set_def fun_upd_idem)
  have "g_join L a t g = Inr (g\<lparr>gg_running := (gg_running g)(a := False)\<rparr>)"
  proof (cases "gg_running g a")
    case True
    with False show ?thesis by (simp add: g_join_def cb g_cb_def st g_waitForConnect_def p)
  next
    case no: False
    then show ?thesis by (simp add: g_join_def fun_upd_idem)
  qed
  then show ?thesis by (intro exI [of _ "[]"] exI [of _ "gc_eou cb"] exI [of _ st]) (simp only: same g_emit_Nil)
qed

text \<open>A teardown changes the block, the thread and the count, nothing else.\<close>

definition gs_kept :: "('r, 'v) g_glue \<Rightarrow> ('r, 'v) g_glue \<Rightarrow> bool" where
  "gs_kept g g' \<longleftrightarrow> gg_bugs g' = gg_bugs g \<and> gg_attached g' = gg_attached g \<and> gg_private g' = gg_private g \<and>
     gg_pool g' = gg_pool g \<and> gg_sessions g' = gg_sessions g \<and>
     (\<forall>a. map_option gc_bugname (gg_cbs g' a) = map_option gc_bugname (gg_cbs g a))"

lemma gs_inv_reaped:
  assumes g: "gs_inv X g" and cb: "gg_cbs g a = Some cb" and cb1: "gc_streamer cb1 = None" "\<not> gc_thread cb1"
    "gc_resampler cb1 = None" "gc_vad cb1 = None"
  shows "gs_inv (X - {a}) ((g_emit es (g_set a cb1 g))\<lparr>gg_running := (gg_running g)(a := False),
    gg_active := gg_active g - (if gc_streamer cb = None then 0 else 1)\<rparr>)" (is "gs_inv _ ?g")
proof -
  note D = gs_invD [OF g]
  have live: "gs_live ?g = gs_live g - {a}" using cb1(1) by (auto simp: gs_live_def)
  have a: "a \<in> gs_live g \<longleftrightarrow> gc_streamer cb \<noteq> None" using cb by (simp add: gs_live_def)
  show ?thesis unfolding gs_inv_def live
  proof (intro conjI allI impI)
    show "gg_cbs ?g a' \<noteq> None" "gg_pool ?g a' = Some s" if "gg_bugs ?g b = Some (s, a', x)" for b s a' x
      using that D(1,2) [of b s a' x] by auto
    show "gg_bugs ?g b \<noteq> None" if "gg_attached ?g b" for b using that D(3) [of b] by auto
    show "\<exists>a x. gg_bugs ?g b = Some (s, a, x)" if "gg_private ?g s n = Some b" for s n b
      using that D(4) [of s n b] by simp
    show "gs_cap_ok (gg_running ?g a') cb'" if "gg_cbs ?g a' = Some cb'" for a' cb'
      using that D(5) [of a' cb'] cb1 by (auto simp: gs_cap_ok_def split: if_splits)
    show "a' \<in> gs_live g - {a}" if "gg_running ?g a'" for a'
      using that D(6) [of a'] by (auto split: if_splits)
    show "\<exists>b s x. gg_bugs ?g b = Some (s, a', x) \<and> gg_attached ?g b" if "a' \<in> gs_live g - {a}" "a' \<notin> X - {a}" for a'
      using that D(7) [of a'] by auto
    show "finite (gs_live g - {a})" using D(8) by simp
    show "gg_active ?g = int (card (gs_live g - {a}))"
    proof (cases "gc_streamer cb = None")
      case False
      then have "a \<in> gs_live g" using a by simp
      from card.remove [OF D(8) this] have "card (gs_live g) = Suc (card (gs_live g - {a}))" .
      then show ?thesis using False D(9) by simp
    qed (use D(9) a in simp)
  qed
qed

lemma reap_streamer_ok:
  assumes g: "gs_inv X g" and cb: "gg_cbs g a = Some cb"
  shows "\<exists>g'. reap_streamer L a t g = Inr g' \<and> gs_inv (X - {a}) g' \<and> gs_kept g g' \<and> a \<notin> gs_live g' \<and>
    gs_live g' = gs_live g - {a}"
proof -
  have ok: "gs_cap_ok (gg_running g a) cb" using gs_invD(5) [OF g cb] .
  have "\<exists>es eou. reap_streamer L a t g = Inr ((g_emit es (g_set a (cb\<lparr>gc_eou := eou, gc_resampler := None,
      gc_vad := None, gc_streamer := None, gc_thread := False\<rparr>) g))\<lparr>gg_running := (gg_running g)(a := False),
      gg_active := gg_active g - (if gc_streamer cb = None then 0 else 1)\<rparr>)"
  proof (cases "gc_streamer cb")
    case None
    with ok have o: "\<not> gg_running g a" "\<not> gc_thread cb" by (auto simp: gs_cap_ok_def)
    show ?thesis using o None cb
      by (intro exI [of _ "[]"] exI [of _ "gc_eou cb"]) (simp add: reap_streamer_def g_cb_def fun_upd_idem g_set_def)
  next
    case (Some st)
    with ok have o: "gc_thread cb" "gs_stream_ok (gg_running g a) st" by (auto simp: gs_cap_ok_def)
    from gs_writes_done_ok [OF o(2)] obtain st1 where st1: "g_writes_done st = Inr st1" "g_promise st1" by blast
    let ?cb = "cb\<lparr>gc_streamer := Some st1\<rparr>"
    from g_join_ok [of "g_set a ?cb g" a ?cb st1 L t] st1(2) obtain es eou st2 where
      j: "g_join L a t (g_set a ?cb g) = Inr ((g_emit es (g_set a (?cb\<lparr>gc_eou := eou, gc_streamer := Some st2\<rparr>) (g_set a ?cb g)))
        \<lparr>gg_running := (gg_running (g_set a ?cb g))(a := False)\<rparr>)" by auto
    show ?thesis using o(1)
      by (intro exI [of _ es] exI [of _ eou])
        (simp add: reap_streamer_def g_cb_def cb Some st1(1) j, simp add: g_set_def g_emit_def)
  qed
  then obtain es eou where r: "reap_streamer L a t g = Inr ((g_emit es (g_set a (cb\<lparr>gc_eou := eou, gc_resampler := None,
      gc_vad := None, gc_streamer := None, gc_thread := False\<rparr>) g))\<lparr>gg_running := (gg_running g)(a := False),
      gg_active := gg_active g - (if gc_streamer cb = None then 0 else 1)\<rparr>)" by blast
  have "gs_kept g ((g_emit es (g_set a (cb\<lparr>gc_eou := eou, gc_resampler := None,
      gc_vad := None, gc_streamer := None, gc_thread := False\<rparr>) g))\<lparr>gg_running := (gg_running g)(a := False),
      gg_active := gg_active g - (if gc_streamer cb = None then 0 else 1)\<rparr>)"
    by (simp add: gs_kept_def cb)
  with r show ?thesis using gs_inv_reaped [OF g cb] by (auto simp: gs_live_def split: if_splits)
qed

section \<open>Cleaning up\<close>

text \<open>What every operation of a session keeps: bugs, pools and channels; the privates only lose entries.\<close>

definition gs_frame :: "('r, 'v) g_glue \<Rightarrow> ('r, 'v) g_glue \<Rightarrow> bool" where
  "gs_frame g g' \<longleftrightarrow> gg_bugs g' = gg_bugs g \<and> gg_pool g' = gg_pool g \<and> gg_sessions g' = gg_sessions g \<and>
     (\<forall>a. map_option gc_bugname (gg_cbs g' a) = map_option gc_bugname (gg_cbs g a))"

lemma gs_frame_refl [simp]: "gs_frame g g"
  by (simp add: gs_frame_def)

lemma gs_frame_trans: "gs_frame g1 g2 \<Longrightarrow> gs_frame g2 g3 \<Longrightarrow> gs_frame g1 g3"
  by (simp add: gs_frame_def)

lemma gs_frame_fresh: "gs_frame g g' \<Longrightarrow> gg_cbs g a = None \<Longrightarrow> gg_cbs g' a = None"
  by (metis gs_frame_def option.map_disc_iff)

lemma gs_inv_private:
  "gs_inv X g \<Longrightarrow> gs_inv X (g\<lparr>gg_private := (gg_private g)(s := (gg_private g s)(n := None))\<rparr>)"
  by (auto simp: gs_inv_def gs_live_def)

lemma gs_inv_detach:
  assumes g: "gs_inv X g" and b: "gg_bugs g bug = Some (s, a, x)"
  shows "gs_inv (insert a X) (g\<lparr>gg_attached := (gg_attached g)(bug := False)\<rparr>)" (is "gs_inv _ ?g")
proof -
  note D = gs_invD [OF g]
  have live: "gs_live ?g = gs_live g" by (simp add: gs_live_def)
  show ?thesis unfolding gs_inv_def live
  proof (intro conjI allI impI)
    show "\<exists>b s x. gg_bugs ?g b = Some (s, a', x) \<and> gg_attached ?g b" if "a' \<in> gs_live g" "a' \<notin> insert a X" for a'
    proof -
      from D(7) [of a'] that obtain b' s' x' where "gg_bugs g b' = Some (s', a', x')" "gg_attached g b'" by auto
      with b that(2) show ?thesis by (intro exI [of _ b'] exI [of _ s'] exI [of _ x']) auto
    qed
    show "gg_bugs ?g b \<noteq> None" if "gg_attached ?g b" for b using that D(3) [of b] by (auto split: if_splits)
  qed (use D in \<open>auto\<close>)
qed

lemma g_cleanup_locked_ok:
  assumes g: "gs_inv X g" and b: "gg_bugs g bug = Some (s', a, x)"
  shows "\<exists>found g'. g_cleanup_locked L s bug t g = Inr (found, g') \<and> gs_inv (X - {a}) g' \<and> gs_frame g g' \<and>
    gg_attached g' = gg_attached g \<and> a \<notin> gs_live g'"
proof -
  obtain cb where cb: "gg_cbs g a = Some cb" using gs_invD(1) [OF g b] by blast
  let ?found = "gg_private g s (gc_bugname cb) \<noteq> None"
  let ?g = "if ?found then g\<lparr>gg_private := (gg_private g)(s := (gg_private g s)(gc_bugname cb := None))\<rparr> else g"
  have "gs_inv X ?g" "gg_cbs ?g a = Some cb" using g cb gs_inv_private by auto
  then obtain g' where r: "reap_streamer L a t ?g = Inr g'" "gs_inv (X - {a}) g'" "gs_kept ?g g'" "a \<notin> gs_live g'"
    using reap_streamer_ok by blast
  then have "gs_frame g g'" "gg_attached g' = gg_attached g"
    by (auto simp: gs_kept_def gs_frame_def split: if_splits)
  moreover have "g_cleanup_locked L s bug t g = Inr (?found, g')"
    unfolding g_cleanup_locked_def b option.case prod.case g_cb_def cb andthen_simps Let_def r(1) ..
  ultimately show ?thesis using r(2,4) by blast
qed

lemma g_capture_close_ok:
  assumes g: "gs_inv X g" and b: "gg_bugs g bug = Some (s, a, x)"
  shows "\<exists>g'. g_capture_close L bug t (g\<lparr>gg_attached := (gg_attached g)(bug := False)\<rparr>) = Inr g' \<and>
    gs_inv (X - {a}) g' \<and> gs_frame g g' \<and> a \<notin> gs_live g'"
proof -
  let ?g = "g\<lparr>gg_attached := (gg_attached g)(bug := False)\<rparr>"
  obtain cb where cb: "gg_cbs g a = Some cb" using gs_invD(1) [OF g b] by blast
  let ?g1 = "g_emit [g_responseHandler L s ''end_of_transcript'' (gc_bugname cb)] ?g"
  have "gs_inv (insert a X) ?g1" using gs_inv_detach [OF g b] by (simp add: gs_inv_def gs_live_def)
  moreover have "gg_bugs ?g1 bug = Some (s, a, x)" using b by simp
  ultimately obtain found g' where r: "g_cleanup_locked L s bug t ?g1 = Inr (found, g')" "gs_inv (insert a X - {a}) g'"
    "gs_frame ?g1 g'" "a \<notin> gs_live g'" using g_cleanup_locked_ok by blast
  have "insert a X - {a} = X - {a}" by auto
  moreover have "gs_frame g g'" using r(3) by (simp add: gs_frame_def)
  ultimately show ?thesis using r b cb by (simp add: g_capture_close_def g_cb_def)
qed

lemma google_speech_session_cleanup_ok:
  assumes g: "gs_inv X g" and b: "gg_bugs g bug = Some (s', a, x)"
  shows "\<exists>status g'. google_speech_session_cleanup L s closing (Some bug) t g = Inr (status, g') \<and>
    gs_inv (X - {a}) g' \<and> gs_frame g g' \<and> a \<notin> gs_live g'"
proof -
  obtain found g1 where l: "g_cleanup_locked L s bug t g = Inr (found, g1)" "gs_inv (X - {a}) g1" "gs_frame g g1"
    "a \<notin> gs_live g1" using g_cleanup_locked_ok [OF g b] by blast
  have b1: "gg_bugs g1 bug = Some (s', a, x)" using l(3) b by (simp add: gs_frame_def)
  from g_capture_close_ok [OF l(2) b1, of L t] obtain g2 where
    c: "g_capture_close L bug t (g1\<lparr>gg_attached := (gg_attached g1)(bug := False)\<rparr>) = Inr g2"
    "gs_inv (X - {a}) g2" "gs_frame g1 g2" "a \<notin> gs_live g2" by (auto simp: Diff_idemp)
  show ?thesis
  proof (cases "found \<and> \<not> closing \<and> gg_attached g1 bug")
    case True
    then show ?thesis using l(1) c gs_frame_trans [OF l(3) c(3)]
      by (simp add: google_speech_session_cleanup_def g_bug_remove_def)
  next
    case False
    then show ?thesis using l by (auto simp: google_speech_session_cleanup_def g_bug_remove_def)
  qed
qed

lemma g_do_stop_seen_ok:
  assumes g: "gs_inv X g" and b: "\<And>bug. seen = Some bug \<Longrightarrow> \<exists>s' a x. gg_bugs g bug = Some (s', a, x)"
  shows "\<exists>status g'. g_do_stop_seen L s seen t g = Inr (status, g') \<and> (\<exists>Y\<subseteq>X. gs_inv Y g') \<and> gs_frame g g'"
proof (cases seen)
  case None
  then show ?thesis using g by (auto simp: g_do_stop_seen_def)
next
  case (Some bug)
  then obtain s' a x where "gg_bugs g bug = Some (s', a, x)" using b by blast
  from google_speech_session_cleanup_ok [OF g this, of L s False t] show ?thesis
    using Some by (auto simp: g_do_stop_seen_def intro!: exI [of _ "X - {a}"])
qed

section \<open>Starting\<close>

lemma gs_inv_emit [simp]: "gs_inv X (g_emit es g) = gs_inv X g"
  by (simp add: gs_inv_def gs_live_def)

lemma gs_inv_set:
  assumes g: "gs_inv X g" and cb: "gg_cbs g a = Some cb" and ok: "gs_cap_ok (gg_running g a) cb'"
    and st: "(gc_streamer cb' = None) = (gc_streamer cb = None)"
  shows "gs_inv X (g_set a cb' g)"
proof -
  note D = gs_invD [OF g]
  have live: "gs_live (g_set a cb' g) = gs_live g" using cb st by (auto simp: gs_live_def)
  show ?thesis unfolding gs_inv_def live
  proof (intro conjI allI impI)
    show "gs_cap_ok (gg_running (g_set a cb' g) a') cb1" if "gg_cbs (g_set a cb' g) a' = Some cb1" for a' cb1
      using that ok D(5) [of a' cb1] by (auto split: if_splits)
    show "gg_cbs (g_set a cb' g) a' \<noteq> None" "gg_pool (g_set a cb' g) a' = Some s"
      if "gg_bugs (g_set a cb' g) b = Some (s, a', x)" for b s a' x using that D(1,2) [of b s a' x] by auto
    show "gg_bugs (g_set a cb' g) b \<noteq> None" if "gg_attached (g_set a cb' g) b" for b using that D(3) [of b] by auto
  qed (use D in \<open>simp_all\<close>)
qed

lemma gs_inv_new:
  assumes g: "gs_inv X g" and a: "gg_cbs g a = None" and ok: "gs_cap_ok run cb"
    and g': "gg_cbs g' = (gg_cbs g)(a := Some cb)" "gg_pool g' = (gg_pool g)(a := Some s)"
      "gg_running g' = (gg_running g)(a := run)"
      "gg_active g' = gg_active g + (if gc_streamer cb = None then 0 else 1)"
      "gg_bugs g' = gg_bugs g" "gg_attached g' = gg_attached g" "gg_private g' = gg_private g"
  shows "gs_inv (if gc_streamer cb = None then X else insert a X) g'"
proof -
  note D = gs_invD [OF g]
  have fresh: "a' \<noteq> a" if "gg_bugs g b = Some (s', a', x)" for b s' a' x using D(1) [OF that] a by auto
  have na: "a \<notin> gs_live g" using a by (simp add: gs_live_def)
  have live: "gs_live g' = (if gc_streamer cb = None then gs_live g else insert a (gs_live g))"
    using na a g'(1) by (auto simp: gs_live_def)
  have run: "run \<Longrightarrow> gc_streamer cb \<noteq> None" using ok by (auto simp: gs_cap_ok_def split: option.splits)
  show ?thesis unfolding gs_inv_def
  proof (intro conjI allI impI)
    show "gg_cbs g' a' \<noteq> None" "gg_pool g' a' = Some s'" if "gg_bugs g' b = Some (s', a', x)" for b s' a' x
      using that D(1,2) [of b s' a' x] fresh [of b s' a' x] by (auto simp: g')
    show "gg_bugs g' b \<noteq> None" if "gg_attached g' b" for b using that D(3) [of b] by (auto simp: g')
    show "\<exists>a x. gg_bugs g' b = Some (s', a, x)" if "gg_private g' s' n = Some b" for s' n b
      using that D(4) [of s' n b] by (simp add: g')
    show "gs_cap_ok (gg_running g' a') cb'" if "gg_cbs g' a' = Some cb'" for a' cb'
      using that D(5) [of a' cb'] ok by (auto simp: g' split: if_splits)
    show "a' \<in> gs_live g'" if "gg_running g' a'" for a'
      using that D(6) [of a'] run by (auto simp: g' live split: if_splits)
    show "\<exists>b s x. gg_bugs g' b = Some (s, a', x) \<and> gg_attached g' b"
      if "a' \<in> gs_live g'" "a' \<notin> (if gc_streamer cb = None then X else insert a X)" for a'
      using that D(7) [of a'] by (auto simp: g' live split: if_splits)
    show "finite (gs_live g')" using D(8) by (simp add: live)
    show "gg_active g' = int (card (gs_live g'))" using D(8,9) na by (simp add: live g'(4))
  qed
qed

lemma gs_not_running: "gs_inv X g \<Longrightarrow> gg_cbs g a = None \<Longrightarrow> \<not> gg_running g a"
  using gs_invD(6) [of X g a] by (auto simp: gs_live_def)

text \<open>The outcome of an initialisation: nothing but the block, or a capture that has no bug yet.\<close>

lemma google_speech_session_init_ok:
  assumes g: "gs_inv X g" and a: "gg_cbs g (ge_cb E) = None" and c: "channels \<noteq> 0"
  shows "\<exists>status ud g'. google_speech_session_init E s channels A g = Inr ((status, ud), g') \<and>
    gg_bugs g' = gg_bugs g \<and> gg_attached g' = gg_attached g \<and> gg_private g' = gg_private g \<and>
    gg_sessions g' = gg_sessions g \<and>
    (case ud of
       None \<Rightarrow> status = SWITCH_STATUS_FALSE \<and> gs_inv X g' \<and> gs_live g' = gs_live g \<and>
         gg_running g' = gg_running g \<and> gg_active g' = gg_active g
     | Some a \<Rightarrow> a = ge_cb E \<and> gs_inv (insert a X) g' \<and> gg_pool g' a = Some s \<and>
         gs_live g' = insert a (gs_live g) \<and>
         (\<exists>cb. gg_cbs g' a = Some cb \<and> gc_streamer cb \<noteq> None \<and> gc_bugname cb = take MAX_BUG_LEN (ga_bugname A)))"
proof (cases "ge_codec E")
  case None
  then show ?thesis using g by (simp add: google_speech_session_init_def)
next
  case (Some rate)
  let ?a = "ge_cb E"
  let ?g1 = "g\<lparr>gg_pool := (gg_pool g)(?a := Some s)\<rparr>"
  let ?cb = "\<lparr>gc_sessionId = take MAX_SESSION_ID s, gc_bugname = take MAX_BUG_LEN (ga_bugname A),
    gc_channels = channels, gc_single = ga_single A, gc_eou = False, gc_play_file = ga_play_file A,
    gc_write_only = False, gc_resampler = None, gc_vad = None, gc_streamer = None, gc_thread = False\<rparr>"
  obtain resampler ok where rs: "(if rate \<noteq> ga_to_rate A then ge_resampler E channels rate (ga_to_rate A)
    else (None, True)) = (resampler, ok)" by fastforce
  obtain vad where v: "(if ge_on_vad E then ge_vad E else None) = vad" by blast
  have fail: "gs_inv X (g_set ?a ?cb ?g1)" "gs_live (g_set ?a ?cb ?g1) = gs_live g"
    using gs_inv_new [OF g a, of False ?cb "g_set ?a ?cb ?g1" s] gs_not_running [OF g a] a
    by (auto simp: gs_cap_ok_def fun_upd_idem gs_live_def)
  obtain st where st: "(if vad = None then g_connect (ge_write E) GStreamer else Inr GStreamer) = Inr st"
    "gs_stream_ok True st"
  proof (cases "vad = None")
    case True
    from g_connect_ok [of GStreamer "ge_write E"] obtain st where "g_connect (ge_write E) GStreamer = Inr st"
      "g_connected st" "g_promise st" by (auto simp: GStreamer_def)
    then show ?thesis using that [of st] True by (simp add: gs_stream_ok_def)
  next
    case False
    have "gs_stream_ok True GStreamer" using g_kept_start by (auto simp: gs_stream_ok_def GStreamer_def)
    then show ?thesis using that [of GStreamer] False by simp
  qed
  let ?cb3 = "?cb\<lparr>gc_resampler := resampler, gc_vad := vad, gc_streamer := Some st, gc_thread := True\<rparr>"
  let ?g3 = "(g_set ?a ?cb3 ?g1)\<lparr>gg_running := (gg_running ?g1)(?a := True), gg_active := gg_active ?g1 + 1\<rparr>"
  consider "\<not> ok \<or> ge_on_vad E \<and> ge_vad E = None \<or> \<not> ge_streamer E \<or> \<not> ge_thread E"
    | "ok" "\<not> (ge_on_vad E \<and> ge_vad E = None)" "ge_streamer E" "ge_thread E" by blast
  then show ?thesis
  proof cases
    case 1
    have "google_speech_session_init E s channels A g = Inr ((SWITCH_STATUS_FALSE, None), g_set ?a ?cb ?g1)"
      unfolding google_speech_session_init_def Some option.case Let_def rs prod.case v
      using 1 st(1) by auto
    then show ?thesis using fail by simp
  next
    case 2
    have i: "google_speech_session_init E s channels A g = Inr ((SWITCH_STATUS_SUCCESS, Some ?a), ?g3)"
      unfolding google_speech_session_init_def Some option.case Let_def rs prod.case v
      using 2 st(1) by simp
    have "gs_inv (insert ?a X) ?g3"
      using gs_inv_new [OF g a, of True ?cb3 ?g3 s] st(2) c by (simp add: gs_cap_ok_def)
    moreover have "gs_live ?g3 = insert ?a (gs_live g)" using a by (auto simp: gs_live_def)
    ultimately show ?thesis using i by simp
  qed
qed

lemma gs_inv_attach:
  assumes g: "gs_inv {a} g" and a: "gg_cbs g a \<noteq> None" "gg_pool g a = Some s" and b: "gg_bugs g bug = None"
  shows "gs_inv {} (g\<lparr>gg_bugs := (gg_bugs g)(bug := Some (s, a, x)), gg_attached := (gg_attached g)(bug := True),
    gg_private := (gg_private g)(s := (gg_private g s)(n := Some bug))\<rparr>)" (is "gs_inv {} ?g")
proof -
  note D = gs_invD [OF g]
  have live: "gs_live ?g = gs_live g" by (simp add: gs_live_def)
  show ?thesis unfolding gs_inv_def live
  proof (intro conjI allI impI)
    show "gg_cbs ?g a' \<noteq> None" "gg_pool ?g a' = Some s'" if "gg_bugs ?g b = Some (s', a', y)" for b s' a' y
      using that D(1,2) [of b s' a' y] a by (auto split: if_splits)
    show "gg_bugs ?g b \<noteq> None" if "gg_attached ?g b" for b using that D(3) [of b] by (auto split: if_splits)
    show "\<exists>a x. gg_bugs ?g b = Some (s', a, x)" if "gg_private ?g s' m = Some b" for s' m b
      using that D(4) [of s' m b] b by (auto split: if_splits)
    show "\<exists>b s x. gg_bugs ?g b = Some (s, a', x) \<and> gg_attached ?g b" if "a' \<in> gs_live g" for a'
    proof (cases "a' = a")
      case False
      with D(7) [OF that] obtain b' s' x' where o: "gg_bugs g b' = Some (s', a', x')" "gg_attached g b'" by auto
      with b have "b' \<noteq> bug" by auto
      with o show ?thesis by auto
    qed auto
  qed (use D in \<open>auto\<close>)
qed

text \<open>A start that does not succeed leaves no capture behind.\<close>

lemma g_start_rest_ok:
  assumes g: "gs_inv {} g" and a: "gg_cbs g (ge_cb E) = None"
    and b: "\<And>bug. ge_added E = Some bug \<Longrightarrow> gg_bugs g bug = None"
  shows "\<exists>status g'. g_start_rest L E s A t g = Inr (status, g') \<and> gs_inv {} g' \<and>
    gg_sessions g' = gg_sessions g \<and>
    (status \<noteq> SWITCH_STATUS_SUCCESS \<longrightarrow> gs_live g' = gs_live g \<and> gg_active g' = gg_active g \<and>
      gg_bugs g' = gg_bugs g \<and> gg_private g' = gg_private g) \<and>
    (status = SWITCH_STATUS_SUCCESS \<longrightarrow> (\<exists>bug. ge_added E = Some bug \<and>
      gg_private g' s (ga_bugname A) = Some bug \<and> gg_attached g' bug \<and>
      gg_bugs g' bug = Some (s, ge_cb E, ga_stereo A) \<and> gs_live g' = insert (ge_cb E) (gs_live g) \<and>
      gg_active g' = gg_active g + 1))"
proof (cases "ge_read_impl E \<and> ge_pre_answer E")
  case False
  then show ?thesis using g by (auto simp: g_start_rest_def)
next
  case True
  let ?c = "if ga_stereo A \<and> \<not> ga_write_only A then 2 else 1 :: nat"
  let ?a = "ge_cb E"
  have na: "?a \<notin> gs_live g" using a by (simp add: gs_live_def)
  have c: "?c \<noteq> 0" by simp
  from google_speech_session_init_ok [OF g a c, of s A] obtain status ud g1 where
    i: "google_speech_session_init E s ?c A g = Inr ((status, ud), g1)"
    "gg_bugs g1 = gg_bugs g" "gg_private g1 = gg_private g" "gg_sessions g1 = gg_sessions g"
    "case ud of
       None \<Rightarrow> status = SWITCH_STATUS_FALSE \<and> gs_inv {} g1 \<and> gs_live g1 = gs_live g \<and>
         gg_running g1 = gg_running g \<and> gg_active g1 = gg_active g
     | Some a \<Rightarrow> a = ge_cb E \<and> gs_inv (insert a {}) g1 \<and> gg_pool g1 a = Some s \<and>
         gs_live g1 = insert a (gs_live g) \<and>
         (\<exists>cb. gg_cbs g1 a = Some cb \<and> gc_streamer cb \<noteq> None \<and> gc_bugname cb = take MAX_BUG_LEN (ga_bugname A))"
    by blast
  show ?thesis
  proof (cases ud)
    case None
    then show ?thesis using i True by (simp add: g_start_rest_def)
  next
    case (Some a')
    then have a': "a' = ?a" "gs_inv {?a} g1" "gg_pool g1 ?a = Some s" "gs_live g1 = insert ?a (gs_live g)"
      using i(5) by auto
    obtain cb where cb: "gg_cbs g1 ?a = Some cb" "gc_streamer cb \<noteq> None" using i(5) Some by auto
    let ?g2 = "g_set ?a (cb\<lparr>gc_write_only := ga_write_only A\<rparr>) g1"
    have "gs_cap_ok (gg_running g1 ?a) (cb\<lparr>gc_write_only := ga_write_only A\<rparr>)"
      using gs_invD(5) [OF a'(2) cb(1)] by (simp add: gs_cap_ok_def split: option.splits)
    then have g2: "gs_inv {?a} ?g2" using gs_inv_set [OF a'(2) cb(1)] by simp
    have live: "gs_live ?g2 = insert ?a (gs_live g)" using cb a'(4) by (auto simp: gs_live_def)
    have start: "g_start_rest L E s A t g = (case ge_added E of
        None \<Rightarrow> andthen (reap_streamer L ?a t ?g2) (\<lambda>g3. Inr (SWITCH_STATUS_FALSE, g3))
      | Some bug \<Rightarrow> Inr (SWITCH_STATUS_SUCCESS,
          (g_emit [g_responseHandler L s ''start_of_transcript'' (gc_bugname cb)] ?g2)
            \<lparr>gg_bugs := (gg_bugs ?g2)(bug := Some (s, ?a, ga_stereo A)),
             gg_attached := (gg_attached ?g2)(bug := True),
             gg_private := (gg_private ?g2)(s := (gg_private ?g2 s)(ga_bugname A := Some bug))\<rparr>))"
      unfolding g_start_rest_def i(1)
      using True Some a'(1) cb(1)
      by (cases "ge_added E") (simp_all add: g_cb_def google_speech_session_orphan_cleanup_def Let_def)
    show ?thesis
    proof (cases "ge_added E")
      case no: None
      from reap_streamer_ok [OF g2, of ?a _ L t] obtain g3 where
        r: "reap_streamer L ?a t ?g2 = Inr g3" "gs_inv ({?a} - {?a}) g3" "gs_kept ?g2 g3"
          "gs_live g3 = gs_live ?g2 - {?a}" by auto
      have "gs_live g3 = gs_live g" using r(4) live na by auto
      moreover from this have "gg_active g3 = gg_active g" using gs_invD(9) [OF g] gs_invD(9) [OF r(2)] by simp
      ultimately show ?thesis using r i(2-4) by (simp add: start no gs_kept_def)
    next
      case (Some bug)
      let ?g3 = "(g_emit [g_responseHandler L s ''start_of_transcript'' (gc_bugname cb)] ?g2)
            \<lparr>gg_bugs := (gg_bugs ?g2)(bug := Some (s, ?a, ga_stereo A)),
             gg_attached := (gg_attached ?g2)(bug := True),
             gg_private := (gg_private ?g2)(s := (gg_private ?g2 s)(ga_bugname A := Some bug))\<rparr>"
      have "gs_inv {?a} (g_emit [g_responseHandler L s ''start_of_transcript'' (gc_bugname cb)] ?g2)" using g2 by simp
      from gs_inv_attach [OF this, where s = s and bug = bug and x = "ga_stereo A" and n = "ga_bugname A"] have g3: "gs_inv {} ?g3"
        using a'(3) b [OF Some] i(2) by simp
      have "gs_live ?g3 = gs_live ?g2" by (simp add: gs_live_def)
      moreover from this have "gg_active ?g3 = gg_active g + 1"
        using live na gs_invD(8,9) [OF g] gs_invD(9) [OF g3] by simp
      ultimately show ?thesis using g3 live i(4) by (simp add: start Some)
    qed
  qed
qed

lemma g_start_capture2_ok:
  assumes g: "gs_inv {} g" and a: "gg_cbs g (ge_cb E) = None"
    and b: "\<And>bug. ge_added E = Some bug \<Longrightarrow> gg_bugs g bug = None"
  shows "\<exists>status g'. g_start_capture2 L E s A t g = Inr (status, g') \<and> gs_inv {} g'"
proof -
  let ?stop = "if gg_private g s (ga_bugname A) \<noteq> None then g_do_stop L s (ga_bugname A) t g
    else Inr (SWITCH_STATUS_SUCCESS, g)"
  have "\<exists>st g1. ?stop = Inr (st, g1) \<and> gs_inv {} g1 \<and> gs_frame g g1"
  proof (cases "gg_private g s (ga_bugname A)")
    case (Some bug)
    then have "\<exists>a x. gg_bugs g bug = Some (s, a, x)" by (rule gs_invD(4) [OF g])
    with Some g_do_stop_seen_ok [OF g, of "Some bug" L s t] show ?thesis by (auto simp: g_do_stop_def)
  qed (use g in simp)
  then obtain st g1 where g1: "?stop = Inr (st, g1)" "gs_inv {} g1" "gs_frame g g1" by blast
  have "gg_cbs g1 (ge_cb E) = None" "\<And>bug. ge_added E = Some bug \<Longrightarrow> gg_bugs g1 bug = None"
    using gs_frame_fresh [OF g1(3) a] g1(3) b by (simp_all add: gs_frame_def)
  from g_start_rest_ok [OF g1(2) this, of L s A t] show ?thesis
    unfolding g_start_capture2_def g1(1) by auto
qed

lemma g_start_capture_ok:
  assumes "gs_inv {} g" "gg_cbs g (ge_cb E) = None" "\<And>bug. ge_added E = Some bug \<Longrightarrow> gg_bugs g bug = None"
  shows "\<exists>status g'. g_start_capture L E s A t g = Inr (status, g') \<and> gs_inv {} g'"
  using g_start_capture2_ok [OF assms, of L s A t] assms(1)
  by (auto simp: g_start_capture_def g_start_capture2_def)

section \<open>Frames\<close>

lemma g_write_side_ok: "gf_ok_frame f \<Longrightarrow> gf_channels f = 2 \<Longrightarrow> \<exists>d. g_write_side f = Inr d"
  by (auto simp: gf_ok_frame_def g_write_side_def Let_def)

lemma g_frame_step_ok:
  assumes ok: "gs_stream_ok run st" "gc_channels cb \<noteq> 0" "gf_ok_frame f"
  shows "\<exists>cb1 st1 evs1. g_frame_step L process resample s f (cb, st, evs) = Inr (cb1, st1, evs1) \<and>
    gs_stream_ok run st1 \<and> gc_channels cb1 = gc_channels cb \<and> gc_thread cb1 = gc_thread cb \<and> gc_streamer cb1 = gc_streamer cb"
proof (cases "gf_datalen f = 0")
  case True
  then show ?thesis using ok(1) by (simp add: g_frame_step_def)
next
  case False
  obtain pcm where pcm: "(if gc_write_only cb \<and> gf_channels f = 2 then g_write_side f
      else Inr (take (gf_datalen f) (gf_data f))) = Inr pcm"
    using g_write_side_ok [OF ok(3)] by (cases "gc_write_only cb \<and> gf_channels f = 2") auto
  obtain cb1 st1 evs1 where v: "(case gc_vad cb of
            None \<Rightarrow> Inr (cb, st, evs)
          | Some v \<Rightarrow>
              if g_connected st then Inr (cb, st, evs)
              else (case process v pcm (gf_samples f) of (state, v1) \<Rightarrow>
                if state = VAD_START_TALKING
                then andthen (g_connect (gf_ok f) st) (\<lambda>st1.
                  Inr (cb\<lparr>gc_vad := Some v1\<rparr>, st1, evs @ [g_responseHandler L s ''vad_detected'' (gc_bugname cb)]))
                else Inr (cb\<lparr>gc_vad := Some v1\<rparr>, st, evs))) = Inr (cb1, st1, evs1)"
    "gs_stream_ok run st1" "gc_channels cb1 = gc_channels cb" "gc_thread cb1 = gc_thread cb" "gc_streamer cb1 = gc_streamer cb"
  proof (cases "gc_vad cb")
    case None
    then show ?thesis using that ok(1) by simp
  next
    case (Some v)
    obtain state v1 where p: "process v pcm (gf_samples f) = (state, v1)" by fastforce
    show ?thesis
    proof (cases "\<not> g_connected st \<and> state = VAD_START_TALKING")
      case True
      then have "\<not> g_connected st" "\<not> g_promise st" using ok(1) by (auto simp: gs_stream_ok_def)
      then obtain st1 where "g_connect (gf_ok f) st = Inr st1" "g_connected st1" "g_promise st1"
        by (rule g_connect_ok)
      then show ?thesis using that Some p True by (simp add: gs_stream_ok_def)
    next
      case False
      then show ?thesis using that Some p ok(1) by (cases "g_connected st") auto
    qed
  qed
  have w: "\<exists>b st2. g_write (gf_ok f) d st1 = Inr (b, st2) \<and> gs_stream_ok run st2" for d
    using gs_write_ok [OF v(2)] by blast
  show ?thesis
  proof (cases "gc_resampler cb1")
    case None
    then show ?thesis using False v w [of pcm]
      unfolding g_frame_step_def prod.case pcm andthen_simps v(1) by auto
  next
    case (Some r)
    obtain out r1 where "resample r pcm (SWITCH_RECOMMENDED_BUFFER_SIZE div gc_channels cb1) = (out, r1)" by fastforce
    then show ?thesis using Some False v ok(2) w [of out]
      unfolding g_frame_step_def prod.case pcm andthen_simps v(1) by auto
  qed
qed

lemma g_frame_loop_ok:
  assumes "gs_stream_ok run st" "gc_channels cb \<noteq> 0" "list_all gf_ok_frame fs"
  shows "\<exists>cb1 st1 evs1. g_frame_loop L process resample s fs (cb, st, evs) = Inr (cb1, st1, evs1) \<and>
    gs_stream_ok run st1 \<and> gc_channels cb1 = gc_channels cb \<and> gc_thread cb1 = gc_thread cb \<and> gc_streamer cb1 = gc_streamer cb"
  using assms
proof (induction fs arbitrary: cb st evs)
  case (Cons f fs)
  then have "gf_ok_frame f" by simp
  from g_frame_step_ok [OF Cons.prems(1,2) this, of L process resample s evs] obtain cb1 st1 evs1 where
    s: "g_frame_step L process resample s f (cb, st, evs) = Inr (cb1, st1, evs1)" "gs_stream_ok run st1"
    "gc_channels cb1 = gc_channels cb" "gc_thread cb1 = gc_thread cb" "gc_streamer cb1 = gc_streamer cb" by blast
  from Cons.IH [OF s(2), of cb1 evs1] Cons.prems s(3) obtain cb2 st2 evs2 where
    "g_frame_loop L process resample s fs (cb1, st1, evs1) = Inr (cb2, st2, evs2)" "gs_stream_ok run st2"
    "gc_channels cb2 = gc_channels cb1" "gc_thread cb2 = gc_thread cb1" "gc_streamer cb2 = gc_streamer cb1" by auto
  with s show ?case by simp
qed simp

lemma google_speech_frame_ok:
  assumes g: "gs_inv {} g" and b: "gg_bugs g bug = Some (s, a, x)" and f: "\<forall>fill. list_all gf_ok_frame (read fill)"
  shows "\<exists>g'. google_speech_frame L process resample bug locked read g = Inr g' \<and> gs_inv {} g'"
proof -
  obtain cb where cb: "gg_cbs g a = Some cb" using gs_invD(1) [OF g b] by blast
  show ?thesis
  proof (cases "gc_streamer cb")
    case None
    then show ?thesis using g cb by (simp add: google_speech_frame_def b g_cb_def)
  next
    case (Some st)
    then have ok: "gc_thread cb" "gc_channels cb \<noteq> 0" "gs_stream_ok (gg_running g a) st"
      using gs_invD(5) [OF g cb] by (simp_all add: gs_cap_ok_def)
    show ?thesis
    proof (cases "gc_single cb \<and> gc_eou cb \<or> \<not> locked")
      case True
      then show ?thesis using g Some cb by (simp add: google_speech_frame_def b g_cb_def)
    next
      case False
      from g_frame_loop_ok [OF ok(3,2), of "read (\<not> x)" L process resample s "[]"] f obtain cb1 st1 evs where
        l: "g_frame_loop L process resample s (read (\<not> x)) (cb, st, []) = Inr (cb1, st1, evs)"
        "gs_stream_ok (gg_running g a) st1" "gc_channels cb1 = gc_channels cb" "gc_thread cb1 = gc_thread cb" by blast
      have "gs_inv {} (g_set a (cb1\<lparr>gc_streamer := Some st1\<rparr>) g)"
        using gs_inv_set [OF g cb] l ok Some by (simp add: gs_cap_ok_def)
      then show ?thesis using False Some cb l(1) by (auto simp: google_speech_frame_def b g_cb_def)
    qed
  qed
qed

section \<open>Every step\<close>

lemma gs_thread_ok:
  assumes g: "gs_inv {} g" and r: "gg_running g a"
    and c: "\<forall>cb st. gg_cbs g a = Some cb \<longrightarrow> gc_streamer cb = Some st \<longrightarrow> g_connected st"
  shows "\<exists>cb st. gg_cbs g a = Some cb \<and> gc_streamer cb = Some st \<and> g_connected st \<and> g_promise st \<and>
    gc_thread cb \<and> gc_channels cb \<noteq> 0"
proof -
  obtain cb st where "gg_cbs g a = Some cb" "gc_streamer cb = Some st"
    using gs_invD(6) [OF g r] by (auto simp: gs_live_def)
  with c gs_invD(5) [OF g, of a cb] show ?thesis by (auto simp: gs_cap_ok_def gs_stream_ok_def)
qed

lemma g_thread_end_ok:
  assumes g: "gs_inv {} g" and cb: "gg_cbs g a = Some cb" "gc_streamer cb = Some st" "g_connected st" "g_promise st"
    "gc_thread cb" "gc_channels cb \<noteq> 0"
  shows "\<exists>g'. g_thread_end L a alive status g = Inr g' \<and> gs_inv {} g'"
proof -
  let ?cb = "cb\<lparr>gc_streamer := Some (g_finish st)\<rparr>"
  let ?g = "(g_set a ?cb (g_emit (g_finish_events L (gc_sessionId cb) (gc_bugname cb) alive status) g))
    \<lparr>gg_running := (gg_running g)(a := False)\<rparr>"
  note D = gs_invD [OF g]
  have live: "gs_live ?g = gs_live g" using cb(1,2) by (auto simp: gs_live_def)
  have ok: "gs_cap_ok False ?cb" using cb by (simp add: gs_cap_ok_def gs_stream_ok_def g_finish_def g_call_def)
  have "gs_inv {} ?g" unfolding gs_inv_def live
  proof (intro conjI allI impI)
    show "gs_cap_ok (gg_running ?g a') cb1" if "gg_cbs ?g a' = Some cb1" for a' cb1
      using that ok D(5) [of a' cb1] by (auto split: if_splits)
    show "gg_cbs ?g a' \<noteq> None" "gg_pool ?g a' = Some s" if "gg_bugs ?g b = Some (s, a', x)" for b s a' x
      using that D(1,2) [of b s a' x] by auto
    show "gg_bugs ?g b \<noteq> None" if "gg_attached ?g b" for b using that D(3) [of b] by auto
    show "a' \<in> gs_live g" if "gg_running ?g a'" for a' using that D(6) [of a'] by (auto split: if_splits)
  qed (use D in \<open>simp_all\<close>)
  then show ?thesis by (simp add: g_thread_end_def g_cb_def cb(1,2))
qed

lemma gs_destroy_ok:
  assumes g: "gs_inv {} g" and b: "\<forall>bug a x. gg_bugs g bug = Some (s, a, x) \<longrightarrow> \<not> gg_attached g bug"
  shows "gs_inv {} (gs_destroy s g)" "gs_live (gs_destroy s g) = gs_live g"
proof -
  note D = gs_invD [OF g]
  have pool: "gg_pool g a \<noteq> Some s" if "a \<in> gs_live g" for a
  proof -
    from D(7) [OF that] obtain bug s' x where o: "gg_bugs g bug = Some (s', a, x)" "gg_attached g bug" by auto
    with b have "s' \<noteq> s" by blast
    with D(2) [OF o(1)] show ?thesis by simp
  qed
  then show live: "gs_live (gs_destroy s g) = gs_live g" by (auto simp: gs_live_def gs_destroy_def)
  have bugs: "gg_bugs (gs_destroy s g) bug = Some (s', a, x) \<longleftrightarrow> gg_bugs g bug = Some (s', a, x) \<and> s' \<noteq> s" for bug s' a x
    by (auto simp: gs_destroy_def split: option.splits)
  show "gs_inv {} (gs_destroy s g)" unfolding gs_inv_def live
  proof (intro conjI allI impI)
    show "gg_cbs (gs_destroy s g) a \<noteq> None" "gg_pool (gs_destroy s g) a = Some s'"
      if "gg_bugs (gs_destroy s g) bug = Some (s', a, x)" for bug s' a x
      using that D(1,2) [of bug s' a x] unfolding bugs by (auto simp: gs_destroy_def)
    show "gg_bugs (gs_destroy s g) bug \<noteq> None" if "gg_attached (gs_destroy s g) bug" for bug
    proof -
      from that obtain s' a x where o: "gg_bugs g bug = Some (s', a, x)" using D(3) [of bug] by (auto simp: gs_destroy_def)
      with that b have "s' \<noteq> s" by (auto simp: gs_destroy_def)
      with o show ?thesis by (simp add: gs_destroy_def)
    qed
    show "\<exists>a x. gg_bugs (gs_destroy s g) bug = Some (s', a, x)" if "gg_private (gs_destroy s g) s' n = Some bug" for s' n bug
      using that D(4) [of s' n bug] unfolding bugs by (auto simp: gs_destroy_def split: if_splits)
    show "gs_cap_ok (gg_running (gs_destroy s g) a) cb" if "gg_cbs (gs_destroy s g) a = Some cb" for a cb
      using that D(5) [of a cb] by (auto simp: gs_destroy_def split: if_splits)
    show "\<exists>bug s' x. gg_bugs (gs_destroy s g) bug = Some (s', a, x) \<and> gg_attached (gs_destroy s g) bug"
      if "a \<in> gs_live g" for a
    proof -
      from D(7) [OF that] obtain bug s' x where o: "gg_bugs g bug = Some (s', a, x)" "gg_attached g bug" by auto
      with b have "s' \<noteq> s" by blast
      with o show ?thesis unfolding bugs by (auto simp: gs_destroy_def)
    qed
  qed (use D in \<open>simp_all add: gs_destroy_def\<close>)
qed

lemma gs_step_ok:
  assumes g: "gs_inv {} g" and e: "gs_enabled x g"
  shows "\<exists>g'. gs_exec L p r x g = Inr g' \<and> gs_inv {} g'"
proof (cases x)
  case (GSStart E s A t)
  then have "gg_cbs g (ge_cb E) = None" "\<And>bug. ge_added E = Some bug \<Longrightarrow> gg_bugs g bug = None"
    using e by (auto split: option.splits)
  from g_start_capture_ok [OF g this, of L s A t] show ?thesis using GSStart by auto
next
  case (GSRest E s A t)
  then have "gg_cbs g (ge_cb E) = None" "\<And>bug. ge_added E = Some bug \<Longrightarrow> gg_bugs g bug = None"
    using e by (auto split: option.splits)
  from g_start_rest_ok [OF g this, of L s A t] show ?thesis using GSRest by auto
next
  case (GSStop s seen t)
  have b: "\<exists>s' a x. gg_bugs g bug = Some (s', a, x)" if "seen = Some bug" for bug using GSStop e that by auto
  show ?thesis using g_do_stop_seen_ok [OF g b, of seen L s t] GSStop by auto
next
  case (GSFrame bug locked read)
  then obtain s a y where "gg_bugs g bug = Some (s, a, y)" using e gs_invD(3) [OF g, of bug] by auto
  from google_speech_frame_ok [OF g this, of read L p r locked] e show ?thesis using GSFrame by simp
next
  case (GSClose bug t)
  then obtain s a y where "gg_bugs g bug = Some (s, a, y)" using e gs_invD(3) [OF g, of bug] by auto
  from g_capture_close_ok [OF g this, of L t] show ?thesis using GSClose by auto
next
  case (GSResponse a alive re)
  then obtain cb st where cb: "gg_cbs g a = Some cb" "gc_streamer cb = Some st" "g_connected st" "g_promise st"
    "gc_thread cb" "gc_channels cb \<noteq> 0" using e gs_thread_ok [OF g, of a] by auto
  from g_thread_response_ok [OF cb(1-4), of L alive re] obtain es eou st1 where
    "g_thread_response L a alive re g = Inr (g_emit es (g_set a (cb\<lparr>gc_eou := eou, gc_streamer := Some st1\<rparr>) g))"
    "g_connected st1" "g_promise st1" by blast
  with gs_inv_set [OF g cb(1), of "cb\<lparr>gc_eou := eou, gc_streamer := Some st1\<rparr>"] cb show ?thesis
    using GSResponse by (simp add: gs_cap_ok_def gs_stream_ok_def)
next
  case (GSStreamEnd a alive st)
  then show ?thesis using e gs_thread_ok [OF g, of a] g_thread_end_ok [OF g] by fastforce
next
  case (GSHangup s)
  then show ?thesis using g by (auto simp: gs_inv_def gs_live_def)
next
  case (GSDestroy s)
  then show ?thesis using e gs_destroy_ok [OF g] by auto
qed

lemma gs_reach_inv: "gs_reach L p r g \<Longrightarrow> gs_inv {} g"
proof (induction rule: gs_reach.induct)
  case (start g)
  then show ?case by (auto simp: gs_start_def gs_inv_def gs_live_def)
next
  case (step g a g')
  then show ?case using gs_step_ok [OF step.IH step.hyps(2), of L p r] by simp
qed

end
