(* ===== verification/GProps.thy ===== *)
theory GProps
  imports GSafe
begin

text \<open>
  The properties of the sessions of mod_google_transcribe, with a concrete capture as witness.
\<close>

section \<open>Safety\<close>

text \<open>C35: whatever calls start, stop, hang up and are destroyed, whatever audio and whatever responses
  come, and whichever starts race and stops read their bug too early: no step uses freed memory, reads
  outside a frame's buffer, connects twice or waits for a read thread for ever; and afterwards every read
  thread has its session's memory and a bug on the channel that will join it.\<close>

theorem g_sessions_safe:
  assumes "gs_reach L p r g" "gs_enabled x g"
  shows "\<exists>g'. gs_exec L p r x g = Inr g' \<and>
    (\<forall>a. gg_running g' a \<longrightarrow> (\<exists>cb bug s y. gg_cbs g' a = Some cb \<and> gc_streamer cb \<noteq> None \<and>
      gg_bugs g' bug = Some (s, a, y) \<and> gg_attached g' bug \<and> gg_pool g' a = Some s))"
proof -
  obtain g' where g': "gs_exec L p r x g = Inr g'" "gs_inv {} g'"
    using gs_step_ok [OF gs_reach_inv [OF assms(1)] assms(2)] by blast
  note D = gs_invD [OF g'(2)]
  have "\<exists>cb bug s y. gg_cbs g' a = Some cb \<and> gc_streamer cb \<noteq> None \<and>
      gg_bugs g' bug = Some (s, a, y) \<and> gg_attached g' bug \<and> gg_pool g' a = Some s" if "gg_running g' a" for a
  proof -
    have l: "a \<in> gs_live g'" using D(6) [OF that] .
    then obtain bug s y where "gg_bugs g' bug = Some (s, a, y)" "gg_attached g' bug" using D(7) by blast
    with l D(2) show ?thesis unfolding gs_live_def by blast
  qed
  with g'(1) show ?thesis by blast
qed

text \<open>C36: the module unloads exactly when no session has a stream, and then no read thread is running,
  so none runs unmapped code; a refused unload changes nothing.\<close>

theorem g_unload_safe:
  assumes "gs_reach L p r g"
  shows "(fst (mod_google_transcribe_shutdown g v) = SWITCH_STATUS_SUCCESS) = (gs_live g = {}) \<and>
    (fst (mod_google_transcribe_shutdown g v) = SWITCH_STATUS_SUCCESS \<longrightarrow> (\<forall>a. \<not> gg_running g a)) \<and>
    (fst (mod_google_transcribe_shutdown g v) \<noteq> SWITCH_STATUS_SUCCESS \<longrightarrow>
      mod_google_transcribe_shutdown g v = (SWITCH_STATUS_FALSE, v))"
proof -
  note D = gs_invD [OF gs_reach_inv [OF assms]]
  have "gg_active g > 0 \<longleftrightarrow> gs_live g \<noteq> {}" using D(8,9) by (simp add: card_gt_0_iff)
  moreover have "gs_live g = {} \<Longrightarrow> \<not> gg_running g a" for a using D(6) by blast
  ultimately show ?thesis
    by (auto simp: mod_google_transcribe_shutdown_def google_speech_sessions_active_def)
qed

section \<open>Starting and stopping\<close>

text \<open>C37: a start either gives the call a capture under its name whose bug is on the channel, with exactly
  one stream more, or it fails and leaves no stream, thread, bug or private behind, on each of its error
  paths: no codec, no resampler, no detector, no recogniser, no thread, no bug.\<close>

theorem g_start_all_or_nothing:
  assumes "gs_reach L p r g" "gs_enabled (GSRest E s A t) g"
  shows "\<exists>status g'. g_start_rest L E s A t g = Inr (status, g') \<and>
    (if status = SWITCH_STATUS_SUCCESS
     then \<exists>bug. ge_added E = Some bug \<and> gg_private g' s (ga_bugname A) = Some bug \<and> gg_attached g' bug \<and>
       gg_bugs g' bug = Some (s, ge_cb E, ga_stereo A) \<and> gs_live g' = insert (ge_cb E) (gs_live g)
     else gs_live g' = gs_live g \<and> {a. gg_running g' a} \<subseteq> gs_live g \<and> gg_active g' = gg_active g \<and>
       gg_bugs g' = gg_bugs g \<and> gg_private g' = gg_private g)"
proof -
  have g: "gs_inv {} g" by (rule gs_reach_inv [OF assms(1)])
  have "gg_cbs g (ge_cb E) = None" "\<And>bug. ge_added E = Some bug \<Longrightarrow> gg_bugs g bug = None"
    using assms(2) by (auto split: option.splits)
  from g_start_rest_ok [OF g this, of L s A t] obtain status g' where
    "g_start_rest L E s A t g = Inr (status, g')" "gs_inv {} g'"
    "status \<noteq> SWITCH_STATUS_SUCCESS \<longrightarrow> gs_live g' = gs_live g \<and> gg_active g' = gg_active g \<and>
      gg_bugs g' = gg_bugs g \<and> gg_private g' = gg_private g"
    "status = SWITCH_STATUS_SUCCESS \<longrightarrow> (\<exists>bug. ge_added E = Some bug \<and>
      gg_private g' s (ga_bugname A) = Some bug \<and> gg_attached g' bug \<and>
      gg_bugs g' bug = Some (s, ge_cb E, ga_stereo A) \<and> gs_live g' = insert (ge_cb E) (gs_live g) \<and>
      gg_active g' = gg_active g + 1)" by blast
  with gs_invD(6) [of "{}" g'] show ?thesis by (intro exI [of _ status] exI [of _ g']) auto
qed

text \<open>C38: a stop that read its bug before the capture was replaced under the same name takes the new
  capture's private away: the new capture stays on the channel with its stream, and a later stop of
  that name reports success without stopping it.\<close>

theorem g_stale_stop_detaches:
  assumes "gs_reach L p r g" "gg_bugs g old = Some (s, a, x)" "gg_cbs g a = Some cb" "\<not> gg_attached g old"
    and "gg_private g s (gc_bugname cb) = Some new" "gg_bugs g new = Some (s, b, y)" "b \<noteq> a"
    and "gg_attached g new" "b \<in> gs_live g"
  shows "\<exists>g'. g_do_stop_seen L s (Some old) t g = Inr (SWITCH_STATUS_SUCCESS, g') \<and>
    gg_private g' s (gc_bugname cb) = None \<and> gg_attached g' new \<and> b \<in> gs_live g' \<and>
    g_do_stop L s (gc_bugname cb) t' g' = Inr (SWITCH_STATUS_SUCCESS, g')"
proof -
  have g: "gs_inv {} g" by (rule gs_reach_inv [OF assms(1)])
  let ?g = "g\<lparr>gg_private := (gg_private g)(s := (gg_private g s)(gc_bugname cb := None))\<rparr>"
  have g1: "gs_inv {} ?g" "gg_cbs ?g a = Some cb" using gs_inv_private [OF g] assms(3) by simp_all
  from reap_streamer_ok [OF g1, of L t] obtain g' where
    r: "reap_streamer L a t ?g = Inr g'" "gs_kept ?g g'" "gs_live g' = gs_live ?g - {a}" by blast
  have "gs_live ?g = gs_live g" by (simp add: gs_live_def)
  with r(3) assms(7,9) have live: "b \<in> gs_live g'" by simp
  have k: "gg_private g' s (gc_bugname cb) = None" "gg_attached g' = gg_attached g" using r(2) by (simp_all add: gs_kept_def)
  have "g_cleanup_locked L s old t g = Inr (True, g')"
    by (simp add: g_cleanup_locked_def assms(2,3,5) g_cb_def r(1))
  then show ?thesis using assms(4,8) k live
    by (auto simp: g_do_stop_seen_def google_speech_session_cleanup_def g_bug_remove_def g_do_stop_def)
qed

section \<open>The commands\<close>

lemma g_do_stop_ok:
  assumes g: "gs_inv {} g"
  shows "\<exists>status g'. g_do_stop L s n t g = Inr (status, g') \<and> gs_inv {} g'"
proof -
  have b: "\<exists>s' a x. gg_bugs g bug = Some (s', a, x)" if "gg_private g s n = Some bug" for bug
    using gs_invD(4) [OF g that] by blast
  show ?thesis using g_do_stop_seen_ok [OF g b, of "gg_private g s n" L s t] by (auto simp: g_do_stop_def)
qed

lemma transcribe2_args_ok:
  assumes "\<not> length argv < 10"
  shows "\<exists>q. transcribe2_args atol argv = Inr q \<and> (\<forall>A. q = Some A \<longrightarrow> 4000 \<le> ga_to_rate A \<and> ga_to_rate A \<le> 48000)"
proof -
  have "(4000 :: u32) \<le> r \<Longrightarrow> r \<le> 48000 \<Longrightarrow> 4000 \<le> unat r \<and> unat r \<le> 48000" for r :: u32
    by (simp add: word_le_nat_alt)
  then show ?thesis using assms
    by (auto simp: transcribe2_args_def argv_at_def Let_def DEFAULT_SAMPLE_RATE_def not_less)
qed


section \<open>The write capture\<close>

text \<open>The second channel of interleaved 16 bit samples.\<close>

fun second_channel :: "u8 list \<Rightarrow> u8 list" where
  "second_channel (a # b # c # d # xs) = c # d # second_channel xs"
| "second_channel xs = []"

lemma second_channel_concat:
  "4 * n \<le> length xs \<Longrightarrow>
   concat (map (\<lambda>i. take 2 (drop (2 * (2 * i + 1)) xs)) [0..<n]) = second_channel (take (4 * n) xs)"
proof (induction n arbitrary: xs)
  case (Suc n)
  from Suc.prems obtain a b c d ys where xs: "xs = a # b # c # d # ys"
    by (cases xs rule: second_channel.cases) auto
  have idx: "[0..<Suc n] = 0 # map Suc [0..<n]" by (simp add: upt_conv_Cons map_Suc_upt del: upt_Suc)
  have ys: "drop 4 xs = ys" by (simp add: xs numeral_eq_Suc)
  have next_: "take 2 (drop (2 * (2 * Suc i + 1)) xs) = take 2 (drop (2 * (2 * i + 1)) ys)" for i
  proof -
    have "2 * (2 * Suc i + 1) = 2 * (2 * i + 1) + 4" by simp
    then show ?thesis unfolding ys [symmetric] drop_drop by metis
  qed
  have "take (4 * Suc n) xs = a # b # c # d # take (4 * n) ys" by (simp add: xs numeral_eq_Suc)
  moreover have "take 2 (drop (2 * (2 * 0 + 1)) xs) = [c, d]" by (simp add: xs numeral_eq_Suc)
  moreover have "4 * n \<le> length ys" using Suc.prems xs by simp
  moreover have "map (\<lambda>i. take 2 (drop (2 * (2 * i + 1)) xs)) (map Suc [0..<n])
      = map (\<lambda>i. take 2 (drop (2 * (2 * i + 1)) ys)) [0..<n]"
    by (simp only: map_map o_def next_)
  ultimately show ?case using Suc.IH [of ys]
    by (simp only: idx list.map(2) concat.simps(2) second_channel.simps(1) append_Cons append_Nil)
qed simp

text \<open>C40: the write capture sends exactly the second channel of a frame of at most 4096 samples per
  channel; the bound the code has itself, 8192 samples, does not keep it inside the buffer: from 4097
  samples on it reads past the end.\<close>

theorem g_write_side_exact:
  assumes "length (gf_data f) = MEDIA_BUG_FRAME_BUF_SIZE"
  shows "g_write_side f =
    (if gf_samples f \<le> 4096 then Inr (second_channel (take (4 * gf_samples f) (gf_data f))) else Inl OutOfBounds)"
proof (cases "gf_samples f \<le> 4096")
  case True
  then have "4 * gf_samples f \<le> length (gf_data f)"
    using assms by (simp add: MEDIA_BUG_FRAME_BUF_SIZE_def SWITCH_RECOMMENDED_BUFFER_SIZE_def)
  from second_channel_concat [OF this] show ?thesis using True assms
    by (simp add: g_write_side_def Let_def MEDIA_BUG_FRAME_BUF_SIZE_def SWITCH_RECOMMENDED_BUFFER_SIZE_def)
next
  case False
  then show ?thesis using assms
    by (simp add: g_write_side_def Let_def MEDIA_BUG_FRAME_BUF_SIZE_def SWITCH_RECOMMENDED_BUFFER_SIZE_def)
qed

lemma g_write_side_exact_witness:
  "g_write_side \<lparr>gf_data = replicate 16384 7, gf_datalen = 16384, gf_samples = 4097, gf_channels = 2, gf_ok = True\<rparr>
    = Inl OutOfBounds"
  using g_write_side_exact [of "\<lparr>gf_data = replicate 16384 7, gf_datalen = 16384, gf_samples = 4097, gf_channels = 2, gf_ok = True\<rparr>"]
  by (simp add: MEDIA_BUG_FRAME_BUF_SIZE_def SWITCH_RECOMMENDED_BUFFER_SIZE_def)

section \<open>A concrete run\<close>

text \<open>A call with a detector, whose capture is stopped and replaced.\<close>

definition g_demo_env :: "ptr \<Rightarrow> ptr \<Rightarrow> (unit, unit) g_env" where
  "g_demo_env a bug = \<lparr>ge_cb = a, ge_codec = Some 8000, ge_resampler = \<lambda>_ _ _. (None, True), ge_on_vad = True,
     ge_vad = Some (), ge_streamer = True, ge_write = True, ge_thread = True, ge_read_impl = True,
     ge_pre_answer = True, ge_added = Some bug\<rparr>"

definition g_demo_args :: g_args where
  "g_demo_args = \<lparr>ga_to_rate = 8000, ga_stereo = False, ga_write_only = False, ga_bugname = ''b'',
     ga_single = False, ga_play_file = False\<rparr>"

definition g_demo_tail :: "int g_tail" where
  "g_demo_tail = \<lparr>tl_responses = [], tl_alive = True, tl_status = \<lparr>st_code = 0, st_message = [], st_max_duration = False\<rparr>\<rparr>"

definition g_idle :: "(unit, unit) g_glue" where
  "g_idle = \<lparr>gg_cbs = \<lambda>_. None, gg_pool = \<lambda>_. None, gg_bugs = \<lambda>_. None, gg_attached = \<lambda>_. False,
     gg_private = \<lambda>_ _. None, gg_sessions = \<lambda>_. True, gg_running = \<lambda>_. False, gg_active = 0, gg_events = []\<rparr>"

abbreviation demo_exec :: "(int, unit, unit) gs_action \<Rightarrow> (unit, unit) g_glue \<Rightarrow> ub + (unit, unit) g_glue" where
  "demo_exec \<equiv> gs_exec demo_lib (\<lambda>v d n. (VAD_NONE, v)) (\<lambda>r d n. (d, r))"

abbreviation demo_reach :: "(unit, unit) g_glue \<Rightarrow> bool" where
  "demo_reach \<equiv> gs_reach demo_lib (\<lambda>v d n. (VAD_NONE, v)) (\<lambda>r d n. (d, r))"

definition gs_after :: "(int, unit, unit) gs_action \<Rightarrow> (unit, unit) g_glue \<Rightarrow> (unit, unit) g_glue" where
  "gs_after x g = (case demo_exec x g of Inl e \<Rightarrow> g | Inr g' \<Rightarrow> g')"

lemma gs_after_reach: "demo_reach g \<Longrightarrow> gs_enabled x g \<Longrightarrow> demo_reach (gs_after x g)"
  using gs_reach.step [of demo_lib "\<lambda>v d n. (VAD_NONE, v)" "\<lambda>r d n. (d, r)" g x] gs_step_ok [OF gs_reach_inv]
  unfolding gs_after_def by (fastforce split: sum.split)

definition g_demo1 :: "(unit, unit) g_glue" where
  "g_demo1 = gs_after (GSRest (g_demo_env 1 10) ''u'' g_demo_args g_demo_tail) g_idle"

definition g_demo2 :: "(unit, unit) g_glue" where
  "g_demo2 = gs_after (GSStop ''u'' (Some 10) g_demo_tail) g_demo1"

definition g_demo3 :: "(unit, unit) g_glue" where
  "g_demo3 = gs_after (GSRest (g_demo_env 2 11) ''u'' g_demo_args g_demo_tail) g_demo2"

lemma g_idle_reach: "demo_reach g_idle"
  by (rule gs_reach.start) (simp add: gs_start_def g_idle_def)

lemmas g_start_eval = gs_after_def g_start_rest_def google_speech_session_init_def g_demo_env_def g_demo_args_def
  g_cb_def MAX_SESSION_ID_def MAX_BUG_LEN_def

lemma g_demo1_fields:
  "gg_bugs g_demo1 = [10 \<mapsto> (''u'', 1, False)]" "gg_attached g_demo1 = (\<lambda>_. False)(10 := True)"
  "gg_private g_demo1 = (\<lambda>_ _. None)(''u'' := [''b'' \<mapsto> 10])" "gg_running g_demo1 = (\<lambda>_. False)(1 := True)"
  "gg_sessions g_demo1 = (\<lambda>_. True)"
  "gg_cbs g_demo1 = [1 \<mapsto> \<lparr>gc_sessionId = ''u'', gc_bugname = ''b'', gc_channels = 1, gc_single = False, gc_eou = False,
     gc_play_file = False, gc_write_only = False, gc_resampler = None, gc_vad = Some (), gc_streamer = Some GStreamer,
     gc_thread = True\<rparr>]"
  by (simp_all add: g_demo1_def g_start_eval g_idle_def)

lemma g_demo1_reach: "demo_reach g_demo1"
  unfolding g_demo1_def by (rule gs_after_reach [OF g_idle_reach]) (simp add: g_idle_def g_demo_env_def)

lemma g_demo2_reach: "demo_reach g_demo2"
  unfolding g_demo2_def by (rule gs_after_reach [OF g_demo1_reach]) (auto simp: g_demo1_fields)

lemma g_demo2_fields:
  "gg_bugs g_demo2 = [10 \<mapsto> (''u'', 1, False)]" "\<not> gg_attached g_demo2 b"
  "gg_sessions g_demo2 = (\<lambda>_. True)" "gs_live g_demo2 = {}"
  "gg_cbs g_demo2 = [1 \<mapsto> \<lparr>gc_sessionId = ''u'', gc_bugname = ''b'', gc_channels = 1, gc_single = False, gc_eou = False,
     gc_play_file = False, gc_write_only = False, gc_resampler = None, gc_vad = None, gc_streamer = None,
     gc_thread = False\<rparr>]"
  by (simp_all add: g_demo2_def gs_after_def g_do_stop_seen_def google_speech_session_cleanup_def g_cleanup_locked_def
      g_demo1_fields g_cb_def reap_streamer_def GStreamer_def g_writes_done_def g_cancelConnect_def g_join_def
      g_waitForConnect_def g_bug_remove_def g_capture_close_def gs_live_def)

lemma g_demo3_fields:
  "gg_bugs g_demo3 = [10 \<mapsto> (''u'', 1, False), 11 \<mapsto> (''u'', 2, False)]" "gg_attached g_demo3 b \<longleftrightarrow> b = 11"
  "gg_private g_demo3 ''u'' ''b'' = Some 11" "2 \<in> gs_live g_demo3"
  "gg_cbs g_demo3 1 = gg_cbs g_demo2 1" "gg_cbs g_demo3 3 = None"
  by (simp_all add: g_demo3_def g_start_eval g_demo2_fields gs_live_def)

lemma g_demo3_reach: "demo_reach g_demo3"
  unfolding g_demo3_def by (rule gs_after_reach [OF g_demo2_reach]) (simp add: g_demo2_fields g_demo_env_def)

lemma g_sessions_safe_witness:
  "\<exists>g'. demo_exec (GSStop ''u'' (Some 10) g_demo_tail) g_demo3 = Inr g'"
  using g_sessions_safe [OF g_demo3_reach, of "GSStop ''u'' (Some 10) g_demo_tail"] by (auto simp: g_demo3_fields)

lemma g_unload_safe_witness:
  "fst (mod_google_transcribe_shutdown g_demo2 \<lparr>rv_table = {}, rv_owned = {}\<rparr>) = SWITCH_STATUS_SUCCESS \<and>
   fst (mod_google_transcribe_shutdown g_demo3 \<lparr>rv_table = {}, rv_owned = {}\<rparr>) \<noteq> SWITCH_STATUS_SUCCESS"
  using g_unload_safe [OF g_demo2_reach, of "\<lparr>rv_table = {}, rv_owned = {}\<rparr>"]
    g_unload_safe [OF g_demo3_reach, of "\<lparr>rv_table = {}, rv_owned = {}\<rparr>"] g_demo2_fields(4) g_demo3_fields(4) by auto

lemma g_start_all_or_nothing_witness:
  "\<exists>status g'. g_start_rest demo_lib (g_demo_env 3 12) ''u'' g_demo_args g_demo_tail g_demo3 = Inr (status, g')"
  using g_start_all_or_nothing [OF g_demo3_reach, of "g_demo_env 3 12" "''u''" g_demo_args g_demo_tail]
  by (auto simp: g_demo3_def g_start_eval g_demo2_fields)

lemma g_stale_stop_detaches_witness:
  "\<exists>g'. g_do_stop_seen demo_lib ''u'' (Some 10) g_demo_tail g_demo3 = Inr (SWITCH_STATUS_SUCCESS, g') \<and>
    gg_private g' ''u'' ''b'' = None \<and> gg_attached g' 11 \<and> 2 \<in> gs_live g'"
  using g_stale_stop_detaches [OF g_demo3_reach, of 10 "''u''" 1 False _ 11 2 False g_demo_tail g_demo_tail]
  by (auto simp: g_demo3_fields g_demo2_fields simp del: One_nat_def)


end
